(* ===== verification/Prelude.thy ===== *)
theory Prelude
  imports Main "HOL-Library.Word"
begin

text \<open>
  Shared ground of the development: the byte and text types of the program, the
  operations of \<^verbatim>\<open>std::string_view\<close> the sources use (\<open>find\<close>, \<open>find_first_of\<close>,
  \<open>starts_with\<close>, \<open>ends_with\<close>), ASCII case folding and optional-whitespace trimming, and
  the generic facts about them that the component theories reuse.

  A C++ \<^verbatim>\<open>char\<close> is an Isabelle \<open>char\<close> (eight bits), a \<^verbatim>\<open>std::byte\<close> or
  \<^verbatim>\<open>std::uint8_t\<close> is an \<open>8 word\<close>, and strings, vectors and spans are lists.
\<close>

type_synonym byte = "8 word"
type_synonym bytes = "byte list"
type_synonym u16 = "16 word"
type_synonym u32 = "32 word"
type_synonym u64 = "64 word"

named_theorems policy_simps \<open>characteristic equations of the policy decisions\<close>
named_theorems result_splits \<open>split rules for the result types of the sources\<close>

lemmas [result_splits] = option.splits sum.splits if_splits prod.splits

section \<open>Bytes and characters\<close>

definition byte_of_char :: "char \<Rightarrow> byte" where
  "byte_of_char c = of_nat (of_char c)"

definition char_of_byte :: "byte \<Rightarrow> char" where
  "char_of_byte b = char_of (unat b)"

definition bytes_of_string :: "string \<Rightarrow> bytes" where
  "bytes_of_string s = map byte_of_char s"

definition string_of_bytes :: "bytes \<Rightarrow> string" where
  "string_of_bytes bs = map char_of_byte bs"

lemma unat_byte_of_char [simp]: "unat (byte_of_char c) = of_char c"
  by (simp add: byte_of_char_def unsigned_of_nat take_bit_eq_mod)

lemma char_of_byte_of_char [simp]: "char_of_byte (byte_of_char c) = c"
  by (simp add: char_of_byte_def)

lemma byte_of_char_of_byte [simp]: "byte_of_char (char_of_byte b) = b"
proof -
  have "(of_char (char_of (unat b)) :: nat) = unat b mod 256"
    by (rule of_char_of)
  moreover have "unat b < 256"
    using unsigned_less [of b, where ?'a = nat] by simp
  ultimately show ?thesis
    by (simp add: byte_of_char_def char_of_byte_def)
qed

lemma byte_of_char_inject [simp]: "byte_of_char c = byte_of_char d \<longleftrightarrow> c = d"
  by (metis char_of_byte_of_char)

lemma string_of_bytes_of_string [simp]: "string_of_bytes (bytes_of_string s) = s"
  by (simp add: string_of_bytes_def bytes_of_string_def o_def)

lemma bytes_of_string_of_bytes [simp]: "bytes_of_string (string_of_bytes bs) = bs"
  by (simp add: string_of_bytes_def bytes_of_string_def o_def)

lemma length_bytes_of_string [simp]: "length (bytes_of_string s) = length s"
  by (simp add: bytes_of_string_def)

lemma bytes_of_string_append [simp]:
  "bytes_of_string (s @ t) = bytes_of_string s @ bytes_of_string t"
  by (simp add: bytes_of_string_def)

lemma string_of_bytes_append [simp]: "string_of_bytes (x @ y) = string_of_bytes x @ string_of_bytes y"
  by (simp add: string_of_bytes_def)

lemma string_of_bytes_take: "string_of_bytes (take n x) = take n (string_of_bytes x)"
  by (simp add: string_of_bytes_def take_map)

lemma length_string_of_bytes [simp]: "length (string_of_bytes bs) = length bs"
  by (simp add: string_of_bytes_def)

lemma or_push_bit_eq_add:
  fixes h l :: "'a::len word"
  assumes "take_bit n l = l"
  shows "or (push_bit n h) l = push_bit n h + l"
proof -
  have "bit l k \<Longrightarrow> k < n" for k
    using assms by (metis bit_take_bit_iff)
  then have "and (push_bit n h) l = 0"
    by (fastforce simp: bit_eq_iff bit_simps)
  then show ?thesis by (simp add: disjunctive_add_eq_or)
qed

lemma or_push_bit_of_nat:
  assumes "l < 2 ^ n"
  shows "or (push_bit n (of_nat h)) (of_nat l) = (of_nat (2 ^ n * h + l) :: 'a::len word)"
proof -
  have "take_bit n (of_nat l :: 'a word) = of_nat (take_bit n l)"
    by (rule bit_word_eqI) (auto simp: bit_simps)
  with assms have "take_bit n (of_nat l :: 'a word) = of_nat l"
    by (simp add: take_bit_nat_eq_self)
  then have "or (push_bit n (of_nat h)) (of_nat l :: 'a word) = push_bit n (of_nat h) + of_nat l"
    by (rule or_push_bit_eq_add)
  then show ?thesis
    by (simp add: push_bit_eq_mult mult.commute)
qed

text \<open>A character in an ASCII range, compared by its code as C++ compares it.\<close>

definition char_in :: "char \<Rightarrow> char \<Rightarrow> char \<Rightarrow> bool" where
  "char_in lo hi c \<longleftrightarrow> (of_char lo :: nat) \<le> of_char c \<and> (of_char c :: nat) \<le> of_char hi"

definition CR :: char where "CR = CHR 0x0D"
definition LF :: char where "LF = CHR 0x0A"
definition HT :: char where "HT = CHR 0x09"
definition NUL :: char where "NUL = CHR 0x00"

definition CRLF :: string where "CRLF = [CR, LF]"

section \<open>Searching in strings\<close>

text \<open>
  \<open>str_find pat s\<close> is \<^verbatim>\<open>s.find(pat)\<close>: the first position where
  \<open>pat\<close> occurs, \<open>None\<close>
  for \<^verbatim>\<open>npos\<close>.
\<close>

definition starts_with :: "'a list \<Rightarrow> 'a list \<Rightarrow> bool" where
  "starts_with s pat \<longleftrightarrow> take (length pat) s = pat"

definition ends_with :: "'a list \<Rightarrow> 'a list \<Rightarrow> bool" where
  "ends_with s pat \<longleftrightarrow> length pat \<le> length s \<and> drop (length s - length pat) s = pat"

fun str_find :: "'a list \<Rightarrow> 'a list \<Rightarrow> nat option" where
  "str_find pat [] = (if pat = [] then Some 0 else None)"
| "str_find pat (x # xs) =
     (if starts_with (x # xs) pat then Some 0 else map_option Suc (str_find pat xs))"

fun find_char :: "'a \<Rightarrow> 'a list \<Rightarrow> nat option" where
  "find_char c [] = None"
| "find_char c (x # xs) = (if x = c then Some 0 else map_option Suc (find_char c xs))"

fun rfind_char :: "'a \<Rightarrow> 'a list \<Rightarrow> nat option" where
  "rfind_char c [] = None"
| "rfind_char c (x # xs) =
     (case rfind_char c xs of Some i \<Rightarrow> Some (Suc i) | None \<Rightarrow> if x = c then Some 0 else None)"

text \<open>\<^verbatim>\<open>s.find_first_of(cs) != npos\<close>.\<close>

definition contains_any :: "'a list \<Rightarrow> 'a list \<Rightarrow> bool" where
  "contains_any cs s \<longleftrightarrow> list_ex (\<lambda>c. c \<in> set cs) s"

lemma contains_any_iff: "contains_any cs s \<longleftrightarrow> set s \<inter> set cs \<noteq> {}"
  by (auto simp: contains_any_def list_ex_iff)

lemma starts_with_Nil [simp]: "starts_with s []"
  by (simp add: starts_with_def)

lemma starts_with_iff: "starts_with s pat \<longleftrightarrow> (\<exists>t. s = pat @ t)"
  by (auto simp: starts_with_def) (metis append_take_drop_id)

lemma starts_with_append_self [simp]: "starts_with (p @ s) p"
  by (simp add: starts_with_def)

lemma starts_with_length: "starts_with s pat \<Longrightarrow> length pat \<le> length s"
  by (auto simp: starts_with_iff)

lemma starts_with_mono: "starts_with s pat \<Longrightarrow> starts_with (s @ t) pat"
  by (auto simp: starts_with_iff)

lemma starts_with_append_short:
  "length pat \<le> length s \<Longrightarrow> starts_with (s @ t) pat = starts_with s pat"
  by (simp add: starts_with_def)

lemma ends_with_iff: "ends_with s pat \<longleftrightarrow> (\<exists>t. s = t @ pat)"
  unfolding ends_with_def
  by (auto intro: exI [of _ "take (length s - length pat) s"]) (metis append_take_drop_id)

lemma find_char_None_iff [simp]: "find_char c s = None \<longleftrightarrow> c \<notin> set s"
  by (induction s) auto

lemma find_char_notin [simp]: "c \<notin> set s \<Longrightarrow> find_char c s = None"
  by simp

lemma find_char_SomeD:
  assumes "find_char c s = Some i"
  shows "i < length s" and "s ! i = c" and "c \<notin> set (take i s)"
    and "s = take i s @ c # drop (Suc i) s"
proof -
  have *: "i < length s \<and> s ! i = c \<and> c \<notin> set (take i s)"
    using assms by (induction s arbitrary: i) (auto split: if_splits)
  then show "i < length s" and "s ! i = c" and "c \<notin> set (take i s)" by auto
  with id_take_nth_drop show "s = take i s @ c # drop (Suc i) s" by fastforce
qed

lemma find_char_append_notin [simp]: "c \<notin> set p \<Longrightarrow> find_char c (p @ c # s) = Some (length p)"
  by (induction p) auto

lemma find_char_eq_Some_iff:
  "find_char c s = Some i \<longleftrightarrow> (\<exists>p t. s = p @ c # t \<and> c \<notin> set p \<and> i = length p)"
  (is "?L = ?R")
proof
  assume ?L
  from find_char_SomeD [OF this] show ?R
    by (intro exI [of _ "take i s"] exI [of _ "drop (Suc i) s"]) auto
qed (auto simp: find_char_append_notin)

lemma str_find_SomeD:
  assumes "str_find pat s = Some i"
  shows "i + length pat \<le> length s" and "s = take i s @ pat @ drop (i + length pat) s"
proof -
  have "i + length pat \<le> length s \<and> take (length pat) (drop i s) = pat"
    using assms
    by (induction s arbitrary: i) (auto simp: starts_with_def dest: arg_cong [where f = length] split: if_splits)
  then have le: "i + length pat \<le> length s" and eq: "take (length pat) (drop i s) = pat"
    by auto
  have "drop i s = pat @ drop (i + length pat) s"
    using append_take_drop_id [of "length pat" "drop i s"] eq by (simp add: add.commute)
  then show "s = take i s @ pat @ drop (i + length pat) s"
    using append_take_drop_id [of i s] by simp
  from le show "i + length pat \<le> length s" .
qed

lemma str_find_append:
  "str_find pat s = Some i \<Longrightarrow> str_find pat (s @ t) = Some i"
proof (induction s arbitrary: i)
  case Nil
  then have "pat = []" and "i = 0" by (auto split: if_splits)
  then show ?case by (cases t) auto
next
  case (Cons x xs)
  show ?case
  proof (cases "starts_with (x # xs) pat")
    case True
    with Cons.prems starts_with_mono [OF True, of t] show ?thesis by simp
  next
    case False
    with Cons.prems obtain j where j: "str_find pat xs = Some j" "i = Suc j" by auto
    then have "length pat \<le> length (x # xs)"
      using str_find_SomeD(1) [OF j(1)] by simp
    from starts_with_append_short [OF this, of t] False have "\<not> starts_with (x # xs @ t) pat"
      by simp
    with j Cons.IH [OF j(1)] show ?thesis by simp
  qed
qed

lemma str_find_None_iff: "str_find pat s = None \<longleftrightarrow> (\<nexists>p t. s = p @ pat @ t)"
proof (induction s)
  case Nil
  then show ?case by auto
next
  case (Cons x xs)
  have "(\<exists>p t. x # xs = p @ pat @ t) \<longleftrightarrow> starts_with (x # xs) pat \<or> (\<exists>p t. xs = p @ pat @ t)"
    (is "?L = ?R")
  proof
    assume ?L
    then obtain p t where eq: "x # xs = p @ pat @ t" by blast
    then show ?R
      by (cases p) (auto simp: starts_with_iff)
  next
    assume ?R
    then show ?L
      unfolding starts_with_iff by (metis append_Cons append_Nil)
  qed
  with Cons show ?case by auto
qed

lemma str_find_le: "str_find pat (p @ pat @ t) = Some i \<Longrightarrow> i \<le> length p"
proof (induction p arbitrary: i)
  case Nil
  with starts_with_append_self [of pat t] show ?case
    by (cases "pat @ t") (auto split: if_splits)
next
  case (Cons x p)
  then show ?case by (auto split: if_splits)
qed

lemma CR_neq_LF [simp]: "CR \<noteq> LF" "LF \<noteq> CR"
  by (simp_all add: CR_def LF_def)

lemma length_CRLF [simp]: "length CRLF = 2"
  by (simp add: CRLF_def)

lemma str_find_CRLF: "CR \<notin> set l \<Longrightarrow> str_find CRLF (l @ CRLF @ t) = Some (length l)"
  by (induction l) (auto simp: CRLF_def starts_with_def)

lemma str_find_CRLF_None: "CR \<notin> set l \<Longrightarrow> str_find CRLF l = None"
  by (induction l) (auto simp: CRLF_def starts_with_def)

section \<open>Splitting\<close>

text \<open>
  \<open>split_on c s\<close> cuts \<open>s\<close> at every \<open>c\<close>; it always has at least one piece.
\<close>

fun split_on :: "'a \<Rightarrow> 'a list \<Rightarrow> 'a list list" where
  "split_on c [] = [[]]"
| "split_on c (x # xs) =
     (if x = c then [] # split_on c xs
      else case split_on c xs of [] \<Rightarrow> [[x]] | f # fs \<Rightarrow> (x # f) # fs)"

lemma split_on_not_Nil [simp]: "split_on c s \<noteq> []"
  by (induction s) (auto split: list.splits)

lemma split_on_notin: "c \<notin> set s \<Longrightarrow> split_on c s = [s]"
  by (induction s) auto

lemma split_on_append: "split_on c (s @ c # t) = split_on c s @ split_on c t"
  by (induction s) (auto split: list.splits)

lemma split_on_no_sep: "f \<in> set (split_on c s) \<Longrightarrow> c \<notin> set f"
  by (induction s arbitrary: f) (auto split: list.splits if_splits)

section \<open>ASCII case folding and optional whitespace\<close>

definition ascii_lower :: "char \<Rightarrow> char" where
  "ascii_lower c =
     (if char_in (CHR ''A'') (CHR ''Z'') c then char_of ((of_char c :: nat) - 65 + 97) else c)"

definition ascii_equal :: "string \<Rightarrow> string \<Rightarrow> bool" where
  "ascii_equal l r \<longleftrightarrow>
     length l = length r \<and> list_all2 (\<lambda>a b. ascii_lower a = ascii_lower b) l r"

lemma ascii_equal_iff: "ascii_equal l r \<longleftrightarrow> map ascii_lower l = map ascii_lower r"
  by (auto simp: ascii_equal_def list_all2_conv_all_nth list_eq_iff_nth_eq)

lemma ascii_equal_refl [simp]: "ascii_equal s s"
  by (simp add: ascii_equal_iff)

definition is_ows :: "char \<Rightarrow> bool" where
  "is_ows c \<longleftrightarrow> c = CHR '' '' \<or> c = HT"

definition trim :: "string \<Rightarrow> string" where
  "trim s = rev (dropWhile is_ows (rev (dropWhile is_ows s)))"

lemma trim_infix: "\<exists>p t. s = p @ trim s @ t \<and> list_all is_ows p \<and> list_all is_ows t"
proof -
  let ?u = "dropWhile is_ows s"
  have "s = takeWhile is_ows s @ ?u" by simp
  moreover have "?u = trim s @ rev (takeWhile is_ows (rev ?u))"
    unfolding trim_def by (metis rev_append rev_rev_ident takeWhile_dropWhile_id)
  ultimately have "s = takeWhile is_ows s @ trim s @ rev (takeWhile is_ows (rev ?u))" by metis
  moreover have "list_all is_ows (takeWhile is_ows s)"
    and "list_all is_ows (rev (takeWhile is_ows (rev ?u)))"
    by (auto simp: list_all_iff dest: set_takeWhileD)
  ultimately show ?thesis by blast
qed

lemma trim_subset: "set (trim s) \<subseteq> set s"
proof -
  from trim_infix [of s] obtain p t where "s = p @ trim s @ t" by blast
  then have "set s = set p \<union> set (trim s) \<union> set t" by (metis set_append Un_assoc)
  then show ?thesis by blast
qed

lemma trim_last: "trim s \<noteq> [] \<Longrightarrow> \<not> is_ows (last (trim s))"
  unfolding trim_def by (metis hd_dropWhile last_rev rev_is_Nil_conv)

section \<open>Decimal numerals\<close>

definition digit_char :: "nat \<Rightarrow> char" where
  "digit_char d = char_of (48 + d)"

definition is_digit :: "char \<Rightarrow> bool" where
  "is_digit c \<longleftrightarrow> char_in (CHR ''0'') (CHR ''9'') c"

definition digit_value :: "char \<Rightarrow> nat" where
  "digit_value c = of_char c - 48"

text \<open>\<^verbatim>\<open>std::to_string\<close> on an unsigned integer.\<close>

fun nat_to_string :: "nat \<Rightarrow> string" where
  "nat_to_string n =
     (if n < 10 then [digit_char n] else nat_to_string (n div 10) @ [digit_char (n mod 10)])"

declare nat_to_string.simps [simp del]

definition digits_value :: "string \<Rightarrow> nat" where
  "digits_value s = foldl (\<lambda>n c. 10 * n + digit_value c) 0 s"

lemma digit_char_props [simp]:
  assumes "d < 10"
  shows "is_digit (digit_char d)" and "digit_value (digit_char d) = d"
  using assms by (auto simp: is_digit_def char_in_def digit_char_def digit_value_def)

lemma digits_value_snoc [simp]: "digits_value (s @ [c]) = 10 * digits_value s + digit_value c"
  by (simp add: digits_value_def)

lemma digits_value_Nil [simp]: "digits_value [] = 0"
  by (simp add: digits_value_def)

lemma digits_fold_ge: "n \<le> foldl (\<lambda>n c. 10 * n + digit_value c) n s"
proof (induction s arbitrary: n)
  case (Cons c s)
  have "n \<le> 10 * n + digit_value c" by simp
  also note Cons.IH
  finally show ?case by simp
qed simp

lemma nat_to_string_props:
  "nat_to_string n \<noteq> [] \<and> list_all is_digit (nat_to_string n) \<and> digits_value (nat_to_string n) = n"
proof (induction n rule: nat_to_string.induct)
  case (1 n)
  consider "n < 10" | "\<not> n < 10" "nat_to_string (n div 10) \<noteq> []"
      "list_all is_digit (nat_to_string (n div 10))" "digits_value (nat_to_string (n div 10)) = n div 10"
    using 1 by blast
  then show ?case
    by cases (subst (1 2 3) nat_to_string.simps, simp add: digits_value_def)+
qed

lemma nat_to_string_not_Nil [simp]: "nat_to_string n \<noteq> []"
  and nat_to_string_digits: "list_all is_digit (nat_to_string n)"
  and digits_value_nat_to_string [simp]: "digits_value (nat_to_string n) = n"
  using nat_to_string_props by auto

text \<open>
  \<^verbatim>\<open>std::from_chars\<close> for an unsigned type of \<open>w\<close> bits, together with
  the test of its callers that the whole text was consumed: at least one digit, only digits, and no
  overflow.
\<close>

definition from_chars_unsigned :: "nat \<Rightarrow> string \<Rightarrow> nat option" where
  "from_chars_unsigned w s =
     (if s \<noteq> [] \<and> list_all is_digit s \<and> digits_value s < 2 ^ w then Some (digits_value s) else None)"

text \<open>The C string of a C++ string: what stands before the first NUL.\<close>

definition c_str :: "string \<Rightarrow> string" where
  "c_str s = takeWhile (\<lambda>c. c \<noteq> NUL) s"

lemma c_str_no_NUL [simp]: "NUL \<notin> set (c_str s)"
  by (auto simp: c_str_def dest: set_takeWhileD)

lemma c_str_id [simp]: "NUL \<notin> set s \<Longrightarrow> c_str s = s"
  by (auto simp: c_str_def takeWhile_eq_all_conv)

section \<open>Buffers and limits of machine integers\<close>

text \<open>A buffer keeps its size whatever the library writes into it.\<close>

definition fit_buffer :: "nat \<Rightarrow> bytes \<Rightarrow> bytes" where
  "fit_buffer n bs = take n (bs @ replicate n 0)"

lemma length_fit_buffer [simp]: "length (fit_buffer n bs) = n"
  by (simp add: fit_buffer_def)

text \<open>The greatest values of \<^verbatim>\<open>std::size_t\<close> and of
  \<^verbatim>\<open>int\<close> on the target.\<close>

definition size_max :: nat where
  "size_max = 2 ^ 64 - 1"

definition int_max :: int where
  "int_max = 2147483647"

end
