(* ===== verification/Apng.thy ===== *)
theory Apng
  imports Prelude
begin

text \<open>
  \<^verbatim>\<open>src/media/apng.cpp\<close>: the chunk scan that recognises an animated PNG and the
  parser of its control chunks. Where the source moves an offset through the body, the loops here take the
  part of the body behind that offset. The checksum \<^verbatim>\<open>crc32\<close> of zlib is a parameter.
\<close>

datatype apng_classification = Not_apng | Apng_palette | Apng_animated

datatype apng_parse_error =
    Apng_signature | Apng_truncated_chunk | Apng_chunk_length | Apng_crc | Apng_ihdr | Apng_animation_control
  | Apng_frame_control_error | Apng_frame_data | Apng_sequence | Apng_frame_rectangle | Apng_delay_denominator
  | Apng_blend_operation | Apng_dispose_operation

record apng_frame_control =
  fc_sequence :: u32
  fc_width :: u32
  fc_height :: u32
  fc_x_offset :: u32
  fc_y_offset :: u32
  fc_delay_numerator :: u16
  fc_delay_denominator :: u16
  fc_dispose :: byte
  fc_blend :: byte

record apng_description =
  canvas_width :: u32
  canvas_height :: u32
  declared_frames :: u32
  loop_count :: u32
  default_image_is_frame :: bool
  apng_frames :: "apng_frame_control list"

definition png_signature :: bytes where
  "png_signature = [0x89, 0x50, 0x4E, 0x47, 0x0D, 0x0A, 0x1A, 0x0A]"

definition maximum_chunk_length :: nat where
  "maximum_chunk_length = 10 * 1024 * 1024"

definition chunk_overhead :: nat where
  "chunk_overhead = 12"

definition read_u32 :: "bytes \<Rightarrow> nat \<Rightarrow> u32" where
  "read_u32 content offset =
     or (or (or (push_bit 24 (ucast (content ! offset))) (push_bit 16 (ucast (content ! (offset + 1)))))
       (push_bit 8 (ucast (content ! (offset + 2))))) (ucast (content ! (offset + 3)))"

definition read_u16 :: "bytes \<Rightarrow> nat \<Rightarrow> u16" where
  "read_u16 content offset = or (push_bit 8 (ucast (content ! offset))) (ucast (content ! (offset + 1)))"

definition tag_at :: "bytes \<Rightarrow> nat \<Rightarrow> string \<Rightarrow> bool" where
  "tag_at content offset t \<longleftrightarrow>
     \<not> (length content < offset \<or> length content - offset < length t)
     \<and> take (length t) (drop offset content) = bytes_of_string t"

definition has_png_signature :: "bytes \<Rightarrow> bool" where
  "has_png_signature content \<longleftrightarrow> length png_signature \<le> length content \<and> take (length png_signature) content = png_signature"

section \<open>Recognition\<close>

function classify_chunks :: "bytes \<Rightarrow> bool \<Rightarrow> bool \<Rightarrow> bool \<Rightarrow> apng_classification" where
  "classify_chunks rest control palette data =
     (if rest = [] then Not_apng
      else if length rest < chunk_overhead then Not_apng
      else
        let size = unat (read_u32 rest 0)
        in if maximum_chunk_length < size \<or> length rest - chunk_overhead < size then Not_apng
           else
             let control' = (control \<or> tag_at rest 4 ''acTL'');
                 palette' = (palette \<or> \<not> tag_at rest 4 ''acTL'' \<and> \<not> data \<and> tag_at rest 4 ''PLTE'');
                 data' = (data \<or> \<not> tag_at rest 4 ''acTL'' \<and> \<not> (\<not> data \<and> tag_at rest 4 ''PLTE'') \<and> tag_at rest 4 ''IDAT'')
             in if tag_at rest 4 ''IEND''
                then (if \<not> control' then Not_apng else if palette' then Apng_palette else Apng_animated)
                else classify_chunks (drop (chunk_overhead + size) rest) control' palette' data')"
  by pat_completeness auto
termination
  by (relation "measure (\<lambda>(rest, _). length rest)") (auto simp: chunk_overhead_def)

declare classify_chunks.simps [simp del]

definition classify_apng :: "bytes \<Rightarrow> apng_classification" where
  "classify_apng content =
     (if length content \<le> 41 \<or> \<not> has_png_signature content then Not_apng
      else classify_chunks (drop (length png_signature) content) False False False)"

section \<open>Parsing\<close>

text \<open>The local variables of \<^verbatim>\<open>parse_apng\<close> beside its result.\<close>

record apng_state = apng_description +
  have_ihdr :: bool
  have_actl :: bool
  frame_has_data :: bool
  saw_idat :: bool
  expected_sequence :: u32

definition initial_apng :: apng_state where
  "initial_apng =
     \<lparr>canvas_width = 0, canvas_height = 0, declared_frames = 0, loop_count = 0, default_image_is_frame = False,
      apng_frames = [], have_ihdr = False, have_actl = False, frame_has_data = False, saw_idat = False,
      expected_sequence = 0\<rparr>"

definition parse_ihdr :: "apng_state \<Rightarrow> bytes \<Rightarrow> apng_parse_error + apng_state" where
  "parse_ihdr st d =
     (if have_ihdr st \<or> length d \<noteq> 13 then Inl Apng_ihdr
      else
        let w = read_u32 d 0; h = read_u32 d 4
        in if w = 0 \<or> h = 0 then Inl Apng_ihdr
           else Inr (st\<lparr>canvas_width := w, canvas_height := h, have_ihdr := True\<rparr>))"

definition parse_actl :: "apng_state \<Rightarrow> bytes \<Rightarrow> apng_parse_error + apng_state" where
  "parse_actl st d =
     (if \<not> have_ihdr st \<or> have_actl st \<or> saw_idat st \<or> length d \<noteq> 8 then Inl Apng_animation_control
      else
        let n = read_u32 d 0; plays = read_u32 d 4
        in if n = 0 then Inl Apng_animation_control
           else Inr (st\<lparr>declared_frames := n, loop_count := plays, have_actl := True\<rparr>))"

definition read_frame_control :: "bytes \<Rightarrow> apng_frame_control" where
  "read_frame_control d =
     \<lparr>fc_sequence = read_u32 d 0, fc_width = read_u32 d 4, fc_height = read_u32 d 8,
      fc_x_offset = read_u32 d 12, fc_y_offset = read_u32 d 16,
      fc_delay_numerator = read_u16 d 20, fc_delay_denominator = read_u16 d 22,
      fc_dispose = d ! 24, fc_blend = d ! 25\<rparr>"

definition parse_fctl :: "apng_state \<Rightarrow> bytes \<Rightarrow> apng_parse_error + apng_state" where
  "parse_fctl st d =
     (if \<not> have_ihdr st \<or> \<not> have_actl st \<or> length d \<noteq> 26 then Inl Apng_frame_control_error
      else if apng_frames st \<noteq> [] \<and> \<not> frame_has_data st then Inl Apng_frame_data
      else
        let st1 = (if apng_frames st = [] then st\<lparr>default_image_is_frame := \<not> saw_idat st\<rparr> else st);
            f = read_frame_control d
        in if fc_sequence f \<noteq> expected_sequence st then Inl Apng_sequence
           else if fc_width f = 0 \<or> fc_height f = 0
             \<or> canvas_width st < fc_x_offset f \<or> canvas_width st - fc_x_offset f < fc_width f
             \<or> canvas_height st < fc_y_offset f \<or> canvas_height st - fc_y_offset f < fc_height f
           then Inl Apng_frame_rectangle
           else if fc_delay_denominator f = 0 then Inl Apng_delay_denominator
           else if 2 < fc_dispose f then Inl Apng_dispose_operation
           else if 1 < fc_blend f then Inl Apng_blend_operation
           else Inr (st1\<lparr>apng_frames := apng_frames st @ [f], frame_has_data := False,
                         expected_sequence := expected_sequence st + 1\<rparr>))"

definition parse_idat :: "apng_state \<Rightarrow> apng_parse_error + apng_state" where
  "parse_idat st =
     (if \<not> have_actl st
         \<or> (apng_frames st \<noteq> [] \<and> (\<not> default_image_is_frame st \<or> length (apng_frames st) \<noteq> 1))
      then Inl Apng_frame_data
      else Inr (st\<lparr>saw_idat := True, frame_has_data := (default_image_is_frame st \<or> frame_has_data st)\<rparr>))"

definition parse_fdat :: "apng_state \<Rightarrow> bytes \<Rightarrow> apng_parse_error + apng_state" where
  "parse_fdat st d =
     (if \<not> saw_idat st \<or> apng_frames st = [] \<or> length d < 4
         \<or> (default_image_is_frame st \<and> length (apng_frames st) = 1)
      then Inl Apng_frame_data
      else if read_u32 d 0 \<noteq> expected_sequence st then Inl Apng_sequence
      else Inr (st\<lparr>frame_has_data := True, expected_sequence := expected_sequence st + 1\<rparr>))"

text \<open>One chunk: its four type bytes and its data.\<close>

definition parse_chunk :: "apng_state \<Rightarrow> bytes \<Rightarrow> bytes \<Rightarrow> apng_parse_error + apng_state" where
  "parse_chunk st ty d =
     (if ty = bytes_of_string ''IHDR'' then parse_ihdr st d
      else if ty = bytes_of_string ''acTL'' then parse_actl st d
      else if ty = bytes_of_string ''fcTL'' then parse_fctl st d
      else if ty = bytes_of_string ''IDAT'' then parse_idat st
      else if ty = bytes_of_string ''fdAT'' then parse_fdat st d
      else Inr st)"

function parse_chunks :: "(bytes \<Rightarrow> u32) \<Rightarrow> apng_state \<Rightarrow> bytes \<Rightarrow> apng_parse_error + apng_state" where
  "parse_chunks crc st rest =
     (if rest = [] then Inr st
      else if length rest < 4 then Inl Apng_truncated_chunk
      else
        let size = unat (read_u32 rest 0)
        in if maximum_chunk_length < size then Inl Apng_chunk_length
           else if length rest < chunk_overhead then Inl Apng_truncated_chunk
           else if length rest - chunk_overhead < size then Inl Apng_truncated_chunk
           else if crc (take (size + 4) (drop 4 rest)) \<noteq> read_u32 rest (8 + size) then Inl Apng_crc
           else case parse_chunk st (take 4 (drop 4 rest)) (take size (drop 8 rest)) of
                  Inl e \<Rightarrow> Inl e
                | Inr st' \<Rightarrow> parse_chunks crc st' (drop (8 + size + 4) rest))"
  by pat_completeness auto
termination
  by (relation "measure (\<lambda>(crc, st, rest). length rest)") (auto simp: chunk_overhead_def)

declare parse_chunks.simps [simp del]

definition parse_apng :: "(bytes \<Rightarrow> u32) \<Rightarrow> bytes \<Rightarrow> apng_parse_error + apng_description" where
  "parse_apng crc content =
     (if \<not> has_png_signature content then Inl Apng_signature
      else case parse_chunks crc initial_apng (drop (length png_signature) content) of
             Inl e \<Rightarrow> Inl e
           | Inr st \<Rightarrow>
               if \<not> have_ihdr st \<or> \<not> have_actl st \<or> \<not> frame_has_data st
                  \<or> length (apng_frames st) \<noteq> unat (declared_frames st)
               then Inl Apng_animation_control
               else Inr (apng_description.truncate st))"

section \<open>Well-formed descriptions\<close>

definition wf_frame :: "u32 \<Rightarrow> u32 \<Rightarrow> apng_frame_control \<Rightarrow> bool" where
  "wf_frame W H f \<longleftrightarrow>
     0 < fc_width f \<and> unat (fc_x_offset f) + unat (fc_width f) \<le> unat W
     \<and> 0 < fc_height f \<and> unat (fc_y_offset f) + unat (fc_height f) \<le> unat H
     \<and> fc_delay_denominator f \<noteq> 0 \<and> fc_dispose f \<le> 2 \<and> fc_blend f \<le> 1"

definition apng_inv :: "apng_state \<Rightarrow> bool" where
  "apng_inv st \<longleftrightarrow>
     (have_ihdr st \<longrightarrow> 0 < canvas_width st \<and> 0 < canvas_height st)
     \<and> (have_actl st \<longrightarrow> have_ihdr st) \<and> (apng_frames st \<noteq> [] \<longrightarrow> have_actl st)
     \<and> list_all (wf_frame (canvas_width st) (canvas_height st)) (apng_frames st)
     \<and> (saw_idat st \<longrightarrow> have_actl st) \<and> (apng_frames st = [] \<longrightarrow> \<not> default_image_is_frame st \<and> \<not> frame_has_data st)"

lemma rectangle_inside:
  fixes W x w :: u32
  assumes "x \<le> W" and "w \<le> W - x"
  shows "unat x + unat w \<le> unat W"
  using assms by (simp add: word_le_nat_alt unat_sub_if')

lemma parse_ihdr_inv: "parse_ihdr st d = Inr st' \<Longrightarrow> apng_inv st \<Longrightarrow> apng_inv st'"
  by (auto simp: parse_ihdr_def apng_inv_def Let_def word_gt_0 split: if_splits)

lemma parse_actl_inv: "parse_actl st d = Inr st' \<Longrightarrow> apng_inv st \<Longrightarrow> apng_inv st'"
  by (auto simp: parse_actl_def apng_inv_def Let_def wf_frame_def split: if_splits)

lemma parse_fctl_inv: "parse_fctl st d = Inr st' \<Longrightarrow> apng_inv st \<Longrightarrow> apng_inv st'"
  by (auto simp: parse_fctl_def apng_inv_def Let_def wf_frame_def word_gt_0 not_less
      intro: rectangle_inside split: if_splits)

lemma parse_idat_inv: "parse_idat st = Inr st' \<Longrightarrow> apng_inv st \<Longrightarrow> apng_inv st'"
  by (auto simp: parse_idat_def apng_inv_def wf_frame_def split: if_splits)

lemma parse_fdat_inv: "parse_fdat st d = Inr st' \<Longrightarrow> apng_inv st \<Longrightarrow> apng_inv st'"
  by (auto simp: parse_fdat_def apng_inv_def wf_frame_def split: if_splits)

lemma parse_chunk_inv: "parse_chunk st ty d = Inr st' \<Longrightarrow> apng_inv st \<Longrightarrow> apng_inv st'"
  unfolding parse_chunk_def
  by (auto split: if_splits intro: parse_ihdr_inv parse_actl_inv parse_fctl_inv parse_idat_inv parse_fdat_inv)

lemma parse_chunks_inv: "parse_chunks crc st rest = Inr st' \<Longrightarrow> apng_inv st \<Longrightarrow> apng_inv st'"
proof (induction crc st rest rule: parse_chunks.induct)
  case (1 crc st rest)
  then show ?case
    by (auto simp: parse_chunks.simps [of crc st rest] Let_def split: if_splits sum.splits intro: parse_chunk_inv)
qed

lemma initial_apng_inv: "apng_inv initial_apng"
  by (simp add: initial_apng_def apng_inv_def)

definition wf_description :: "apng_description \<Rightarrow> bool" where
  "wf_description desc \<longleftrightarrow>
     0 < canvas_width desc \<and> 0 < canvas_height desc
     \<and> 0 < length (apng_frames desc) \<and> length (apng_frames desc) = unat (declared_frames desc)
     \<and> list_all (wf_frame (canvas_width desc) (canvas_height desc)) (apng_frames desc)"

section \<open>Serialisation\<close>

definition be32 :: "u32 \<Rightarrow> bytes" where
  "be32 x = [ucast (drop_bit 24 x), ucast (drop_bit 16 x), ucast (drop_bit 8 x), ucast x]"

definition be16 :: "u16 \<Rightarrow> bytes" where
  "be16 x = [ucast (drop_bit 8 x), ucast x]"

definition chunk :: "(bytes \<Rightarrow> u32) \<Rightarrow> string \<Rightarrow> bytes \<Rightarrow> bytes" where
  "chunk crc t d = be32 (of_nat (length d)) @ bytes_of_string t @ d @ be32 (crc (bytes_of_string t @ d))"

lemma length_be [simp]: "length (be32 x) = 4" "length (be16 y) = 2"
  by (simp_all add: be32_def be16_def)

lemma join32:
  "or (or (or (push_bit 24 (ucast (ucast (drop_bit 24 x) :: byte))) (push_bit 16 (ucast (ucast (drop_bit 16 x) :: byte))))
     (push_bit 8 (ucast (ucast (drop_bit 8 x) :: byte)))) (ucast (ucast x :: byte)) = (x :: u32)" (is "?l = x")
proof (rule bit_word_eqI)
  fix n assume "n < LENGTH(32)"
  then consider "n < 8" | "8 \<le> n" "n < 16" | "16 \<le> n" "n < 24" | "24 \<le> n" "n < 32" by fastforce
  then show "bit ?l n \<longleftrightarrow> bit x n" by cases (auto simp: bit_simps)
qed

lemma join16: "or (push_bit 8 (ucast (ucast (drop_bit 8 x) :: byte))) (ucast (ucast x :: byte)) = (x :: u16)" (is "?l = x")
proof (rule bit_word_eqI)
  fix n assume "n < LENGTH(16)"
  then consider "n < 8" | "8 \<le> n" "n < 16" by fastforce
  then show "bit ?l n \<longleftrightarrow> bit x n" by cases (auto simp: bit_simps)
qed

lemma read_be32: "read_u32 (be32 x @ rest) 0 = x"
  by (simp add: read_u32_def be32_def join32)

lemma read_be32_at: "length p = n \<Longrightarrow> read_u32 (p @ be32 x @ rest) n = x"
  by (auto simp: read_u32_def be32_def nth_append join32)

definition encode_control :: "apng_frame_control \<Rightarrow> bytes" where
  "encode_control f =
     be32 (fc_sequence f) @ be32 (fc_width f) @ be32 (fc_height f) @ be32 (fc_x_offset f) @ be32 (fc_y_offset f)
     @ be16 (fc_delay_numerator f) @ be16 (fc_delay_denominator f) @ [fc_dispose f, fc_blend f]"

fun encode_fdat :: "(bytes \<Rightarrow> u32) \<Rightarrow> u32 \<Rightarrow> bytes list \<Rightarrow> bytes" where
  "encode_fdat crc n [] = []"
| "encode_fdat crc n (d # ds) = chunk crc ''fdAT'' (be32 n @ d) @ encode_fdat crc (n + 1) ds"

fun encode_frames :: "(bytes \<Rightarrow> u32) \<Rightarrow> u32 \<Rightarrow> (apng_frame_control \<times> bytes list) list \<Rightarrow> bytes" where
  "encode_frames crc n [] = []"
| "encode_frames crc n ((f, ds) # fs) =
     chunk crc ''fcTL'' (encode_control f) @ encode_fdat crc (n + 1) ds
     @ encode_frames crc (n + 1 + of_nat (length ds)) fs"

text \<open>Ancillary chunks, of types that the animation itself does not use.\<close>

definition encode_shared :: "(bytes \<Rightarrow> u32) \<Rightarrow> (string \<times> bytes) list \<Rightarrow> bytes" where
  "encode_shared crc shared = concat (map (\<lambda>(t, d). chunk crc t d) shared)"

definition shared_chunk :: "string \<times> bytes \<Rightarrow> bool" where
  "shared_chunk c \<longleftrightarrow> length (fst c) = 4 \<and> length (snd c) \<le> maximum_chunk_length
     \<and> bytes_of_string (fst c) \<notin> {bytes_of_string ''IHDR'', bytes_of_string ''acTL'', bytes_of_string ''fcTL'',
         bytes_of_string ''IDAT'', bytes_of_string ''fdAT''}"

text \<open>An animation with the pieces of the data of its default image and of the frames behind it. The
  default image is the first frame, with a frame control in front of it, or it is no frame at all. The
  ancillary chunks stand in front of the image data.\<close>

definition encode_apng ::
    "(bytes \<Rightarrow> u32) \<Rightarrow> apng_description \<Rightarrow> bytes \<Rightarrow> (string \<times> bytes) list \<Rightarrow> bytes list \<Rightarrow> bytes list list \<Rightarrow> bytes" where
  "encode_apng crc desc tail shared first others =
     png_signature @ chunk crc ''IHDR'' (be32 (canvas_width desc) @ be32 (canvas_height desc) @ tail)
     @ chunk crc ''acTL'' (be32 (declared_frames desc) @ be32 (loop_count desc))
     @ (if default_image_is_frame desc then chunk crc ''fcTL'' (encode_control (hd (apng_frames desc))) else [])
     @ encode_shared crc shared
     @ concat (map (chunk crc ''IDAT'') first)
     @ (if default_image_is_frame desc then encode_frames crc 1 (zip (tl (apng_frames desc)) others)
        else encode_frames crc 0 (zip (apng_frames desc) others))
     @ chunk crc ''IEND'' []"

fun numbered :: "u32 \<Rightarrow> (apng_frame_control \<times> bytes list) list \<Rightarrow> bool" where
  "numbered n [] = True"
| "numbered n ((f, ds) # fs) \<longleftrightarrow> fc_sequence f = n \<and> numbered (n + 1 + of_nat (length ds)) fs"

definition small_pieces :: "bytes list \<Rightarrow> bool" where
  "small_pieces ds \<longleftrightarrow> ds \<noteq> [] \<and> list_all (\<lambda>d. length d + 4 \<le> maximum_chunk_length) ds"

text \<open>The parts of an animation fit together: the sequence numbers are consecutive, every frame has
  data, in chunks of accepted sizes, and the five bytes behind the size of the canvas are there.\<close>

definition apng_parts ::
    "apng_description \<Rightarrow> bytes \<Rightarrow> (string \<times> bytes) list \<Rightarrow> bytes list \<Rightarrow> bytes list list \<Rightarrow> bool" where
  "apng_parts desc tail shared first others \<longleftrightarrow>
     wf_description desc \<and> length tail = 5 \<and> list_all shared_chunk shared \<and> small_pieces first \<and> list_all small_pieces others
     \<and> (if default_image_is_frame desc
        then fc_sequence (hd (apng_frames desc)) = 0 \<and> numbered 1 (zip (tl (apng_frames desc)) others)
          \<and> length others + 1 = length (apng_frames desc)
        else numbered 0 (zip (apng_frames desc) others) \<and> length others = length (apng_frames desc))"

lemma read_encode_control [simp]: "read_frame_control (encode_control f) = f" "length (encode_control f) = 26"
  by (simp_all add: read_frame_control_def encode_control_def read_u32_def read_u16_def be32_def be16_def join32 join16)

lemma parse_chunks_chunk:
  assumes "length d \<le> maximum_chunk_length" and "length t = 4"
  shows "parse_chunks crc st (chunk crc t d @ rest) =
    (case parse_chunk st (bytes_of_string t) d of Inl e \<Rightarrow> Inl e | Inr st' \<Rightarrow> parse_chunks crc st' rest)"
proof -
  let ?c = "chunk crc t d @ rest"
  have split: "?c = be32 (of_nat (length d)) @ bytes_of_string t @ d @ be32 (crc (bytes_of_string t @ d)) @ rest"
    by (simp add: chunk_def)
  have size: "unat (read_u32 ?c 0) = length d"
    unfolding split read_be32 using assms(1)
    by (simp add: maximum_chunk_length_def unsigned_of_nat take_bit_nat_eq_self)
  have sum: "read_u32 ?c (8 + length d) = crc (bytes_of_string t @ d)"
    using read_be32_at [of "be32 (of_nat (length d)) @ bytes_of_string t @ d" "8 + length d"] assms(2)
    by (simp add: split)
  have parts: "take (length d + 4) (drop 4 ?c) = bytes_of_string t @ d" "take 4 (drop 4 ?c) = bytes_of_string t"
    "take (length d) (drop 8 ?c) = d" "drop (8 + length d + 4) ?c = rest"
    unfolding split using assms(2) by simp_all
  have len: "\<not> length ?c < 4" "\<not> length ?c < chunk_overhead" "\<not> length ?c - chunk_overhead < length d" "?c \<noteq> []"
    using assms(2) by (auto simp: chunk_def chunk_overhead_def be32_def)
  show ?thesis
    unfolding parse_chunks.simps [of crc st ?c] Let_def size sum parts
    using len assms(1) by (simp only: if_False not_less [symmetric] simp_thms refl)
qed

lemma tags_distinct [simp]:
  "bytes_of_string ''acTL'' \<noteq> bytes_of_string ''IHDR''"
  "bytes_of_string ''fcTL'' \<noteq> bytes_of_string ''IHDR''" "bytes_of_string ''fcTL'' \<noteq> bytes_of_string ''acTL''"
  "bytes_of_string ''IDAT'' \<noteq> bytes_of_string ''IHDR''" "bytes_of_string ''IDAT'' \<noteq> bytes_of_string ''acTL''"
  "bytes_of_string ''IDAT'' \<noteq> bytes_of_string ''fcTL''" "bytes_of_string ''fdAT'' \<noteq> bytes_of_string ''IHDR''"
  "bytes_of_string ''fdAT'' \<noteq> bytes_of_string ''acTL''" "bytes_of_string ''fdAT'' \<noteq> bytes_of_string ''fcTL''"
  "bytes_of_string ''fdAT'' \<noteq> bytes_of_string ''IDAT''"
  "bytes_of_string ''IEND'' \<notin> {bytes_of_string ''IHDR'', bytes_of_string ''acTL'', bytes_of_string ''fcTL'',
     bytes_of_string ''IDAT'', bytes_of_string ''fdAT''}"
  by (simp_all add: bytes_of_string_def)

lemma parse_fctl_accepts:
  assumes "have_ihdr st" and "have_actl st" and "apng_frames st \<noteq> [] \<longrightarrow> frame_has_data st"
    and "fc_sequence f = expected_sequence st" and "wf_frame (canvas_width st) (canvas_height st) f"
  shows "parse_fctl st (encode_control f) =
    Inr ((if apng_frames st = [] then st\<lparr>default_image_is_frame := \<not> saw_idat st\<rparr> else st)
      \<lparr>apng_frames := apng_frames st @ [f], frame_has_data := False, expected_sequence := expected_sequence st + 1\<rparr>)"
proof -
  have inside: "\<not> W < x \<and> \<not> W - x < w" if "unat x + unat w \<le> unat W" for W x w :: u32
    using that by (auto simp: word_less_nat_alt unat_sub_if')
  from assms inside show ?thesis
    by (auto simp: parse_fctl_def Let_def wf_frame_def)
qed

lemma fdat_run:
  assumes "saw_idat st" and "apng_frames st \<noteq> []" and "\<not> (default_image_is_frame st \<and> length (apng_frames st) = 1)"
    and "list_all (\<lambda>d. length d + 4 \<le> maximum_chunk_length) ds"
  shows "parse_chunks crc st (encode_fdat crc (expected_sequence st) ds @ rest) =
    parse_chunks crc (st\<lparr>frame_has_data := (frame_has_data st \<or> ds \<noteq> []),
      expected_sequence := expected_sequence st + of_nat (length ds)\<rparr>) rest"
  using assms
proof (induction ds arbitrary: st)
  case Nil
  then show ?case by simp
next
  case (Cons d ds)
  let ?st = "st\<lparr>frame_has_data := True, expected_sequence := expected_sequence st + 1\<rparr>"
  have "parse_chunk st (bytes_of_string ''fdAT'') (be32 (expected_sequence st) @ d) = Inr ?st"
    using Cons.prems by (simp add: parse_chunk_def parse_fdat_def read_be32)
  moreover have "parse_chunks crc ?st (encode_fdat crc (expected_sequence ?st) ds @ rest) =
      parse_chunks crc (?st\<lparr>frame_has_data := (frame_has_data ?st \<or> ds \<noteq> []),
        expected_sequence := expected_sequence ?st + of_nat (length ds)\<rparr>) rest"
    by (rule Cons.IH) (use Cons.prems in simp_all)
  ultimately show ?case
    using Cons.prems by (simp add: parse_chunks_chunk ac_simps)
qed

lemma frames_run:
  assumes "have_ihdr st" and "have_actl st" and "saw_idat st"
    and "if apng_frames st = [] then \<not> default_image_is_frame st else frame_has_data st"
    and "numbered (expected_sequence st) fs"
    and "list_all (\<lambda>(f, ds). wf_frame (canvas_width st) (canvas_height st) f \<and> small_pieces ds) fs"
  shows "\<exists>n. parse_chunks crc st (encode_frames crc (expected_sequence st) fs @ rest) =
    parse_chunks crc (st\<lparr>apng_frames := apng_frames st @ map fst fs, frame_has_data := (frame_has_data st \<or> fs \<noteq> []),
      expected_sequence := n\<rparr>) rest"
  using assms
proof (induction fs arbitrary: st)
  case Nil
  have "st\<lparr>apng_frames := apng_frames st, frame_has_data := frame_has_data st, expected_sequence := expected_sequence st\<rparr> = st" by simp
  then show ?case by (auto intro: exI [of _ "expected_sequence st"])
next
  case (Cons p fs)
  obtain f ds where p: "p = (f, ds)" by (cases p)
  let ?st1 = "st\<lparr>apng_frames := apng_frames st @ [f], frame_has_data := False, expected_sequence := expected_sequence st + 1\<rparr>"
  let ?st2 = "?st1\<lparr>frame_has_data := True, expected_sequence := expected_sequence st + 1 + of_nat (length ds)\<rparr>"
  from Cons.prems p have f: "fc_sequence f = expected_sequence st" "wf_frame (canvas_width st) (canvas_height st) f"
    "ds \<noteq> []" "list_all (\<lambda>d. length d + 4 \<le> maximum_chunk_length) ds"
    by (auto simp: small_pieces_def)
  have "(if apng_frames st = [] then st\<lparr>default_image_is_frame := \<not> saw_idat st\<rparr> else st) = st"
    using Cons.prems(3,4) by (auto intro!: apng_state.equality)
  then have "parse_chunk st (bytes_of_string ''fcTL'') (encode_control f) = Inr ?st1"
    using parse_fctl_accepts [of st f] Cons.prems(1,2,4) f by (simp add: parse_chunk_def split: if_splits)
  then have "parse_chunks crc st (encode_frames crc (expected_sequence st) (p # fs) @ rest) =
      parse_chunks crc ?st1 (encode_fdat crc (expected_sequence ?st1) ds
        @ encode_frames crc (expected_sequence ?st2) fs @ rest)"
    by (simp add: p parse_chunks_chunk maximum_chunk_length_def)
  also have "\<dots> = parse_chunks crc ?st2 (encode_frames crc (expected_sequence ?st2) fs @ rest)"
    by (subst fdat_run) (use Cons.prems f in \<open>auto simp: Suc_leI split: if_splits\<close>)
  finally have run: "parse_chunks crc st (encode_frames crc (expected_sequence st) (p # fs) @ rest) =
      parse_chunks crc ?st2 (encode_frames crc (expected_sequence ?st2) fs @ rest)" .
  have "\<exists>n. parse_chunks crc ?st2 (encode_frames crc (expected_sequence ?st2) fs @ rest) =
      parse_chunks crc (?st2\<lparr>apng_frames := apng_frames ?st2 @ map fst fs, frame_has_data := (frame_has_data ?st2 \<or> fs \<noteq> []),
        expected_sequence := n\<rparr>) rest"
    by (rule Cons.IH) (use Cons.prems p in simp_all)
  then obtain n where "parse_chunks crc ?st2 (encode_frames crc (expected_sequence ?st2) fs @ rest) =
      parse_chunks crc (?st2\<lparr>apng_frames := apng_frames ?st2 @ map fst fs, frame_has_data := (frame_has_data ?st2 \<or> fs \<noteq> []),
        expected_sequence := n\<rparr>) rest" ..
  then show ?case using run p by (intro exI [of _ n]) simp
qed

lemma idat_run:
  assumes "have_actl st" and "apng_frames st \<noteq> [] \<longrightarrow> default_image_is_frame st \<and> length (apng_frames st) = 1"
    and "list_all (\<lambda>d. length d + 4 \<le> maximum_chunk_length) ds"
  shows "parse_chunks crc st (concat (map (chunk crc ''IDAT'') ds) @ rest) =
    parse_chunks crc (st\<lparr>saw_idat := (saw_idat st \<or> ds \<noteq> []),
      frame_has_data := (frame_has_data st \<or> default_image_is_frame st \<and> ds \<noteq> [])\<rparr>) rest"
  using assms
proof (induction ds arbitrary: st)
  case Nil
  then show ?case by simp
next
  case (Cons d ds)
  let ?st = "st\<lparr>saw_idat := True, frame_has_data := (default_image_is_frame st \<or> frame_has_data st)\<rparr>"
  have "parse_chunk st (bytes_of_string ''IDAT'') d = Inr ?st"
    using Cons.prems by (auto simp: parse_chunk_def parse_idat_def)
  moreover have "parse_chunks crc ?st (concat (map (chunk crc ''IDAT'') ds) @ rest) =
      parse_chunks crc (?st\<lparr>saw_idat := (saw_idat ?st \<or> ds \<noteq> []),
        frame_has_data := (frame_has_data ?st \<or> default_image_is_frame ?st \<and> ds \<noteq> [])\<rparr>) rest"
    by (rule Cons.IH) (use Cons.prems in simp_all)
  moreover have "(default_image_is_frame st \<or> frame_has_data st \<or> default_image_is_frame st \<and> ds \<noteq> [])
      \<longleftrightarrow> frame_has_data st \<or> default_image_is_frame st" by blast
  ultimately show ?case using Cons.prems by (simp add: parse_chunks_chunk)
qed

lemma shared_run:
  "list_all shared_chunk shared \<Longrightarrow> parse_chunks crc st (encode_shared crc shared @ rest) = parse_chunks crc st rest"
proof (induction shared)
  case (Cons c shared)
  obtain t d where c: "c = (t, d)" by (cases c)
  with Cons.prems have "parse_chunk st (bytes_of_string t) d = Inr st" "length t = 4" "length d \<le> maximum_chunk_length"
    by (simp_all add: shared_chunk_def parse_chunk_def)
  with Cons c show ?case by (simp add: encode_shared_def parse_chunks_chunk)
qed (simp add: encode_shared_def)

lemma end_run: "parse_chunks crc st (chunk crc ''IEND'' []) = Inr st"
  using parse_chunks_chunk [of "[]" "''IEND''" crc st "[]"]
  by (simp add: maximum_chunk_length_def parse_chunk_def parse_chunks.simps [of _ _ "[]"]) (simp add: bytes_of_string_def)

text \<open>The parser behind the control chunks in front of the image data.\<close>

lemma header_run:
  assumes "wf_description desc" and "length tail = 5"
  shows "parse_chunks crc initial_apng (chunk crc ''IHDR'' (be32 (canvas_width desc) @ be32 (canvas_height desc) @ tail)
      @ chunk crc ''acTL'' (be32 (declared_frames desc) @ be32 (loop_count desc)) @ rest) =
    parse_chunks crc (initial_apng\<lparr>canvas_width := canvas_width desc, canvas_height := canvas_height desc, have_ihdr := True,
      declared_frames := declared_frames desc, loop_count := loop_count desc, have_actl := True\<rparr>) rest"
proof -
  let ?st1 = "initial_apng\<lparr>canvas_width := canvas_width desc, canvas_height := canvas_height desc, have_ihdr := True\<rparr>"
  from assms(1) have wf: "0 < canvas_width desc" "0 < canvas_height desc" "declared_frames desc \<noteq> 0"
    by (auto simp: wf_description_def)
  have "parse_chunk initial_apng (bytes_of_string ''IHDR'') (be32 (canvas_width desc) @ be32 (canvas_height desc) @ tail) = Inr ?st1"
    using assms(2) wf(1,2) read_be32_at [of "be32 (canvas_width desc)" 4]
    by (auto simp add: parse_chunk_def parse_ihdr_def initial_apng_def Let_def read_be32)
  moreover have "parse_chunk ?st1 (bytes_of_string ''acTL'') (be32 (declared_frames desc) @ be32 (loop_count desc)) =
      Inr (?st1\<lparr>declared_frames := declared_frames desc, loop_count := loop_count desc, have_actl := True\<rparr>)"
    using wf(3) read_be32_at [of "be32 (declared_frames desc)" 4 _ "[]"]
    by (simp add: parse_chunk_def parse_actl_def initial_apng_def Let_def read_be32)
  ultimately show ?thesis
    using assms(2) by (simp add: parse_chunks_chunk maximum_chunk_length_def)
qed

lemma encode_apng_run:
  assumes "apng_parts desc tail shared first others"
  shows "\<exists>st. parse_chunks crc initial_apng (drop (length png_signature) (encode_apng crc desc tail shared first others)) = Inr st
    \<and> have_ihdr st \<and> have_actl st \<and> frame_has_data st \<and> apng_description.truncate st = desc"
proof -
  obtain f fs where frames: "apng_frames desc = f # fs"
    using assms by (cases "apng_frames desc") (auto simp: apng_parts_def wf_description_def)
  from assms frames have wf: "wf_description desc" "length tail = 5"
      "wf_frame (canvas_width desc) (canvas_height desc) f" "list_all (wf_frame (canvas_width desc) (canvas_height desc)) fs"
    and pieces: "list_all shared_chunk shared" "first \<noteq> []" "list_all (\<lambda>d. length d + 4 \<le> maximum_chunk_length) first"
      "list_all small_pieces others"
    by (auto simp: apng_parts_def wf_description_def small_pieces_def)
  let ?st2 = "initial_apng\<lparr>canvas_width := canvas_width desc, canvas_height := canvas_height desc, have_ihdr := True,
      declared_frames := declared_frames desc, loop_count := loop_count desc, have_actl := True\<rparr>"
  have done_run: "\<exists>st'. parse_chunks crc st (encode_frames crc (expected_sequence st) z @ chunk crc ''IEND'' []) = Inr st'
      \<and> have_ihdr st' \<and> have_actl st' \<and> frame_has_data st' \<and> apng_description.truncate st' = desc"
    if "have_ihdr st" "have_actl st" "saw_idat st"
      "if apng_frames st = [] then \<not> default_image_is_frame st else frame_has_data st" "numbered (expected_sequence st) z"
      "list_all (\<lambda>(f, ds). wf_frame (canvas_width st) (canvas_height st) f \<and> small_pieces ds) z"
      "apng_description.truncate (st\<lparr>apng_frames := apng_frames st @ map fst z\<rparr>) = desc" for st z
    using frames_run [OF that(1-6), of crc "chunk crc ''IEND'' []"] end_run that(1,2,4,7) frames
    by (auto simp: apng_description.truncate_def split: if_splits)
  have z: "list_all (\<lambda>(f, ds). wf_frame (canvas_width desc) (canvas_height desc) f \<and> small_pieces ds) (zip gs others)"
    if "list_all (wf_frame (canvas_width desc) (canvas_height desc)) gs" for gs
    using that pieces(4) by (auto simp: list_all_iff dest: set_zip_leftD set_zip_rightD)
  show ?thesis
  proof (cases "default_image_is_frame desc")
    case True
    let ?st3 = "?st2\<lparr>default_image_is_frame := True, apng_frames := [f], frame_has_data := False, expected_sequence := 1\<rparr>"
    let ?st4 = "?st3\<lparr>saw_idat := True, frame_has_data := True\<rparr>"
    from assms True frames have seq: "fc_sequence f = 0" "numbered 1 (zip fs others)" "length others = length fs"
      by (simp_all add: apng_parts_def)
    have "parse_chunk ?st2 (bytes_of_string ''fcTL'') (encode_control f) = Inr ?st3"
      using parse_fctl_accepts [of ?st2 f] wf(3) seq(1) by (simp add: parse_chunk_def initial_apng_def)
    then have "parse_chunks crc initial_apng (drop (length png_signature) (encode_apng crc desc tail shared first others)) =
        parse_chunks crc ?st4 (encode_frames crc (expected_sequence ?st4) (zip fs others) @ chunk crc ''IEND'' [])"
      using True pieces frames by (simp add: encode_apng_def header_run [OF wf(1,2)] parse_chunks_chunk maximum_chunk_length_def
          shared_run idat_run)
    with done_run [of ?st4 "zip fs others"] seq z [OF wf(4)] True frames show ?thesis
      by (simp add: apng_description.truncate_def)
  next
    case False
    let ?st4 = "?st2\<lparr>saw_idat := True\<rparr>"
    from assms False frames have seq: "numbered 0 (zip (f # fs) others)" "length others = length (f # fs)"
      by (simp_all add: apng_parts_def)
    have data: "parse_chunks crc ?st2 (concat (map (chunk crc ''IDAT'') first) @ rest) = parse_chunks crc ?st4 rest" for rest
      using idat_run [of ?st2 first crc rest] pieces(2,3) by (simp add: initial_apng_def)
    have start: "expected_sequence ?st4 = 0" by (simp add: initial_apng_def)
    have "parse_chunks crc initial_apng (drop (length png_signature) (encode_apng crc desc tail shared first others)) =
        parse_chunks crc ?st4 (encode_frames crc (expected_sequence ?st4) (zip (f # fs) others) @ chunk crc ''IEND'' [])"
      unfolding start using False pieces(1) frames
      by (simp add: encode_apng_def header_run [OF wf(1,2)] shared_run data)
    with done_run [of ?st4 "zip (f # fs) others"] seq z [of "f # fs"] wf(3,4) False frames show ?thesis
      by (simp add: apng_description.truncate_def initial_apng_def)
  qed
qed

section \<open>Parsed descriptions\<close>

text \<open>A parsed animation is well formed.\<close>

lemma parse_apng_wf:
  assumes "parse_apng crc content = Inr desc"
  shows "wf_description desc"
proof -
  from assms obtain st where run: "parse_chunks crc initial_apng (drop (length png_signature) content) = Inr st"
    and ok: "have_ihdr st" "frame_has_data st" "length (apng_frames st) = unat (declared_frames st)"
      "desc = apng_description.truncate st"
    by (auto simp: parse_apng_def split: if_splits sum.splits)
  from parse_chunks_inv [OF run initial_apng_inv] ok(1,2,4) show ?thesis
    by (auto simp: apng_inv_def wf_description_def apng_description.truncate_def ok(3) [symmetric])
qed

text \<open>Parsing inverts serialisation.\<close>

lemma encode_apng_parses:
  assumes "apng_parts desc tail shared first others"
  shows "parse_apng crc (encode_apng crc desc tail shared first others) = Inr desc"
proof -
  obtain st where run: "parse_chunks crc initial_apng (drop (length png_signature) (encode_apng crc desc tail shared first others)) = Inr st"
    and st: "have_ihdr st" "have_actl st" "frame_has_data st" "apng_description.truncate st = desc"
    using encode_apng_run [OF assms, of crc] by blast
  then have "apng_frames st = apng_frames desc" "declared_frames st = declared_frames desc"
    by (auto simp: apng_description.truncate_def)
  with run st assms show ?thesis
    by (simp add: parse_apng_def has_png_signature_def encode_apng_def apng_parts_def wf_description_def)
qed

text \<open>An animation of two frames on a canvas of two by one pixels, with a constant checksum.\<close>

definition sample_frame :: "u32 \<Rightarrow> u32 \<Rightarrow> apng_frame_control" where
  "sample_frame n x =
     \<lparr>fc_sequence = n, fc_width = 1, fc_height = 1, fc_x_offset = x, fc_y_offset = 0, fc_delay_numerator = 1,
      fc_delay_denominator = 10, fc_dispose = 0, fc_blend = 1\<rparr>"

definition sample_animation :: apng_description where
  "sample_animation =
     \<lparr>canvas_width = 2, canvas_height = 1, declared_frames = 2, loop_count = 0, default_image_is_frame = True,
      apng_frames = [sample_frame 0 0, sample_frame 1 1]\<rparr>"

lemma sample_animation_wf: "wf_description sample_animation"
  by (simp add: wf_description_def sample_animation_def sample_frame_def wf_frame_def)

end
