(* ===== verification/Apng_Compositor.thy ===== *)
theory Apng_Compositor
  imports Apng
begin

text \<open>
  \<^verbatim>\<open>src/media/apng_compositor.cpp\<close>: drawing one frame on the straight-alpha canvas,
  the disposal that prepares the canvas for the next one, and the duration of a frame. A canvas is the list
  of its bytes, four to a pixel, row by row.
\<close>

datatype composition_error =
  Comp_canvas_size | Comp_frame_size | Comp_frame_rectangle | Comp_blend_operation | Comp_dispose_operation

definition rgba_size :: "u32 \<Rightarrow> u32 \<Rightarrow> nat option" where
  "rgba_size width height =
     (if width = 0 \<or> height = 0 \<or> size_max div unat height < unat width then None
      else
        let pixels = unat width * unat height
        in if size_max div 4 < pixels then None else Some (pixels * 4))"

text \<open>The offsets stay below the canvas size, which fits \<^verbatim>\<open>std::size_t\<close>; the
  sum of the row numbers is a 32-bit sum.\<close>

definition pixel_offset :: "u32 \<Rightarrow> u32 \<Rightarrow> u32 \<Rightarrow> nat" where
  "pixel_offset x y width = (unat y * unat width + unat x) * 4"

text \<open>Copying a list over the part of a vector at an offset.\<close>

definition overwrite :: "'a list \<Rightarrow> nat \<Rightarrow> 'a list \<Rightarrow> 'a list" where
  "overwrite xs offset ys = take offset xs @ ys @ drop (offset + length ys) xs"

definition clear_rectangle :: "bytes \<Rightarrow> u32 \<Rightarrow> apng_frame_control \<Rightarrow> bytes" where
  "clear_rectangle canvas width control =
     foldl (\<lambda>cv y. overwrite cv (pixel_offset (fc_x_offset control) (fc_y_offset control + of_nat y) width)
              (replicate (unat (fc_width control) * 4) 0))
       canvas [0..<unat (fc_height control)]"

definition source_copy :: "bytes \<Rightarrow> u32 \<Rightarrow> apng_frame_control \<Rightarrow> bytes \<Rightarrow> bytes" where
  "source_copy canvas width control frame =
     (let row_size = unat (fc_width control) * 4
      in foldl (\<lambda>cv y. overwrite cv (pixel_offset (fc_x_offset control) (fc_y_offset control + of_nat y) width)
                 (take row_size (drop (y * row_size) frame)))
           canvas [0..<unat (fc_height control)])"

definition rounded_divide :: "u32 \<Rightarrow> u32 \<Rightarrow> byte" where
  "rounded_divide n d = ucast ((n + d div 2) div d)"

definition source_over_pixel :: "bytes \<Rightarrow> bytes \<Rightarrow> bytes" where
  "source_over_pixel destination source =
     (let source_alpha = (ucast (source ! 3) :: u32);
          destination_alpha = (ucast (destination ! 3) :: u32)
      in if source_alpha = 0 then destination
         else if source_alpha = 255 \<or> destination_alpha = 0 then source
         else
           let inverse_source_alpha = 255 - source_alpha;
               alpha_numerator = source_alpha * 255 + destination_alpha * inverse_source_alpha;
               colour = (\<lambda>channel.
                 let source_color = (ucast (source ! channel) :: u32);
                     destination_color = (ucast (destination ! channel) :: u32);
                     color_numerator = source_color * source_alpha * 255
                       + destination_color * destination_alpha * inverse_source_alpha
                 in rounded_divide color_numerator alpha_numerator)
           in map colour [0..<3] @ [rounded_divide alpha_numerator 255])"

definition source_over :: "bytes \<Rightarrow> u32 \<Rightarrow> apng_frame_control \<Rightarrow> bytes \<Rightarrow> bytes" where
  "source_over canvas width control frame =
     foldl (\<lambda>cv y. foldl (\<lambda>cv x.
         let source = pixel_offset (of_nat x) (of_nat y) (fc_width control);
             destination = pixel_offset (fc_x_offset control + of_nat x) (fc_y_offset control + of_nat y) width
         in overwrite cv destination
              (source_over_pixel (take 4 (drop destination cv)) (take 4 (drop source frame))))
       cv [0..<unat (fc_width control)])
     canvas [0..<unat (fc_height control)]"

text \<open>The result beside the canvas as the call leaves it.\<close>

definition compose_apng_frame ::
    "bytes \<Rightarrow> u32 \<Rightarrow> u32 \<Rightarrow> apng_frame_control \<Rightarrow> bytes \<Rightarrow> (composition_error + bytes) \<times> bytes" where
  "compose_apng_frame canvas width height control frame =
     (if rgba_size width height \<noteq> Some (length canvas) then (Inl Comp_canvas_size, canvas)
      else if rgba_size (fc_width control) (fc_height control) \<noteq> Some (length frame) then (Inl Comp_frame_size, canvas)
      else if width < fc_x_offset control \<or> width - fc_x_offset control < fc_width control
        \<or> height < fc_y_offset control \<or> height - fc_y_offset control < fc_height control
      then (Inl Comp_frame_rectangle, canvas)
      else if 1 < fc_blend control then (Inl Comp_blend_operation, canvas)
      else if 2 < fc_dispose control then (Inl Comp_dispose_operation, canvas)
      else
        let displayed =
              (if fc_blend control = 0 then source_copy (clear_rectangle canvas width control) width control frame
               else source_over canvas width control frame);
            next_canvas =
              (if fc_dispose control = 1 then clear_rectangle displayed width control
               else if fc_dispose control = 2 then canvas else displayed)
        in (Inr displayed, next_canvas))"

definition apng_frame_duration_ms :: "u16 \<Rightarrow> u16 \<Rightarrow> int" where
  "apng_frame_duration_ms delay_numerator delay_denominator =
     (if delay_denominator = 0 then 0
      else sint ((ucast delay_numerator * 1000) div ucast delay_denominator :: u32))"

section \<open>Pixels\<close>

definition pixel :: "bytes \<Rightarrow> nat \<Rightarrow> bytes" where
  "pixel cv p = take 4 (drop (4 * p) cv)"

lemma length_overwrite [simp]: "offset + length ys \<le> length xs \<Longrightarrow> length (overwrite xs offset ys) = length xs"
  by (simp add: overwrite_def)

lemma pixel_overwrite:
  assumes "length r = 4 * n" and "4 * (q + n) \<le> length cv" and "4 * p + 4 \<le> length cv"
  shows "pixel (overwrite cv (4 * q) r) p = (if q \<le> p \<and> p < q + n then pixel r (p - q) else pixel cv p)"
proof (rule nth_equalityI)
  show "length (pixel (overwrite cv (4 * q) r) p) = length (if q \<le> p \<and> p < q + n then pixel r (p - q) else pixel cv p)"
    using assms by (auto simp: pixel_def)
next
  fix i assume "i < length (pixel (overwrite cv (4 * q) r) p)"
  with assms have "i < 4" by (simp add: pixel_def)
  have "overwrite cv (4 * q) r ! (4 * p + i) =
      (if q \<le> p \<and> p < q + n then r ! (4 * (p - q) + i) else cv ! (4 * p + i))"
    using assms \<open>i < 4\<close> by (auto simp: overwrite_def nth_append) (auto intro!: arg_cong [where f = "nth _"])
  then show "pixel (overwrite cv (4 * q) r) p ! i = (if q \<le> p \<and> p < q + n then pixel r (p - q) else pixel cv p) ! i"
    using assms \<open>i < 4\<close> by (auto simp: pixel_def)
qed

text \<open>A row step changes the pixels of one row of a rectangle, each by a function of its place and its
  old value; a loop of row steps then changes exactly the rectangle.\<close>

definition row_step :: "nat \<Rightarrow> nat \<Rightarrow> nat \<Rightarrow> (nat \<Rightarrow> bytes \<Rightarrow> bytes) \<Rightarrow> (bytes \<Rightarrow> bytes) \<Rightarrow> bool" where
  "row_step L q w G T \<longleftrightarrow>
     (\<forall>cv. length cv = L \<longrightarrow> length (T cv) = L
       \<and> (\<forall>p. 4 * p + 4 \<le> L \<longrightarrow> pixel (T cv) p = (if q \<le> p \<and> p < q + w then G (p - q) (pixel cv p) else pixel cv p)))"

lemma row_position:
  fixes X W x0 w y Y :: nat
  assumes "X < W" and "x0 + w \<le> W"
  shows "y * W + x0 \<le> Y * W + X \<and> Y * W + X < y * W + x0 + w \<longleftrightarrow> Y = y \<and> x0 \<le> X \<and> X < x0 + w"
proof
  assume in_row: "y * W + x0 \<le> Y * W + X \<and> Y * W + X < y * W + x0 + w"
  then have "W * y \<le> Y * W + X" "Y * W + X < W * Suc y" using assms by (simp_all add: algebra_simps)
  then have "(Y * W + X) div W = y" by (rule div_nat_eqI)
  moreover have "(Y * W + X) div W = Y" using assms(1) by simp
  ultimately have "Y = y" by simp
  with in_row show "Y = y \<and> x0 \<le> X \<and> X < x0 + w" by simp
qed simp

lemma rows_pixel:
  assumes steps: "\<And>y. y < n \<Longrightarrow> row_step L ((y0 + y) * W + x0) w (G y) (T y)"
    and "length cv = L" and "X < W" and "x0 + w \<le> W" and "4 * (Y * W + X) + 4 \<le> L"
  shows "length (foldl (\<lambda>cv y. T y cv) cv [0..<n]) = L \<and>
    pixel (foldl (\<lambda>cv y. T y cv) cv [0..<n]) (Y * W + X) =
      (if y0 \<le> Y \<and> Y < y0 + n \<and> x0 \<le> X \<and> X < x0 + w then G (Y - y0) (X - x0) (pixel cv (Y * W + X))
       else pixel cv (Y * W + X))"
  using steps
proof (induction n)
  case 0
  with assms(2) show ?case by auto
next
  case (Suc n)
  let ?cv = "foldl (\<lambda>cv y. T y cv) cv [0..<n]"
  have ih: "length ?cv = L" "pixel ?cv (Y * W + X) =
      (if y0 \<le> Y \<and> Y < y0 + n \<and> x0 \<le> X \<and> X < x0 + w then G (Y - y0) (X - x0) (pixel cv (Y * W + X))
       else pixel cv (Y * W + X))"
    using Suc by auto
  have step: "length (T n ?cv) = L" "pixel (T n ?cv) (Y * W + X) =
      (if (y0 + n) * W + x0 \<le> Y * W + X \<and> Y * W + X < (y0 + n) * W + x0 + w
       then G n (Y * W + X - ((y0 + n) * W + x0)) (pixel ?cv (Y * W + X)) else pixel ?cv (Y * W + X))"
    using Suc.prems [of n] ih(1) assms(5) unfolding row_step_def by auto
  show ?case
  proof (cases "Y = y0 + n \<and> x0 \<le> X \<and> X < x0 + w")
    case True
    then have "(y0 + n) * W + x0 \<le> Y * W + X \<and> Y * W + X < (y0 + n) * W + x0 + w"
      by (simp only: row_position [OF assms(3,4)])
    moreover have "Y * W + X - ((y0 + n) * W + x0) = X - x0" using True by simp
    ultimately show ?thesis using True step ih(2) by simp
  next
    case False
    then have "\<not> ((y0 + n) * W + x0 \<le> Y * W + X \<and> Y * W + X < (y0 + n) * W + x0 + w)"
      by (simp only: row_position [OF assms(3,4)] not_False_eq_True)
    with False show ?thesis using step ih(2) by auto
  qed
qed

lemma row_step_overwrite:
  assumes "length r = 4 * w" and "4 * (q + w) \<le> L"
  shows "row_step L q w (\<lambda>k _. pixel r k) (\<lambda>cv. overwrite cv (4 * q) r)"
  using assms by (simp add: row_step_def pixel_overwrite)

lemma row_step_pixels:
  assumes "\<And>x d. x < w \<Longrightarrow> length d = 4 \<Longrightarrow> length (g x d) = 4" and "4 * (q + w) \<le> L"
  shows "row_step L q w g (\<lambda>cv. foldl (\<lambda>cv x. overwrite cv (4 * (q + x)) (g x (pixel cv (q + x)))) cv [0..<w])"
  using assms
proof (induction w)
  case 0
  then show ?case by (auto simp: row_step_def)
next
  case (Suc w)
  let ?T = "\<lambda>cv. foldl (\<lambda>cv x. overwrite cv (4 * (q + x)) (g x (pixel cv (q + x)))) cv [0..<w]"
  show ?case
    unfolding row_step_def
  proof (intro allI impI conjI)
    fix cv :: bytes assume len: "length cv = L"
    with Suc have ih: "length (?T cv) = L" and
      pix: "\<And>p. 4 * p + 4 \<le> L \<Longrightarrow> pixel (?T cv) p = (if q \<le> p \<and> p < q + w then g (p - q) (pixel cv p) else pixel cv p)"
      by (simp_all add: row_step_def)
    let ?r = "g w (pixel (?T cv) (q + w))"
    have r: "length ?r = 4 * 1" using Suc.prems ih by (simp add: pixel_def)
    then show "length (foldl (\<lambda>cv x. overwrite cv (4 * (q + x)) (g x (pixel cv (q + x)))) cv [0..<Suc w]) = L"
      using ih Suc.prems by simp
    fix p assume p: "4 * p + 4 \<le> L"
    have "pixel (overwrite (?T cv) (4 * (q + w)) ?r) p =
        (if q + w \<le> p \<and> p < q + w + 1 then pixel ?r (p - (q + w)) else pixel (?T cv) p)"
      by (rule pixel_overwrite [OF r]) (use ih Suc.prems p in simp_all)
    moreover have "pixel ?r 0 = ?r" using r by (simp add: pixel_def)
    moreover have "pixel (?T cv) (q + w) = pixel cv (q + w)" using pix [of "q + w"] Suc.prems by simp
    ultimately show "pixel (foldl (\<lambda>cv x. overwrite cv (4 * (q + x)) (g x (pixel cv (q + x)))) cv [0..<Suc w]) p =
        (if q \<le> p \<and> p < q + Suc w then g (p - q) (pixel cv p) else pixel cv p)"
      using pix [OF p] by (cases "p = q + w") auto
  qed
qed

section \<open>The drawing operations, pixel by pixel\<close>

text \<open>The rectangle of a frame lies in a canvas of \<open>W\<close> by \<open>H\<close> pixels.\<close>

definition fits :: "apng_frame_control \<Rightarrow> u32 \<Rightarrow> u32 \<Rightarrow> bool" where
  "fits c W H \<longleftrightarrow> unat (fc_x_offset c) + unat (fc_width c) \<le> unat W \<and> unat (fc_y_offset c) + unat (fc_height c) \<le> unat H"

definition in_rectangle :: "apng_frame_control \<Rightarrow> nat \<Rightarrow> nat \<Rightarrow> bool" where
  "in_rectangle c x y \<longleftrightarrow>
     unat (fc_x_offset c) \<le> x \<and> x < unat (fc_x_offset c) + unat (fc_width c)
     \<and> unat (fc_y_offset c) \<le> y \<and> y < unat (fc_y_offset c) + unat (fc_height c)"

definition pixel_at :: "bytes \<Rightarrow> u32 \<Rightarrow> nat \<Rightarrow> nat \<Rightarrow> bytes" where
  "pixel_at cv W x y = pixel cv (y * unat W + x)"

lemma row_offset:
  assumes "fits c W H" and "y < unat (fc_height c)" and "x < unat (fc_width c) \<or> x = 0"
  shows "pixel_offset (fc_x_offset c + of_nat x) (fc_y_offset c + of_nat y) W =
      4 * ((unat (fc_y_offset c) + y) * unat W + unat (fc_x_offset c) + x)"
    and "4 * ((unat (fc_y_offset c) + y) * unat W + unat (fc_x_offset c) + unat (fc_width c)) \<le> 4 * (unat W * unat H)"
proof -
  have sum: "unat (a + of_nat n) = unat a + n" if "unat a + n < 2 ^ 32" for a :: u32 and n
    using that by (simp add: unat_word_ariths unsigned_of_nat take_bit_nat_eq_self)
  have "unat W < 2 ^ 32" "unat H < 2 ^ 32" using unsigned_less [of W, where ?'a = nat] unsigned_less [of H, where ?'a = nat] by simp_all
  with assms have "unat (fc_x_offset c) + x < 2 ^ 32" "unat (fc_y_offset c) + y < 2 ^ 32"
    unfolding fits_def by linarith+
  with sum show "pixel_offset (fc_x_offset c + of_nat x) (fc_y_offset c + of_nat y) W =
      4 * ((unat (fc_y_offset c) + y) * unat W + unat (fc_x_offset c) + x)"
    by (simp add: pixel_offset_def)
  have "(unat (fc_y_offset c) + y + 1) * unat W \<le> unat H * unat W"
    using assms(1,2) unfolding fits_def by (intro mult_right_mono) linarith+
  then show "4 * ((unat (fc_y_offset c) + y) * unat W + unat (fc_x_offset c) + unat (fc_width c)) \<le> 4 * (unat W * unat H)"
    using assms(1) unfolding fits_def by (simp add: algebra_simps)
qed

lemma rectangle_pixel:
  assumes "\<And>y. y < unat (fc_height c) \<Longrightarrow>
      row_step (4 * (unat W * unat H)) ((unat (fc_y_offset c) + y) * unat W + unat (fc_x_offset c)) (unat (fc_width c)) (G y) (T y)"
    and "fits c W H" and "length cv = 4 * (unat W * unat H)"
  shows "\<And>x y. x < unat W \<Longrightarrow> y < unat H \<Longrightarrow>
      pixel_at (foldl (\<lambda>cv y. T y cv) cv [0..<unat (fc_height c)]) W x y =
        (if in_rectangle c x y then G (y - unat (fc_y_offset c)) (x - unat (fc_x_offset c)) (pixel_at cv W x y)
         else pixel_at cv W x y)"
    and "0 < unat W * unat H \<Longrightarrow> length (foldl (\<lambda>cv y. T y cv) cv [0..<unat (fc_height c)]) = length cv"
proof -
  have pos: "4 * (y * unat W + x) + 4 \<le> 4 * (unat W * unat H)" if "x < unat W" "y < unat H" for x y
  proof -
    have "(y + 1) * unat W \<le> unat H * unat W" using that by (intro mult_right_mono) simp_all
    with that show ?thesis by (simp add: algebra_simps)
  qed
  note rows = rows_pixel [OF assms(1) assms(3) _ _ pos]
  show "pixel_at (foldl (\<lambda>cv y. T y cv) cv [0..<unat (fc_height c)]) W x y =
        (if in_rectangle c x y then G (y - unat (fc_y_offset c)) (x - unat (fc_x_offset c)) (pixel_at cv W x y)
         else pixel_at cv W x y)" if "x < unat W" "y < unat H" for x y
    using rows [OF _ that(1) _ that] assms(2) unfolding fits_def pixel_at_def in_rectangle_def by auto
  show "length (foldl (\<lambda>cv y. T y cv) cv [0..<unat (fc_height c)]) = length cv" if "0 < unat W * unat H"
    using rows [of _ 0 0] assms(2,3) that unfolding fits_def by auto
qed

lemma pixel_replicate: "k < n \<Longrightarrow> pixel (replicate (n * 4) b) k = replicate 4 b"
  by (simp add: pixel_def min_def)

lemma row_offset0:
  assumes "fits c W H" and "y < unat (fc_height c)"
  shows "pixel_offset (fc_x_offset c) (fc_y_offset c + of_nat y) W =
      4 * ((unat (fc_y_offset c) + y) * unat W + unat (fc_x_offset c))"
  using row_offset(1) [OF assms, of 0] by simp

lemma clear_rectangle_pixel:
  assumes "fits c W H" and "length cv = 4 * (unat W * unat H)" and "0 < unat W * unat H"
  shows "length (clear_rectangle cv W c) = length cv"
    and "\<And>x y. x < unat W \<Longrightarrow> y < unat H \<Longrightarrow>
      pixel_at (clear_rectangle cv W c) W x y = (if in_rectangle c x y then replicate 4 0 else pixel_at cv W x y)"
proof -
  have rows: "row_step (4 * (unat W * unat H)) ((unat (fc_y_offset c) + y) * unat W + unat (fc_x_offset c)) (unat (fc_width c))
      (\<lambda>k _. pixel (replicate (unat (fc_width c) * 4) 0) k)
      (\<lambda>cv. overwrite cv (pixel_offset (fc_x_offset c) (fc_y_offset c + of_nat y) W) (replicate (unat (fc_width c) * 4) 0))"
    if "y < unat (fc_height c)" for y
    unfolding row_offset0 [OF assms(1) that]
    by (rule row_step_overwrite) (use row_offset(2) [OF assms(1) that, of 0] in simp_all)
  note rect = rectangle_pixel [OF rows assms(1,2)]
  show "length (clear_rectangle cv W c) = length cv"
    using rect(2) assms(3) by (simp add: clear_rectangle_def)
  show "pixel_at (clear_rectangle cv W c) W x y = (if in_rectangle c x y then replicate 4 0 else pixel_at cv W x y)"
    if "x < unat W" "y < unat H" for x y
    using rect(1) [OF _ that] by (auto simp: clear_rectangle_def in_rectangle_def pixel_replicate)
qed

lemma pixel_row:
  assumes "k < w"
  shows "pixel (take (w * 4) (drop (y * (w * 4)) frame)) k = pixel frame (y * w + k)"
proof -
  have "4 * k + 4 \<le> w * 4" using assms by simp
  then show ?thesis
    by (simp add: pixel_def drop_take add.commute algebra_simps min_def)
qed

lemma source_copy_pixel:
  assumes "fits c W H" and "length cv = 4 * (unat W * unat H)" and "0 < unat W * unat H"
    and "length frame = 4 * (unat (fc_width c) * unat (fc_height c))"
  shows "length (source_copy cv W c frame) = length cv"
    and "\<And>x y. x < unat W \<Longrightarrow> y < unat H \<Longrightarrow>
      pixel_at (source_copy cv W c frame) W x y =
        (if in_rectangle c x y then pixel_at frame (fc_width c) (x - unat (fc_x_offset c)) (y - unat (fc_y_offset c))
         else pixel_at cv W x y)"
proof -
  let ?w = "unat (fc_width c)"
  have size: "length (take (?w * 4) (drop (y * (?w * 4)) frame)) = 4 * ?w" if "y < unat (fc_height c)" for y
  proof -
    have "(y + 1) * (?w * 4) \<le> unat (fc_height c) * (?w * 4)" using that by (intro mult_right_mono) simp_all
    with assms(4) show ?thesis by (simp add: algebra_simps)
  qed
  have rows: "row_step (4 * (unat W * unat H)) ((unat (fc_y_offset c) + y) * unat W + unat (fc_x_offset c)) ?w
      (\<lambda>k _. pixel (take (?w * 4) (drop (y * (?w * 4)) frame)) k)
      (\<lambda>cv. overwrite cv (pixel_offset (fc_x_offset c) (fc_y_offset c + of_nat y) W) (take (?w * 4) (drop (y * (?w * 4)) frame)))"
    if "y < unat (fc_height c)" for y
    unfolding row_offset0 [OF assms(1) that]
    by (rule row_step_overwrite [OF size [OF that]]) (use row_offset(2) [OF assms(1) that, of 0] in simp)
  note rect = rectangle_pixel [OF rows assms(1,2)]
  show "length (source_copy cv W c frame) = length cv"
    using rect(2) assms(3) by (simp add: source_copy_def Let_def)
  show "pixel_at (source_copy cv W c frame) W x y =
        (if in_rectangle c x y then pixel_at frame (fc_width c) (x - unat (fc_x_offset c)) (y - unat (fc_y_offset c))
         else pixel_at cv W x y)" if "x < unat W" "y < unat H" for x y
    using rect(1) [OF _ that] by (auto simp: source_copy_def Let_def in_rectangle_def pixel_at_def pixel_row)
qed

lemma length_source_over_pixel: "length d = 4 \<Longrightarrow> length s = 4 \<Longrightarrow> length (source_over_pixel d s) = 4"
  by (simp add: source_over_pixel_def Let_def)

lemma source_over_pixels:
  assumes "fits c W H" and "length cv = 4 * (unat W * unat H)" and "0 < unat W * unat H"
    and "length frame = 4 * (unat (fc_width c) * unat (fc_height c))"
  shows "length (source_over cv W c frame) = length cv"
    and "\<And>x y. x < unat W \<Longrightarrow> y < unat H \<Longrightarrow>
      pixel_at (source_over cv W c frame) W x y =
        (if in_rectangle c x y
         then source_over_pixel (pixel_at cv W x y)
                (pixel_at frame (fc_width c) (x - unat (fc_x_offset c)) (y - unat (fc_y_offset c)))
         else pixel_at cv W x y)"
proof -
  let ?w = "unat (fc_width c)" and ?h = "unat (fc_height c)"
  let ?q = "\<lambda>y. (unat (fc_y_offset c) + y) * unat W + unat (fc_x_offset c)"
  let ?g = "\<lambda>y x d. source_over_pixel d (pixel frame (y * ?w + x))"
  let ?T = "\<lambda>y cv. foldl (\<lambda>cv x. overwrite cv (4 * (?q y + x)) (?g y x (pixel cv (?q y + x)))) cv [0..<?w]"
  have step: "overwrite cv (pixel_offset (fc_x_offset c + of_nat x) (fc_y_offset c + of_nat y) W)
        (source_over_pixel (take 4 (drop (pixel_offset (fc_x_offset c + of_nat x) (fc_y_offset c + of_nat y) W) cv))
          (take 4 (drop (pixel_offset (of_nat x) (of_nat y) (fc_width c)) frame))) =
      overwrite cv (4 * (?q y + x)) (?g y x (pixel cv (?q y + x)))" if "x < ?w" "y < ?h" for x y cv
  proof -
    have "unat (of_nat x :: u32) = x" "unat (of_nat y :: u32) = y"
      using that by (metis le_unat_uoi less_imp_le)+
    then have "pixel_offset (of_nat x) (of_nat y) (fc_width c) = 4 * (y * ?w + x)"
      by (simp add: pixel_offset_def)
    with row_offset(1) [OF assms(1) that(2), of x] that(1) show ?thesis by (simp add: pixel_def)
  qed
  have inner: "foldl (\<lambda>cv x. overwrite cv (pixel_offset (fc_x_offset c + of_nat x) (fc_y_offset c + of_nat y) W)
        (source_over_pixel (take 4 (drop (pixel_offset (fc_x_offset c + of_nat x) (fc_y_offset c + of_nat y) W) cv))
          (take 4 (drop (pixel_offset (of_nat x) (of_nat y) (fc_width c)) frame)))) cv [0..<?w] = ?T y cv"
    if "y < ?h" for y cv
    using that by (intro foldl_cong refl step) simp_all
  have unfolded: "source_over cv W c frame = foldl (\<lambda>cv y. ?T y cv) cv [0..<?h]"
    unfolding source_over_def Let_def by (intro foldl_cong refl inner) simp
  have rows: "row_step (4 * (unat W * unat H)) (?q y) ?w (?g y) (?T y)" if "y < ?h" for y
  proof (rule row_step_pixels)
    fix x and d :: bytes assume "x < ?w" and d: "length d = 4"
    have "(y + 1) * ?w \<le> ?h * ?w" using that by (intro mult_right_mono) simp_all
    then have "4 * (y * ?w + x) + 4 \<le> length frame" using assms(4) \<open>x < ?w\<close> by (simp add: algebra_simps)
    with d show "length (?g y x d) = 4" by (simp add: pixel_def length_source_over_pixel)
  qed (use row_offset(2) [OF assms(1) that, of 0] in simp)
  note rect = rectangle_pixel [OF rows assms(1,2)]
  show "length (source_over cv W c frame) = length cv"
    using rect(2) assms(3) by (simp add: unfolded)
  show "pixel_at (source_over cv W c frame) W x y =
        (if in_rectangle c x y
         then source_over_pixel (pixel_at cv W x y)
                (pixel_at frame (fc_width c) (x - unat (fc_x_offset c)) (y - unat (fc_y_offset c)))
         else pixel_at cv W x y)" if "x < unat W" "y < unat H" for x y
    using rect(1) [OF _ that] by (auto simp: unfolded pixel_at_def)
qed

section \<open>The arithmetic of the blend\<close>

definition alpha_weight :: "nat \<Rightarrow> nat \<Rightarrow> nat" where
  "alpha_weight sa da = sa * 255 + da * (255 - sa)"

definition colour_weight :: "nat \<Rightarrow> nat \<Rightarrow> nat \<Rightarrow> nat \<Rightarrow> nat" where
  "colour_weight sa da sc dc = sc * sa * 255 + dc * da * (255 - sa)"

lemma byte_le [simp]: "unat (b :: byte) \<le> 255"
  using unsigned_less [of b, where ?'a = nat] by simp

lemma unat_of_nat32: "n < 2 ^ 32 \<Longrightarrow> unat (of_nat n :: u32) = n"
  by (simp add: unsigned_of_nat take_bit_nat_eq_self)

lemma rounded_divide_of_nat:
  assumes "n + d < 2 ^ 32" and "(n + d div 2) div d < 256"
  shows "unat (rounded_divide (of_nat n) (of_nat d)) = (n + d div 2) div d"
proof -
  have "unat (of_nat n + of_nat d div 2 :: u32) = n + d div 2"
    using assms(1) by (simp add: unat_word_ariths unat_div unat_of_nat32)
  then have "unat ((of_nat n + of_nat d div 2) div of_nat d :: u32) = (n + d div 2) div d"
    using assms(1) by (simp add: unat_div unat_of_nat32)
  with assms(2) show ?thesis
    unfolding rounded_divide_def by (simp add: unsigned_ucast_eq take_bit_nat_eq_self)
qed

text \<open>A rounded weighted mean lies between its operands.\<close>

lemma rounded_mean:
  fixes a b u v D :: nat
  assumes "a * u + b * v = N" and "u + v = D" and "0 < D"
  shows "min a b \<le> (N + D div 2) div D" and "(N + D div 2) div D \<le> max a b"
proof -
  have "min a b * D \<le> N"
    unfolding assms(1,2) [symmetric] by (simp add: distrib_left add_mono mult_right_mono)
  then have "min a b * D \<le> N + D div 2" by linarith
  with assms(3) show "min a b \<le> (N + D div 2) div D" by (simp add: less_eq_div_iff_mult_less_eq)
  have "N \<le> max a b * D"
    unfolding assms(1,2) [symmetric] by (simp add: distrib_left add_mono mult_right_mono)
  moreover have "D div 2 < D" using assms(3) by simp
  ultimately have "N + D div 2 < Suc (max a b) * D" unfolding mult_Suc by linarith
  with assms(3) show "(N + D div 2) div D \<le> max a b"
    using div_less_iff_less_mult [of D "N + D div 2" "Suc (max a b)"] by simp
qed

lemma source_over_pixel_words:
  fixes sa da sc dc :: byte
  shows "(ucast sa * 255 + ucast da * (255 - ucast sa) :: u32) = of_nat (alpha_weight (unat sa) (unat da))"
    and "(ucast sc * ucast sa * 255 + ucast dc * ucast da * (255 - ucast sa) :: u32) =
      of_nat (colour_weight (unat sa) (unat da) (unat sc) (unat dc))"
proof -
  have u: "(ucast b :: u32) = of_nat (unat b)" for b :: byte by simp
  have "(255 - ucast sa :: u32) = of_nat (255 - unat sa)" by (simp add: of_nat_diff)
  then show "(ucast sa * 255 + ucast da * (255 - ucast sa) :: u32) = of_nat (alpha_weight (unat sa) (unat da))"
    "(ucast sc * ucast sa * 255 + ucast dc * ucast da * (255 - ucast sa) :: u32) =
      of_nat (colour_weight (unat sa) (unat da) (unat sc) (unat dc))"
    by (simp_all add: alpha_weight_def colour_weight_def)
qed

lemma ucast_byte_eq:
  "(ucast (b :: byte) :: u32) = 0 \<longleftrightarrow> unat b = 0" "(ucast (b :: byte) :: u32) = 255 \<longleftrightarrow> unat b = 255"
proof -
  have "unat (ucast b :: u32) = unat b"
    using take_bit_nat_eq_self [of "unat b" 32] le_less_trans [OF byte_le [of b], of "2 ^ 32"]
    by (simp add: unsigned_ucast_eq)
  then show "(ucast b :: u32) = 0 \<longleftrightarrow> unat b = 0" "(ucast b :: u32) = 255 \<longleftrightarrow> unat b = 255"
    using unsigned_word_eqI [where ?'a = nat, of "ucast b :: u32" 255] by (auto simp: unat_eq_0)
qed

lemma weights_bounded:
  assumes "sa \<le> 255" and "da \<le> 255" and "sc \<le> 255" and "dc \<le> 255"
  shows "alpha_weight sa da \<le> 130050" and "colour_weight sa da sc dc \<le> 33162750"
proof -
  have m2: "a * b \<le> 65025" if "a \<le> 255" "b \<le> 255" for a b :: nat
    using mult_le_mono [OF that] by simp
  have m3: "a * b * c \<le> 16581375" if "a \<le> 255" "b \<le> 255" "c \<le> 255" for a b c :: nat
    using mult_le_mono [OF m2 that(3)] that by simp
  show "alpha_weight sa da \<le> 130050"
    using m2 [of sa 255] m2 [of da "255 - sa"] assms by (simp add: alpha_weight_def)
  show "colour_weight sa da sc dc \<le> 33162750"
    using m3 [of sc sa 255] m3 [of dc da "255 - sa"] assms unfolding colour_weight_def by linarith
qed

lemma compose_apng_frame_Inr:
  assumes "compose_apng_frame canvas W H c frame = (Inr displayed, next_canvas)"
  shows "length canvas = 4 * (unat W * unat H) \<and> length frame = 4 * (unat (fc_width c) * unat (fc_height c))
    \<and> 0 < unat W * unat H \<and> fits c W H
    \<and> displayed = (if fc_blend c = 0 then source_copy (clear_rectangle canvas W c) W c frame
        else source_over canvas W c frame)
    \<and> next_canvas = (if fc_dispose c = 1 then clear_rectangle displayed W c
        else if fc_dispose c = 2 then canvas else displayed)"
proof -
  have size: "length cv = 4 * (unat w * unat h) \<and> 0 < unat w * unat h" if "rgba_size w h = Some (length cv)"
    for w h and cv :: bytes
    using that by (auto simp: rgba_size_def Let_def unat_gt_0 split: if_splits)
  have inside: "unat o1 + unat w \<le> unat L" if "\<not> L < o1" "\<not> L - o1 < w" for L o1 w :: u32
    using rectangle_inside that by (simp add: not_less)
  from assms show ?thesis
    using size [of W H canvas] size [of "fc_width c" "fc_height c" frame]
    by (auto simp: compose_apng_frame_def Let_def fits_def intro: inside split: if_splits)
qed

lemma compose_lengths:
  assumes "compose_apng_frame canvas W H c frame = (Inr displayed, next_canvas)"
  shows "length displayed = length canvas" and "length next_canvas = length canvas"
proof -
  note c = compose_apng_frame_Inr [OF assms]
  then have fits: "fits c W H" and pos: "0 < unat W * unat H" and sizes: "length canvas = 4 * (unat W * unat H)"
    "length frame = 4 * (unat (fc_width c) * unat (fc_height c))" by blast+
  show "length displayed = length canvas" "length next_canvas = length canvas"
    using c sizes clear_rectangle_pixel(1) [OF fits _ pos] source_copy_pixel(1) [OF fits _ pos sizes(2)]
      source_over_pixels(1) [OF fits _ pos sizes(2)] by auto
qed

section \<open>Properties\<close>

text \<open>C28. Blending two partly transparent pixels never wraps around: every colour channel is the exact
  alpha-weighted mean of the two colours rounded to the nearest integer, so it lies between them,
  and the new alpha is the exact source-over alpha rounded to nearest, at least both old alphas.\<close>

theorem source_over_pixel_exact:
  assumes "length d = 4" and "length s = 4" and "0 < s ! 3" and "s ! 3 < 255" and "0 < d ! 3" and "c < 3"
  shows "unat (source_over_pixel d s ! c) =
      (colour_weight (unat (s ! 3)) (unat (d ! 3)) (unat (s ! c)) (unat (d ! c))
        + alpha_weight (unat (s ! 3)) (unat (d ! 3)) div 2) div alpha_weight (unat (s ! 3)) (unat (d ! 3))
    \<and> min (unat (s ! c)) (unat (d ! c)) \<le> unat (source_over_pixel d s ! c)
    \<and> unat (source_over_pixel d s ! c) \<le> max (unat (s ! c)) (unat (d ! c))
    \<and> unat (source_over_pixel d s ! 3) = (alpha_weight (unat (s ! 3)) (unat (d ! 3)) + 127) div 255
    \<and> max (unat (s ! 3)) (unat (d ! 3)) \<le> unat (source_over_pixel d s ! 3)"
proof -
  let ?sa = "unat (s ! 3)" and ?da = "unat (d ! 3)"
  let ?D = "alpha_weight ?sa ?da" and ?N = "colour_weight ?sa ?da (unat (s ! c)) (unat (d ! c))"
  have sa: "0 < ?sa" "?sa < 255" "0 < ?da" "?da \<le> 255"
    using assms(3-5) by (simp_all add: word_less_nat_alt unat_gt_0)
  then have D: "0 < ?D" by (simp add: alpha_weight_def)
  note bounds = weights_bounded [of ?sa ?da "unat (s ! c)" "unat (d ! c)"]
  have mean: "min (unat (s ! c)) (unat (d ! c)) \<le> (?N + ?D div 2) div ?D"
    "(?N + ?D div 2) div ?D \<le> max (unat (s ! c)) (unat (d ! c))"
    by (rule rounded_mean [of _ "?sa * 255" _ "?da * (255 - ?sa)"]; use D in \<open>simp add: colour_weight_def alpha_weight_def\<close>)+
  have "max (unat (s ! c)) (unat (d ! c)) \<le> 255" by simp
  with mean(2) have mean_byte: "(?N + ?D div 2) div ?D < 256" by linarith
  have colour: "source_over_pixel d s ! c = rounded_divide (of_nat ?N) (of_nat ?D)"
    and alpha: "source_over_pixel d s ! 3 = rounded_divide (of_nat ?D) (of_nat 255)"
    using assms(1,2,6) sa by (simp_all add: source_over_pixel_def Let_def source_over_pixel_words nth_append ucast_byte_eq)
  have "unat (source_over_pixel d s ! c) = (?N + ?D div 2) div ?D"
    unfolding colour by (rule rounded_divide_of_nat) (use bounds mean_byte in simp_all)
  moreover have "unat (source_over_pixel d s ! 3) = (?D + 127) div 255"
  proof -
    have "?D \<le> 255 * 255"
      unfolding alpha_weight_def using sa(2) mult_right_mono [OF sa(4), of "255 - ?sa"]
      by (simp add: diff_mult_distrib2)
    then show ?thesis
      unfolding alpha by (subst rounded_divide_of_nat) simp_all
  qed
  moreover have "max ?sa ?da \<le> (?D + 127) div 255"
  proof -
    have "?sa * 255 \<le> ?D" by (simp add: alpha_weight_def)
    moreover have "?da * 255 \<le> ?D"
    proof -
      have "?da * ?sa \<le> 255 * ?sa" using sa(4) by (rule mult_right_mono) simp
      then show ?thesis unfolding alpha_weight_def diff_mult_distrib2 by linarith
    qed
    moreover have "a \<le> (n + 127) div 255" if "a * 255 \<le> n" for a n :: nat using that by linarith
    ultimately show ?thesis by (intro max.boundedI) blast+
  qed
  ultimately show ?thesis using mean by simp
qed

theorem source_over_pixel_exact_witness:
  "unat (source_over_pixel [200, 0, 0, 128] [100, 0, 0, 64] ! 0) =
     (colour_weight 64 128 100 200 + alpha_weight 64 128 div 2) div alpha_weight 64 128"
  using source_over_pixel_exact [of "[200, 0, 0, 128]" "[100, 0, 0, 64]" 0] by simp

text \<open>C27. A frame is drawn exactly as the APNG rules ask: on the displayed canvas the pixels of the frame
  rectangle are the frame's (blend operation SOURCE) or its blend over the old ones (OVER), and the
  canvas for the next frame has the rectangle cleared (BACKGROUND), is the canvas as it was before
  the frame (PREVIOUS) or is the displayed one; every pixel outside the rectangle is untouched.\<close>

theorem compose_apng_frame_pixels:
  assumes "compose_apng_frame canvas W H c frame = (Inr displayed, next_canvas)"
    and "x < unat W" and "y < unat H"
  shows "length displayed = length canvas \<and> length next_canvas = length canvas
    \<and> pixel_at displayed W x y =
        (if \<not> in_rectangle c x y then pixel_at canvas W x y
         else
           let new = pixel_at frame (fc_width c) (x - unat (fc_x_offset c)) (y - unat (fc_y_offset c))
           in if fc_blend c = 0 then new else source_over_pixel (pixel_at canvas W x y) new)
    \<and> pixel_at next_canvas W x y =
        (if fc_dispose c = 1 \<and> in_rectangle c x y then replicate 4 0
         else if fc_dispose c = 2 then pixel_at canvas W x y else pixel_at displayed W x y)"
proof -
  from compose_apng_frame_Inr [OF assms(1)]
  have sizes: "length canvas = 4 * (unat W * unat H)" "length frame = 4 * (unat (fc_width c) * unat (fc_height c))"
    and pos: "0 < unat W * unat H" and fits: "fits c W H"
    and displayed: "displayed = (if fc_blend c = 0 then source_copy (clear_rectangle canvas W c) W c frame
      else source_over canvas W c frame)"
    and following: "next_canvas = (if fc_dispose c = 1 then clear_rectangle displayed W c
      else if fc_dispose c = 2 then canvas else displayed)" by blast+
  note clear = clear_rectangle_pixel [OF fits _ pos]
  note copy = source_copy_pixel [OF fits _ pos sizes(2)] and over = source_over_pixels [OF fits _ pos sizes(2)]
  note len = compose_lengths [OF assms(1)]
  have "pixel_at displayed W x y =
      (if \<not> in_rectangle c x y then pixel_at canvas W x y
       else
         let new = pixel_at frame (fc_width c) (x - unat (fc_x_offset c)) (y - unat (fc_y_offset c))
         in if fc_blend c = 0 then new else source_over_pixel (pixel_at canvas W x y) new)"
    using copy(2) [OF _ assms(2,3)] over(2) [OF _ assms(2,3)] clear(2) [OF _ assms(2,3)] clear(1) sizes(1)
    by (simp add: displayed Let_def)
  moreover have "pixel_at next_canvas W x y =
      (if fc_dispose c = 1 \<and> in_rectangle c x y then replicate 4 0
       else if fc_dispose c = 2 then pixel_at canvas W x y else pixel_at displayed W x y)"
    using clear(2) [OF _ assms(2,3)] len(1) sizes(1) by (simp add: following)
  ultimately show ?thesis using len by simp
qed

theorem compose_apng_frame_pixels_witness:
  "pixel_at [1, 2, 3, 4, 9, 9, 9, 9] 2 0 0 = [1, 2, 3, 4]"
proof -
  have run: "compose_apng_frame [1, 2, 3, 4, 5, 6, 7, 8] 2 1
      \<lparr>fc_sequence = 0, fc_width = 1, fc_height = 1, fc_x_offset = 1, fc_y_offset = 0, fc_delay_numerator = 1,
       fc_delay_denominator = 10, fc_dispose = 2, fc_blend = 0\<rparr> [9, 9, 9, 9] =
      (Inr [1, 2, 3, 4, 9, 9, 9, 9], [1, 2, 3, 4, 5, 6, 7, 8])"
    by (simp add: compose_apng_frame_def rgba_size_def size_max_def source_copy_def clear_rectangle_def
        overwrite_def pixel_offset_def)
  from compose_apng_frame_pixels [OF run, of 0 0] show ?thesis
    by (simp add: in_rectangle_def pixel_at_def pixel_def)
qed

text \<open>The duration of a frame is its exact quotient in milliseconds, without wrap-around.\<close>

lemma apng_frame_duration_exact:
  "apng_frame_duration_ms n d = (if d = 0 then 0 else int (unat n * 1000 div unat d))" (is ?exact)
  and apng_frame_duration_bounds: "0 \<le> apng_frame_duration_ms n d \<and> apng_frame_duration_ms n d \<le> 65535000"
proof -
  let ?q = "unat n * 1000 div unat d"
  have n: "unat n \<le> 65535" using unsigned_less [of n, where ?'a = nat] by simp
  then have small: "?q \<le> 65535000"
    using div_le_dividend [of "unat n * 1000" "unat d"] by linarith
  have u: "unat (ucast x :: u32) = unat x" for x :: u16
    using unsigned_less [of x, where ?'a = nat] by (simp add: unsigned_ucast_eq take_bit_nat_eq_self)
  have "unat ((ucast n * 1000) div ucast d :: u32) = ?q"
    using n by (simp add: unat_div unat_word_ariths u)
  then have "uint ((ucast n * 1000) div ucast d :: u32) = int ?q"
    by (metis uint_nat)
  with small have "sint ((ucast n * 1000) div ucast d :: u32) = int ?q"
    by (simp add: sint_uint signed_take_bit_int_eq_self)
  then show ?exact by (simp add: apng_frame_duration_ms_def)
  with small show "0 \<le> apng_frame_duration_ms n d \<and> apng_frame_duration_ms n d \<le> 65535000" by simp
qed

end
