(* ===== verification/Apng_Decoder.thy ===== *)
theory Apng_Decoder
  imports Apng_Compositor
begin

text \<open>
  \<^verbatim>\<open>src/media/apng_decoder.cpp\<close>: the animation is cut into one still PNG per frame,
  and each is decoded by libpng, whose calls are parameters over a world.
\<close>

datatype apng_decode_error = Dec_parse | Dec_frame_stream | Dec_png_decode | Dec_dimensions

record decoded_frame =
  df_control :: apng_frame_control
  df_rgba :: bytes

record decoded_animation =
  da_canvas_width :: u32
  da_canvas_height :: u32
  da_frames :: "decoded_frame list"

text \<open>
  \<open>png_begin\<close> is \<^verbatim>\<open>png_image_begin_read_from_memory\<close> with the
  dimensions it reports, \<open>png_size\<close> the value of \<^verbatim>\<open>PNG_IMAGE_SIZE\<close> for
  the RGBA format (16-bit samples taken as sRGB), \<open>png_finish\<close> is
  \<^verbatim>\<open>png_image_finish_read\<close> into a buffer of the given size, and
  \<open>png_free\<close> is \<^verbatim>\<open>png_image_free\<close>.
\<close>

record 'w png_api =
  png_begin :: "bytes \<Rightarrow> 'w \<Rightarrow> (u32 \<times> u32) option \<times> 'w"
  png_size :: "'w \<Rightarrow> nat"
  png_finish :: "nat \<Rightarrow> 'w \<Rightarrow> bytes option \<times> 'w"
  png_free :: "'w \<Rightarrow> 'w"

definition decode_png :: "'w png_api \<Rightarrow> bytes \<Rightarrow> apng_frame_control \<Rightarrow> 'w \<Rightarrow> (apng_decode_error + bytes) \<times> 'w" where
  "decode_png png content control w =
     (case png_begin png content w of
        (None, w1) \<Rightarrow> (Inl Dec_png_decode, w1)
      | (Some (width, height), w1) \<Rightarrow>
          if width \<noteq> fc_width control \<or> height \<noteq> fc_height control then (Inl Dec_dimensions, png_free png w1)
          else
            (case rgba_size (fc_width control) (fc_height control) of
               None \<Rightarrow> (Inl Dec_dimensions, png_free png w1)
             | Some expected \<Rightarrow>
                 if png_size png w1 \<noteq> expected then (Inl Dec_dimensions, png_free png w1)
                 else
                   (case png_finish png expected w1 of
                      (None, w2) \<Rightarrow> (Inl Dec_png_decode, png_free png w2)
                    | (Some out, w2) \<Rightarrow> (Inr (fit_buffer expected out), png_free png w2))))"

section \<open>Collecting the frame streams\<close>

record stream_state =
  shared_chunks :: bytes
  compressed :: "bytes list"
  ihdr_bytes :: bytes
  before_image_data :: bool
  saw_frame_control :: bool
  frame_index :: nat

definition initial_streams :: "nat \<Rightarrow> stream_state" where
  "initial_streams n =
     \<lparr>shared_chunks = [], compressed = replicate n [], ihdr_bytes = replicate 13 0, before_image_data = True,
      saw_frame_control = False, frame_index = 0\<rparr>"

text \<open>One chunk: its type, its data and all its bytes.\<close>

definition collect_chunk ::
    "bool \<Rightarrow> stream_state \<Rightarrow> bytes \<Rightarrow> bytes \<Rightarrow> bytes \<Rightarrow> apng_decode_error + stream_state" where
  "collect_chunk default_is_frame st ty d whole =
     (if ty = bytes_of_string ''IHDR'' then Inr (st\<lparr>ihdr_bytes := overwrite (ihdr_bytes st) 0 d\<rparr>)
      else if ty = bytes_of_string ''fcTL''
      then Inr (st\<lparr>frame_index := (if saw_frame_control st then frame_index st + 1 else frame_index st),
                   saw_frame_control := True\<rparr>)
      else if ty = bytes_of_string ''IDAT''
      then (if default_is_frame \<and> length (compressed st) \<le> frame_index st then Inl Dec_frame_stream
            else Inr (st\<lparr>before_image_data := False,
                         compressed := (if default_is_frame
                           then (compressed st)[frame_index st := compressed st ! frame_index st @ d]
                           else compressed st)\<rparr>))
      else if ty = bytes_of_string ''fdAT''
      then (if length (compressed st) \<le> frame_index st \<or> length d < 4 then Inl Dec_frame_stream
            else Inr (st\<lparr>compressed := (compressed st)[frame_index st := compressed st ! frame_index st @ drop 4 d]\<rparr>))
      else if before_image_data st \<and> ty \<noteq> bytes_of_string ''acTL''
      then Inr (st\<lparr>shared_chunks := shared_chunks st @ whole\<rparr>)
      else Inr st)"

function collect_chunks :: "bool \<Rightarrow> stream_state \<Rightarrow> bytes \<Rightarrow> apng_decode_error + stream_state" where
  "collect_chunks default_is_frame st rest =
     (if rest = [] then Inr st
      else
        let size = unat (read_u32 rest 0)
        in case collect_chunk default_is_frame st (take 4 (drop 4 rest)) (take size (drop 8 rest)) (take (8 + size + 4) rest) of
             Inl e \<Rightarrow> Inl e
           | Inr st' \<Rightarrow> collect_chunks default_is_frame st' (drop (8 + size + 4) rest))"
  by pat_completeness auto
termination
  by (relation "measure (\<lambda>(df, st, rest). length rest)") auto

declare collect_chunks.simps [simp del]

section \<open>Decoding the frames\<close>

definition frame_png :: "(bytes \<Rightarrow> u32) \<Rightarrow> bytes \<Rightarrow> bytes \<Rightarrow> apng_frame_control \<Rightarrow> bytes \<Rightarrow> bytes" where
  "frame_png crc ihdr shared control stream =
     (let frame_ihdr = overwrite (overwrite ihdr 0 (be32 (fc_width control))) 4 (be32 (fc_height control))
      in png_signature @ chunk crc ''IHDR'' frame_ihdr @ shared @ chunk crc ''IDAT'' stream @ chunk crc ''IEND'' [])"

fun decode_frames ::
    "(bytes \<Rightarrow> u32) \<Rightarrow> 'w png_api \<Rightarrow> bytes \<Rightarrow> bytes \<Rightarrow> (apng_frame_control \<times> bytes) list \<Rightarrow> 'w
      \<Rightarrow> (apng_decode_error + decoded_frame list) \<times> 'w" where
  "decode_frames crc png ihdr shared [] w = (Inr [], w)"
| "decode_frames crc png ihdr shared ((control, stream) # fs) w =
     (if stream = [] then (Inl Dec_frame_stream, w)
      else case decode_png png (frame_png crc ihdr shared control stream) control w of
             (Inl e, w') \<Rightarrow> (Inl e, w')
           | (Inr rgba, w') \<Rightarrow>
               (case decode_frames crc png ihdr shared fs w' of
                  (Inl e, w'') \<Rightarrow> (Inl e, w'')
                | (Inr frames, w'') \<Rightarrow> (Inr (\<lparr>df_control = control, df_rgba = rgba\<rparr> # frames), w'')))"

definition decode_apng_frames ::
    "(bytes \<Rightarrow> u32) \<Rightarrow> 'w png_api \<Rightarrow> bytes \<Rightarrow> 'w \<Rightarrow> (apng_decode_error + decoded_animation) \<times> 'w" where
  "decode_apng_frames crc png content w =
     (case parse_apng crc content of
        Inl _ \<Rightarrow> (Inl Dec_parse, w)
      | Inr desc \<Rightarrow>
          (case collect_chunks (default_image_is_frame desc) (initial_streams (length (apng_frames desc)))
                  (drop (length png_signature) content) of
             Inl e \<Rightarrow> (Inl e, w)
           | Inr st \<Rightarrow>
               (case decode_frames crc png (ihdr_bytes st) (shared_chunks st) (zip (apng_frames desc) (compressed st)) w of
                  (Inl e, w') \<Rightarrow> (Inl e, w')
                | (Inr frames, w') \<Rightarrow>
                    (Inr \<lparr>da_canvas_width = canvas_width desc, da_canvas_height = canvas_height desc, da_frames = frames\<rparr>, w'))))"

section \<open>The decoded frames\<close>

lemma decode_png_size:
  assumes "decode_png png content control w = (Inr rgba, w')"
  shows "rgba_size (fc_width control) (fc_height control) = Some (length rgba)"
  using assms by (auto simp: decode_png_def fit_buffer_def split: prod.splits option.splits if_splits)

lemma decode_frames_controls:
  assumes "decode_frames crc png ihdr shared fs w = (Inr frames, w')"
  shows "map df_control frames = map fst fs
    \<and> list_all (\<lambda>f. rgba_size (fc_width (df_control f)) (fc_height (df_control f)) = Some (length (df_rgba f))) frames"
  using assms
proof (induction fs arbitrary: w frames)
  case (Cons p fs)
  obtain control stream where p: "p = (control, stream)" by (cases p)
  with Cons.prems obtain rgba w1 rest where "decode_png png (frame_png crc ihdr shared control stream) control w = (Inr rgba, w1)"
    "decode_frames crc png ihdr shared fs w1 = (Inr rest, w')" "frames = \<lparr>df_control = control, df_rgba = rgba\<rparr> # rest"
    by (auto split: if_splits prod.splits sum.splits)
  with Cons.IH decode_png_size show ?case by (auto simp: p)
qed simp

lemma collect_chunk_length:
  "collect_chunk df st ty d whole = Inr st' \<Longrightarrow> length (compressed st') = length (compressed st)"
  by (auto simp: collect_chunk_def split: if_splits)

lemma collect_chunks_length:
  "collect_chunks df st rest = Inr st' \<Longrightarrow> length (compressed st') = length (compressed st)"
proof (induction df st rest rule: collect_chunks.induct)
  case (1 df st rest)
  show ?case
  proof (cases "rest = []")
    case True
    with 1(2) show ?thesis by (simp add: collect_chunks.simps)
  next
    case False
    with 1(2) obtain st1 where st1: "collect_chunk df st (take 4 (drop 4 rest)) (take (unat (read_u32 rest 0)) (drop 8 rest))
        (take (8 + unat (read_u32 rest 0) + 4) rest) = Inr st1"
      "collect_chunks df st1 (drop (8 + unat (read_u32 rest 0) + 4) rest) = Inr st'"
      by (auto simp: collect_chunks.simps [of df st rest] Let_def split: sum.splits)
    with 1(1) [OF False refl st1(1) st1(2)] collect_chunk_length show ?thesis by simp
  qed
qed

text \<open>What a successful decoding yields: the frames of the parsed description, in order, each inside the
  canvas and with exactly the pixels of its rectangle.\<close>

definition wf_decoded :: "decoded_animation \<Rightarrow> bool" where
  "wf_decoded a \<longleftrightarrow>
     0 < da_canvas_width a \<and> 0 < da_canvas_height a \<and> da_frames a \<noteq> []
     \<and> list_all (\<lambda>f. wf_frame (da_canvas_width a) (da_canvas_height a) (df_control f)
         \<and> rgba_size (fc_width (df_control f)) (fc_height (df_control f)) = Some (length (df_rgba f))) (da_frames a)"

lemma decode_apng_frames_parsed:
  assumes "decode_apng_frames crc png content w = (Inr a, w')"
  shows "\<exists>desc. parse_apng crc content = Inr desc \<and> map df_control (da_frames a) = apng_frames desc
    \<and> da_canvas_width a = canvas_width desc \<and> da_canvas_height a = canvas_height desc \<and> wf_decoded a"
proof -
  from assms obtain desc st frames where desc: "parse_apng crc content = Inr desc"
    and st: "collect_chunks (default_image_is_frame desc) (initial_streams (length (apng_frames desc)))
      (drop (length png_signature) content) = Inr st"
    and frames: "decode_frames crc png (ihdr_bytes st) (shared_chunks st) (zip (apng_frames desc) (compressed st)) w = (Inr frames, w')"
    and a: "a = \<lparr>da_canvas_width = canvas_width desc, da_canvas_height = canvas_height desc, da_frames = frames\<rparr>"
    by (auto simp: decode_apng_frames_def split: sum.splits prod.splits)
  have "length (compressed st) = length (apng_frames desc)"
    using collect_chunks_length [OF st] by (simp add: initial_streams_def)
  with decode_frames_controls [OF frames] have controls: "map df_control frames = apng_frames desc"
    and sizes: "list_all (\<lambda>f. rgba_size (fc_width (df_control f)) (fc_height (df_control f)) = Some (length (df_rgba f))) frames"
    by simp_all
  from parse_apng_wf [OF desc] have wf: "0 < canvas_width desc" "0 < canvas_height desc" "apng_frames desc \<noteq> []"
    "list_all (wf_frame (canvas_width desc) (canvas_height desc)) (map df_control frames)"
    by (auto simp: wf_description_def controls)
  from wf(3) have "frames \<noteq> []" by (auto simp flip: controls)
  with sizes wf have "wf_decoded a"
    by (auto simp: wf_decoded_def a list_all_iff)
  with desc controls a show ?thesis by simp
qed

section \<open>The streams of a serialised animation\<close>

lemma collect_chunks_chunk:
  assumes "length d \<le> maximum_chunk_length" and "length t = 4"
  shows "collect_chunks df st (chunk crc t d @ rest) =
    (case collect_chunk df st (bytes_of_string t) d (chunk crc t d) of Inl e \<Rightarrow> Inl e | Inr st' \<Rightarrow> collect_chunks df st' rest)"
proof -
  let ?c = "chunk crc t d @ rest"
  have size: "unat (read_u32 ?c 0) = length d"
    unfolding chunk_def append_assoc read_be32 using assms(1)
    by (simp add: maximum_chunk_length_def unsigned_of_nat take_bit_nat_eq_self)
  have len: "length (chunk crc t d) = 8 + length d + 4" using assms(2) by (simp add: chunk_def)
  have parts: "take 4 (drop 4 ?c) = bytes_of_string t" "take (length d) (drop 8 ?c) = d"
    unfolding chunk_def using assms(2) by simp_all
  have whole: "take (8 + length d + 4) ?c = chunk crc t d" "drop (8 + length d + 4) ?c = rest"
    unfolding len [symmetric] by simp_all
  have "?c \<noteq> []" by (simp add: chunk_def be32_def)
  then show ?thesis
    unfolding collect_chunks.simps [of df st ?c] Let_def size parts whole by (simp only: if_False)
qed

lemma collect_fdat:
  assumes "frame_index st < length (compressed st)"
    and "list_all (\<lambda>d. length d + 4 \<le> maximum_chunk_length) ds"
  shows "collect_chunks df st (encode_fdat crc n ds @ rest) =
    collect_chunks df (st\<lparr>compressed := (compressed st)[frame_index st := compressed st ! frame_index st @ concat ds]\<rparr>) rest"
  using assms
proof (induction ds arbitrary: st n)
  case Nil
  then show ?case by simp
next
  case (Cons d ds)
  let ?st = "st\<lparr>compressed := (compressed st)[frame_index st := compressed st ! frame_index st @ d]\<rparr>"
  have "collect_chunk df st (bytes_of_string ''fdAT'') (be32 n @ d) whole = Inr ?st" for whole
    using Cons.prems by (simp add: collect_chunk_def)
  then have "collect_chunks df st (encode_fdat crc n (d # ds) @ rest) = collect_chunks df ?st (encode_fdat crc (n + 1) ds @ rest)"
    using Cons.prems by (simp add: collect_chunks_chunk)
  also have "\<dots> = collect_chunks df (?st\<lparr>compressed := (compressed ?st)[frame_index ?st := compressed ?st ! frame_index ?st @ concat ds]\<rparr>) rest"
    by (rule Cons.IH) (use Cons.prems in simp_all)
  finally show ?case using Cons.prems by simp
qed

lemma collect_frames:
  assumes "compressed st = streams @ replicate (length fs) []"
    and "length streams = (if saw_frame_control st then Suc (frame_index st) else 0)"
    and "\<not> saw_frame_control st \<longrightarrow> frame_index st = 0" and "list_all (small_pieces \<circ> snd) fs"
  shows "\<exists>st'. collect_chunks df st (encode_frames crc n fs @ rest) = collect_chunks df st' rest
    \<and> compressed st' = streams @ map (concat \<circ> snd) fs \<and> ihdr_bytes st' = ihdr_bytes st
    \<and> shared_chunks st' = shared_chunks st \<and> before_image_data st' = before_image_data st"
  using assms
proof (induction fs arbitrary: st n streams)
  case Nil
  then show ?case by (intro exI [of _ st]) simp
next
  case (Cons p fs)
  obtain f ds where p: "p = (f, ds)" by (cases p)
  let ?st = "st\<lparr>frame_index := length streams, saw_frame_control := True\<rparr>"
  let ?st2 = "?st\<lparr>compressed := (streams @ [concat ds]) @ replicate (length fs) []\<rparr>"
  have "collect_chunk df st (bytes_of_string ''fcTL'') (encode_control f) whole = Inr ?st" for whole
    using Cons.prems(2,3) by (auto simp: collect_chunk_def)
  then have "collect_chunks df st (encode_frames crc n (p # fs) @ rest) =
      collect_chunks df ?st (encode_fdat crc (n + 1) ds @ encode_frames crc (n + 1 + of_nat (length ds)) fs @ rest)"
    by (simp add: p collect_chunks_chunk maximum_chunk_length_def)
  also have "\<dots> = collect_chunks df ?st2 (encode_frames crc (n + 1 + of_nat (length ds)) fs @ rest)"
    using Cons.prems(1,4) by (subst collect_fdat) (simp_all add: p small_pieces_def)
  finally have step: "collect_chunks df st (encode_frames crc n (p # fs) @ rest) =
      collect_chunks df ?st2 (encode_frames crc (n + 1 + of_nat (length ds)) fs @ rest)" .
  have "\<exists>st'. collect_chunks df ?st2 (encode_frames crc (n + 1 + of_nat (length ds)) fs @ rest) = collect_chunks df st' rest
    \<and> compressed st' = (streams @ [concat ds]) @ map (concat \<circ> snd) fs \<and> ihdr_bytes st' = ihdr_bytes ?st2
    \<and> shared_chunks st' = shared_chunks ?st2 \<and> before_image_data st' = before_image_data ?st2"
    by (rule Cons.IH) (use Cons.prems(4) in simp_all)
  then show ?case unfolding step by (simp add: p comp_def)
qed

lemma collect_idat:
  assumes "df \<longrightarrow> frame_index st < length (compressed st)" and "list_all (\<lambda>d. length d + 4 \<le> maximum_chunk_length) ds"
  shows "collect_chunks df st (concat (map (chunk crc ''IDAT'') ds) @ rest) =
    collect_chunks df (st\<lparr>before_image_data := (before_image_data st \<and> ds = []),
      compressed := (if df then (compressed st)[frame_index st := compressed st ! frame_index st @ concat ds] else compressed st)\<rparr>) rest"
  using assms
proof (induction ds arbitrary: st)
  case (Cons d ds)
  then show ?case by (cases df) (simp_all add: collect_chunks_chunk collect_chunk_def)
qed simp

lemma collect_shared:
  assumes "list_all shared_chunk shared" and "before_image_data st"
  shows "collect_chunks df st (encode_shared crc shared @ rest) =
    collect_chunks df (st\<lparr>shared_chunks := shared_chunks st @ encode_shared crc shared\<rparr>) rest"
  using assms
proof (induction shared arbitrary: st)
  case (Cons c shared)
  obtain t d where c: "c = (t, d)" by (cases c)
  with Cons.prems have "collect_chunk df st (bytes_of_string t) d whole = Inr (st\<lparr>shared_chunks := shared_chunks st @ whole\<rparr>)" for whole
    by (simp add: shared_chunk_def collect_chunk_def)
  moreover from Cons.prems c have "length t = 4" "length d \<le> maximum_chunk_length" by (simp_all add: shared_chunk_def)
  ultimately have "collect_chunks df st (encode_shared crc (c # shared) @ rest) =
      collect_chunks df (st\<lparr>shared_chunks := shared_chunks st @ chunk crc t d\<rparr>) (encode_shared crc shared @ rest)"
    by (simp add: encode_shared_def c collect_chunks_chunk)
  also have "\<dots> = collect_chunks df (st\<lparr>shared_chunks := (shared_chunks st @ chunk crc t d) @ encode_shared crc shared\<rparr>) rest"
    using Cons.IH [of "st\<lparr>shared_chunks := shared_chunks st @ chunk crc t d\<rparr>"] Cons.prems by simp
  finally show ?case by (simp add: encode_shared_def c)
qed (simp add: encode_shared_def)

lemma collect_end: "collect_chunks df st (chunk crc ''IEND'' []) = Inr (if before_image_data st
    then st\<lparr>shared_chunks := shared_chunks st @ chunk crc ''IEND'' []\<rparr> else st)"
  using collect_chunks_chunk [of "[]" "''IEND''" df st crc "[]"]
  by (simp add: maximum_chunk_length_def collect_chunk_def collect_chunks.simps [of _ _ "[]"]) (simp add: bytes_of_string_def)

text \<open>The data of the frames of an animation: that of the default image belongs to one only if that
  image is a frame.\<close>

definition frame_data :: "apng_description \<Rightarrow> bytes list \<Rightarrow> bytes list list \<Rightarrow> bytes list" where
  "frame_data desc first others =
     (if default_image_is_frame desc then concat first # map concat others else map concat others)"

lemma map_concat_zip: "length others = length gs \<Longrightarrow> map (concat \<circ> snd) (zip gs others) = map concat others"
  by (simp flip: map_map)

lemma collect_encoded:
  assumes "apng_parts desc tail shared first others"
  shows "\<exists>st. collect_chunks (default_image_is_frame desc) (initial_streams (length (apng_frames desc)))
      (drop (length png_signature) (encode_apng crc desc tail shared first others)) = Inr st
    \<and> ihdr_bytes st = be32 (canvas_width desc) @ be32 (canvas_height desc) @ tail \<and> shared_chunks st = encode_shared crc shared
    \<and> compressed st = frame_data desc first others"
proof -
  obtain f fs where frames: "apng_frames desc = f # fs"
    using assms by (cases "apng_frames desc") (auto simp: apng_parts_def wf_description_def)
  from assms have tail: "length tail = 5" and shared: "list_all shared_chunk shared"
    and first: "first \<noteq> []" "list_all (\<lambda>d. length d + 4 \<le> maximum_chunk_length) first" and others: "list_all small_pieces others"
    by (simp_all add: apng_parts_def small_pieces_def)
  let ?df = "default_image_is_frame desc" and ?N = "Suc (length fs)"
  let ?ihdr = "be32 (canvas_width desc) @ be32 (canvas_height desc) @ tail"
  let ?st1 = "(initial_streams ?N)\<lparr>ihdr_bytes := ?ihdr, saw_frame_control := ?df\<rparr>"
  let ?st2 = "?st1\<lparr>shared_chunks := encode_shared crc shared, before_image_data := False,
      compressed := (if ?df then concat first # replicate (length fs) [] else replicate ?N [])\<rparr>"
  have z: "list_all (small_pieces \<circ> snd) (zip gs others)" for gs
    using others by (auto simp: list_all_iff dest: set_zip_rightD)
  have "collect_chunk ?df (initial_streams ?N) (bytes_of_string ''IHDR'') ?ihdr whole =
      Inr ((initial_streams ?N)\<lparr>ihdr_bytes := ?ihdr\<rparr>)" for whole
    using tail by (simp add: collect_chunk_def initial_streams_def overwrite_def)
  moreover have "collect_chunk ?df st (bytes_of_string ''acTL'') d whole = Inr st" for st d whole
    by (simp add: collect_chunk_def tags_distinct(3,5,8) [symmetric])
  moreover have "collect_chunk ?df ((initial_streams ?N)\<lparr>ihdr_bytes := ?ihdr\<rparr>) (bytes_of_string ''fcTL'') d whole =
      Inr ((initial_streams ?N)\<lparr>ihdr_bytes := ?ihdr, saw_frame_control := True\<rparr>)" for d whole
    by (simp add: collect_chunk_def initial_streams_def)
  moreover have "(initial_streams ?N)\<lparr>ihdr_bytes := ?ihdr, saw_frame_control := False\<rparr> = (initial_streams ?N)\<lparr>ihdr_bytes := ?ihdr\<rparr>"
    by (simp add: initial_streams_def)
  ultimately have "collect_chunks ?df (initial_streams ?N) (drop (length png_signature) (encode_apng crc desc tail shared first others)) =
      collect_chunks ?df ?st1 (encode_shared crc shared @ concat (map (chunk crc ''IDAT'') first)
        @ (if ?df then encode_frames crc 1 (zip fs others) else encode_frames crc 0 (zip (f # fs) others)) @ chunk crc ''IEND'' [])"
    using tail by (cases ?df) (simp_all add: encode_apng_def frames collect_chunks_chunk maximum_chunk_length_def)
  also have "\<dots> = collect_chunks ?df ?st2
        ((if ?df then encode_frames crc 1 (zip fs others) else encode_frames crc 0 (zip (f # fs) others)) @ chunk crc ''IEND'' [])"
    using first shared by (simp add: collect_shared collect_idat initial_streams_def)
  finally have run: "collect_chunks ?df (initial_streams ?N) (drop (length png_signature) (encode_apng crc desc tail shared first others)) =
      collect_chunks ?df ?st2
        ((if ?df then encode_frames crc 1 (zip fs others) else encode_frames crc 0 (zip (f # fs) others)) @ chunk crc ''IEND'' [])" .
  show ?thesis
  proof (cases ?df)
    case True
    with assms frames have len: "length others = length fs" by (simp add: apng_parts_def)
    have "\<exists>st'. collect_chunks True ?st2 (encode_frames crc 1 (zip fs others) @ chunk crc ''IEND'' []) = collect_chunks True st' (chunk crc ''IEND'' [])
      \<and> compressed st' = [concat first] @ map (concat \<circ> snd) (zip fs others) \<and> ihdr_bytes st' = ihdr_bytes ?st2
      \<and> shared_chunks st' = shared_chunks ?st2 \<and> before_image_data st' = before_image_data ?st2"
      by (rule collect_frames) (use True len z in \<open>simp_all add: initial_streams_def\<close>)
    with run True frames map_concat_zip [OF len] show ?thesis
      by (auto simp: collect_end frame_data_def)
  next
    case False
    with assms frames have len: "length others = length (f # fs)" by (simp add: apng_parts_def)
    have "\<exists>st'. collect_chunks False ?st2 (encode_frames crc 0 (zip (f # fs) others) @ chunk crc ''IEND'' []) = collect_chunks False st' (chunk crc ''IEND'' [])
      \<and> compressed st' = [] @ map (concat \<circ> snd) (zip (f # fs) others) \<and> ihdr_bytes st' = ihdr_bytes ?st2
      \<and> shared_chunks st' = shared_chunks ?st2 \<and> before_image_data st' = before_image_data ?st2"
      by (rule collect_frames) (use False len z in \<open>simp_all add: initial_streams_def\<close>)
    with run False frames map_concat_zip [OF len] show ?thesis
      by (auto simp: collect_end frame_data_def)
  qed
qed

section \<open>The still images of an animation\<close>

text \<open>The PNG of one frame, as the format has it: a header of the size of the frame, which has the
  other fields of the header of the animation, its ancillary chunks, one chunk with all the image data, and
  the end.\<close>

definition still_png :: "(bytes \<Rightarrow> u32) \<Rightarrow> bytes \<Rightarrow> (string \<times> bytes) list \<Rightarrow> u32 \<Rightarrow> u32 \<Rightarrow> bytes \<Rightarrow> bytes" where
  "still_png crc tail shared width height stream =
     png_signature @ chunk crc ''IHDR'' (be32 width @ be32 height @ tail) @ encode_shared crc shared
     @ chunk crc ''IDAT'' stream @ chunk crc ''IEND'' []"

text \<open>The frames that follow from those so far: the next image is handed to the library as a PNG of
  its own, unless something has failed before.\<close>

definition add_still ::
    "(bytes \<Rightarrow> u32) \<Rightarrow> 'w png_api \<Rightarrow> bytes \<Rightarrow> (string \<times> bytes) list \<Rightarrow> (apng_decode_error + decoded_frame list) \<times> 'w
      \<Rightarrow> apng_frame_control \<times> bytes \<Rightarrow> (apng_decode_error + decoded_frame list) \<times> 'w" where
  "add_still crc png tail shared = (\<lambda>(so_far, w) (control, stream).
     case so_far of
       Inl e \<Rightarrow> (Inl e, w)
     | Inr frames \<Rightarrow>
         if stream = [] then (Inl Dec_frame_stream, w)
         else
           (case decode_png png (still_png crc tail shared (fc_width control) (fc_height control) stream) control w of
              (Inl e, w') \<Rightarrow> (Inl e, w')
            | (Inr pixels, w') \<Rightarrow> (Inr (frames @ [\<lparr>df_control = control, df_rgba = pixels\<rparr>]), w')))"

lemma frame_png_still:
  assumes "length tail = 5"
  shows "frame_png crc (be32 W @ be32 H @ tail) (encode_shared crc shared) control stream =
    still_png crc tail shared (fc_width control) (fc_height control) stream"
proof -
  have "overwrite (overwrite (be32 W @ be32 H @ tail) 0 (be32 w)) 4 (be32 h) = be32 w @ be32 h @ tail" for w h
    using assms by (simp add: overwrite_def)
  then show ?thesis by (simp add: frame_png_def still_png_def)
qed

lemma add_still_failed: "foldl (add_still crc png tail shared) (Inl e, w) fs = (Inl e, w)"
  by (induction fs) (auto simp: add_still_def)

lemma decode_frames_stills:
  assumes "length tail = 5"
  shows "foldl (add_still crc png tail shared) (Inr frames, w) fs =
    (case decode_frames crc png (be32 W @ be32 H @ tail) (encode_shared crc shared) fs w of
       (Inl e, w') \<Rightarrow> (Inl e, w') | (Inr later, w') \<Rightarrow> (Inr (frames @ later), w'))"
proof (induction fs arbitrary: frames w)
  case (Cons p fs)
  obtain control stream where p: "p = (control, stream)" by (cases p)
  show ?case
    by (auto simp: p frame_png_still [OF assms] add_still_def [of crc png tail shared] add_still_failed [unfolded add_still_def]
        Cons.IH [unfolded add_still_def] split: prod.splits sum.splits)
qed simp

section \<open>Properties\<close>

text \<open>C30. A decoded animation is well formed: the canvas is not empty, there is a frame, and every
  frame is a non-empty rectangle inside the canvas, with a known disposal and blend operation, a delay
  denominator that is not zero and exactly four bytes for each of its pixels; its frame controls are those
  of the parsed description, in order.\<close>

theorem decode_apng_frames_wf:
  assumes "decode_apng_frames crc png content w = (Inr a, w')"
  shows "wf_decoded a \<and> (\<exists>desc. parse_apng crc content = Inr desc \<and> map df_control (da_frames a) = apng_frames desc)"
  using decode_apng_frames_parsed [OF assms] by blast

text \<open>C29. A serialised animation is taken apart into its frames, in order, until one fails: the PNG
  handed to the library for a frame has a header with the size of that frame and the other fields of the
  header of the animation, then the ancillary chunks that the serialisation put in front of the image data,
  and as its image data the concatenation of the pieces of that frame's data chunks without their sequence
  numbers. This holds for any number of frames, pieces and ancillary chunks, and whether the default image
  is the first frame or no frame, in which case its data is in no frame.\<close>

theorem decode_encoded_animation:
  assumes "apng_parts desc tail shared first others"
  shows "decode_apng_frames crc png (encode_apng crc desc tail shared first others) w =
    (case foldl (add_still crc png tail shared) (Inr [], w) (zip (apng_frames desc) (frame_data desc first others)) of
       (Inl e, w') \<Rightarrow> (Inl e, w')
     | (Inr frames, w') \<Rightarrow>
         (Inr \<lparr>da_canvas_width = canvas_width desc, da_canvas_height = canvas_height desc, da_frames = frames\<rparr>, w'))"
proof -
  have tail: "length tail = 5" using assms by (simp add: apng_parts_def)
  show ?thesis
    using collect_encoded [OF assms, of crc] encode_apng_parses [OF assms, of crc]
    by (auto simp: decode_apng_frames_def decode_frames_stills [OF tail, of crc png shared "[]" w _ "canvas_width desc" "canvas_height desc"]
        split: prod.splits sum.splits)
qed

text \<open>A library that decodes every PNG to black pixels of the size in its header.\<close>

definition sample_png :: "(u32 \<times> u32) png_api" where
  "sample_png = \<lparr>png_begin = (\<lambda>content w. (Some (read_u32 content 16, read_u32 content 20), (read_u32 content 16, read_u32 content 20))),
     png_size = (\<lambda>(w, h). unat w * unat h * 4), png_finish = (\<lambda>n w. (Some [], w)), png_free = id\<rparr>"

lemma black_pixel: "replicate 4 (0 :: byte) = [0, 0, 0, 0]"
  by (simp add: numeral_eq_Suc)

text \<open>The two frames of the sample behind a palette.\<close>

definition sample_shared :: "(string \<times> bytes) list" where
  "sample_shared = [(''PLTE'', [1, 2, 3])]"

lemma sample_parts: "apng_parts sample_animation [8, 6, 0, 0, 0] sample_shared [[1]] [[[4]]]"
  using sample_animation_wf
  by (simp add: apng_parts_def sample_animation_def sample_frame_def small_pieces_def maximum_chunk_length_def sample_shared_def
      shared_chunk_def) (simp add: bytes_of_string_def)

lemma sample_stills:
  "foldl (add_still (\<lambda>_. 7) sample_png [8, 6, 0, 0, 0] sample_shared) (Inr [], w)
     (zip (apng_frames sample_animation) (frame_data sample_animation [[1]] [[[4]]])) =
   (Inr [\<lparr>df_control = sample_frame 0 0, df_rgba = [0, 0, 0, 0]\<rparr>, \<lparr>df_control = sample_frame 1 1, df_rgba = [0, 0, 0, 0]\<rparr>],
    (1, 1))"
  by (simp add: sample_animation_def sample_frame_def decode_png_def sample_png_def add_still_def still_png_def Let_def chunk_def
      png_signature_def be32_def frame_data_def bytes_of_string_def read_u32_def rgba_size_def size_max_def fit_buffer_def black_pixel)

theorem decode_encoded_animation_witness:
  "fst (decode_apng_frames (\<lambda>_. 7) sample_png (encode_apng (\<lambda>_. 7) sample_animation [8, 6, 0, 0, 0] sample_shared [[1]] [[[4]]]) (0, 0)) =
     Inr \<lparr>da_canvas_width = 2, da_canvas_height = 1,
       da_frames = [\<lparr>df_control = sample_frame 0 0, df_rgba = [0, 0, 0, 0]\<rparr>, \<lparr>df_control = sample_frame 1 1, df_rgba = [0, 0, 0, 0]\<rparr>]\<rparr>"
  using decode_encoded_animation [OF sample_parts, of "\<lambda>_. 7" sample_png "(0, 0)"] sample_stills [of "(0, 0)"]
  by (simp add: sample_animation_def)

definition sample_decoded :: decoded_animation where
  "sample_decoded = \<lparr>da_canvas_width = 2, da_canvas_height = 1,
     da_frames = [\<lparr>df_control = sample_frame 0 0, df_rgba = [0, 0, 0, 0]\<rparr>, \<lparr>df_control = sample_frame 1 1, df_rgba = [0, 0, 0, 0]\<rparr>]\<rparr>"

lemma sample_animation_decodes:
  "decode_apng_frames (\<lambda>_. 7) sample_png (encode_apng (\<lambda>_. 7) sample_animation [8, 6, 0, 0, 0] sample_shared [[1]] [[[4]]]) w =
     (Inr sample_decoded, (1, 1))"
proof -
  let ?c = "encode_apng (\<lambda>_. 7) sample_animation [8, 6, 0, 0, 0] sample_shared [[1]] [[[4]]]"
  obtain st where "collect_chunks True (initial_streams (Suc (Suc 0))) (drop (length png_signature) ?c) = Inr st"
    "ihdr_bytes st = be32 2 @ be32 1 @ [8, 6, 0, 0, 0]" "shared_chunks st = encode_shared (\<lambda>_. 7) sample_shared"
    "compressed st = frame_data sample_animation [[1]] [[[4]]]"
    using collect_encoded [OF sample_parts, of "\<lambda>_. 7"] by (auto simp: sample_animation_def)
  with encode_apng_parses [OF sample_parts, of "\<lambda>_. 7"] sample_stills [of w]
    decode_frames_stills [of "[8, 6, 0, 0, 0]" "\<lambda>_. 7" sample_png sample_shared "[]" w _ 2 1]
  show ?thesis
    by (auto simp: decode_apng_frames_def sample_animation_def sample_decoded_def split: prod.splits sum.splits)
qed

theorem decode_apng_frames_wf_witness: "wf_decoded sample_decoded"
  using decode_apng_frames_wf [OF sample_animation_decodes] by blast

end
