(* ===== verification/Mime.thy ===== *)
theory Mime
  imports Prelude
begin

text \<open>
  \<^verbatim>\<open>src/media/mime.cpp\<close>: the media type of a body from its first 512 bytes, with the
  AVIF brand scan of \<^verbatim>\<open>src/media/classification.cpp\<close> that it starts with.
\<close>

datatype mime_type =
    Image_avif | Image_ico | Image_x_icon | Image_bmp | Image_gif | Image_webp | Image_png | Image_jpeg
  | Image_jxl | Image_svg_xml | Application_pdf | Application_postscript | Audio_mpeg | Application_ogg
  | Video_webm | Video_avi | Audio_wave | Application_zip | Application_x_gzip | Application_wasm
  | Text_html_utf8 | Text_xml_utf8 | Text_plain_utf8 | Text_plain_utf16be | Text_plain_utf16le | Video_mp4
  | Font_ttf | Font_otf | Font_collection | Font_woff | Font_woff2 | Application_eot
  | Application_octet_stream

definition maximum_mime_sample_bytes :: nat where
  "maximum_mime_sample_bytes = 512"

section \<open>The AVIF brand scan\<close>

text \<open>The shift loop of \<^verbatim>\<open>read_u32_be\<close>; the caller has checked that four bytes
  are there.\<close>

definition read_u32_be :: "bytes \<Rightarrow> nat \<Rightarrow> u32" where
  "read_u32_be content offset =
     foldl (\<lambda>v i. or (push_bit 8 v) (ucast (content ! (offset + i)))) 0 [0..<4]"

definition matches_ascii :: "bytes \<Rightarrow> nat \<Rightarrow> string \<Rightarrow> bool" where
  "matches_ascii content offset t \<longleftrightarrow>
     \<not> (length content < offset \<or> length content - offset < length t)
     \<and> take (length t) (drop offset content) = bytes_of_string t"

function brand_scan :: "bytes \<Rightarrow> nat \<Rightarrow> nat \<Rightarrow> bool" where
  "brand_scan content box_size offset =
     (if offset \<le> box_size - 4
      then if matches_ascii content offset ''avis'' then True else brand_scan content box_size (offset + 4)
      else False)"
  by pat_completeness auto
termination
  by (relation "measure (\<lambda>(content, box_size, offset). box_size + 4 - offset)") auto

declare brand_scan.simps [simp del]

definition is_animated_avif :: "bytes \<Rightarrow> bool" where
  "is_animated_avif content =
     (if length content < 16 then False
      else
        let box_size = unat (read_u32_be content 0)
        in if box_size < 16 \<or> length content < box_size \<or> \<not> matches_ascii content 4 ''ftyp'' then False
           else if matches_ascii content 8 ''avis'' then True
           else brand_scan content box_size 16)"

section \<open>The signature scan\<close>

abbreviation begins :: "bytes \<Rightarrow> string \<Rightarrow> bool" where
  "begins sample t \<equiv> starts_with sample (bytes_of_string t)"

definition ascii_whitespace :: "byte \<Rightarrow> bool" where
  "ascii_whitespace b \<longleftrightarrow> b = 0x09 \<or> b = 0x0A \<or> b = 0x0C \<or> b = 0x0D \<or> b = 0x20"

definition byte_lower :: "byte \<Rightarrow> byte" where
  "byte_lower b = (if 0x41 \<le> b \<and> b \<le> 0x5A then b - 0x41 + 0x61 else b)"

fun skip_ascii_whitespace :: "bytes \<Rightarrow> bytes" where
  "skip_ascii_whitespace [] = []"
| "skip_ascii_whitespace (b # bs) = (if ascii_whitespace b then skip_ascii_whitespace bs else b # bs)"

definition html_prefix :: "bytes \<Rightarrow> string \<Rightarrow> bool \<Rightarrow> bool" where
  "html_prefix sample tag require_boundary =
     (if length sample < length tag then False
      else if map byte_lower (take (length tag) sample) \<noteq> map byte_lower (bytes_of_string tag) then False
      else if \<not> require_boundary then True
      else if length sample = length tag then False
      else let n = sample ! length tag in ascii_whitespace n \<or> n = 0x3E)"

definition html_tags :: "string list" where
  "html_tags = [''<!DOCTYPE HTML'', ''<HTML'', ''<HEAD'', ''<SCRIPT'', ''<IFRAME'', ''<H1'', ''<DIV'', ''<FONT'',
     ''<TABLE'', ''<A'', ''<STYLE'', ''<TITLE'', ''<B'', ''<BODY'', ''<BR'', ''<P'']"

definition is_html :: "bytes \<Rightarrow> bool" where
  "is_html sample =
     (let s = skip_ascii_whitespace sample
      in if list_ex (\<lambda>tag. html_prefix s tag True) html_tags then True else html_prefix s ''<!--'' False)"

text \<open>The position of the closing mark at or behind an offset.\<close>

function markup_end :: "bytes \<Rightarrow> bytes \<Rightarrow> nat \<Rightarrow> nat option" where
  "markup_end sample suffix offset =
     (if offset + length suffix \<le> length sample
      then if starts_with (drop offset sample) suffix then Some offset
           else markup_end sample suffix (Suc offset)
      else None)"
  by pat_completeness auto
termination
  by (relation "measure (\<lambda>(sample, suffix, offset). Suc (length sample) - offset)") auto

declare markup_end.simps [simp del]

definition consume_markup :: "bytes \<Rightarrow> string \<Rightarrow> string \<Rightarrow> bool \<times> bytes" where
  "consume_markup sample prefix suffix =
     (if \<not> begins sample prefix then (False, sample)
      else case markup_end sample (bytes_of_string suffix) (length prefix) of
             Some offset \<Rightarrow> (True, skip_ascii_whitespace (drop (offset + length suffix) sample))
           | None \<Rightarrow> (True, []))"

lemma skip_ascii_whitespace_length: "length (skip_ascii_whitespace s) \<le> length s"
  by (induction s) auto

lemma markup_end_ge: "markup_end sample suffix k = Some m \<Longrightarrow> k \<le> m"
proof (induction sample suffix k rule: markup_end.induct)
  case (1 sample suffix offset)
  then show ?case by (simp add: markup_end.simps [of _ _ offset] split: if_splits)
qed

lemma consume_markup_shorter:
  assumes "consume_markup sample prefix suffix = (True, rest)" and "prefix \<noteq> []"
  shows "length rest < length sample"
proof -
  from assms(1) have begins: "begins sample prefix" by (auto simp: consume_markup_def split: if_splits)
  with assms(2) have size: "0 < length prefix" "length prefix \<le> length sample" by (auto dest: starts_with_length)
  show ?thesis
  proof (cases "markup_end sample (bytes_of_string suffix) (length prefix)")
    case None
    with begins size assms(1) show ?thesis by (auto simp: consume_markup_def)
  next
    case (Some offset)
    then have "length prefix \<le> offset" by (rule markup_end_ge)
    moreover have "rest = skip_ascii_whitespace (drop (offset + length suffix) sample)"
      using begins assms(1) Some by (simp add: consume_markup_def)
    moreover have "length sample - (offset + length suffix) < length sample"
      using size calculation(1) by linarith
    ultimately show ?thesis
      using skip_ascii_whitespace_length [of "drop (offset + length suffix) sample"] by simp
  qed
qed

text \<open>The loop of \<^verbatim>\<open>is_svg\<close>: \<open>None\<close> when it returns false.\<close>

function skip_markup :: "bytes \<Rightarrow> bytes option" where
  "skip_markup sample =
     (case consume_markup sample ''<!--'' ''-->'' of
        (True, rest) \<Rightarrow> if rest = [] then None else skip_markup rest
      | (False, _) \<Rightarrow>
          (case consume_markup sample ''<?'' ''?>'' of
             (True, rest) \<Rightarrow> if rest = [] then None else skip_markup rest
           | (False, _) \<Rightarrow> Some sample))"
  by pat_completeness auto
termination
  by (relation "measure length") (auto intro: consume_markup_shorter)

declare skip_markup.simps [simp del]

definition utf8_bom :: bytes where "utf8_bom = [0xEF, 0xBB, 0xBF]"

definition is_svg :: "bytes \<Rightarrow> bool" where
  "is_svg sample =
     (let s = skip_ascii_whitespace (if starts_with sample utf8_bom then drop (length utf8_bom) sample else sample)
      in case skip_markup s of
           None \<Rightarrow> False
         | Some rest \<Rightarrow>
             if \<not> begins rest ''<svg'' \<or> length rest \<le> 4 then False
             else let b = rest ! 4 in ascii_whitespace b \<or> b = 0x3E \<or> b = 0x2F)"

definition riff_type :: "bytes \<Rightarrow> string \<Rightarrow> bool" where
  "riff_type sample t \<longleftrightarrow> 12 \<le> length sample \<and> begins sample ''RIFF'' \<and> begins (drop 8 sample) t"

definition mp4_brands :: "string list" where
  "mp4_brands = [''mp41'', ''mp42'', ''isom'', ''iso2'', ''avc1'', ''M4V '', ''M4A '', ''3gp5'']"

definition is_mp4 :: "bytes \<Rightarrow> bool" where
  "is_mp4 sample =
     (if length sample < 12 \<or> \<not> begins (drop 4 sample) ''ftyp'' then False
      else list_ex (\<lambda>brand. begins (drop 8 sample) brand) mp4_brands)"

definition binary_control :: "byte \<Rightarrow> bool" where
  "binary_control b \<longleftrightarrow> b \<le> 0x08 \<or> b = 0x0B \<or> (0x0E \<le> b \<and> b \<le> 0x1A) \<or> (0x1C \<le> b \<and> b \<le> 0x1F)"

definition has_binary_control :: "bytes \<Rightarrow> bool" where
  "has_binary_control sample \<longleftrightarrow> list_ex binary_control sample"

definition ico_signature :: bytes where "ico_signature = [0x00, 0x00, 0x01, 0x00]"
definition png_magic :: bytes where "png_magic = [0x89, 0x50, 0x4E, 0x47, 0x0D, 0x0A, 0x1A, 0x0A]"
definition jpeg_signature :: bytes where "jpeg_signature = [0xFF, 0xD8, 0xFF]"
definition jxl_codestream :: bytes where "jxl_codestream = [0xFF, 0x0A]"
definition jxl_container :: bytes where
  "jxl_container = [0x00, 0x00, 0x00, 0x0C, 0x4A, 0x58, 0x4C, 0x20, 0x0D, 0x0A, 0x87, 0x0A]"
definition ogg_signature :: bytes where "ogg_signature = [0x4F, 0x67, 0x67, 0x53, 0x00]"
definition webm_signature :: bytes where "webm_signature = [0x1A, 0x45, 0xDF, 0xA3]"
definition zip_signature :: bytes where "zip_signature = [0x50, 0x4B, 0x03, 0x04]"
definition gzip_signature :: bytes where "gzip_signature = [0x1F, 0x8B, 0x08]"
definition wasm_signature :: bytes where "wasm_signature = [0x00, 0x61, 0x73, 0x6D]"
definition utf16be_bom :: bytes where "utf16be_bom = [0xFE, 0xFF]"
definition utf16le_bom :: bytes where "utf16le_bom = [0xFF, 0xFE]"
definition truetype_signature :: bytes where "truetype_signature = [0x00, 0x01, 0x00, 0x00]"

definition sniff_standard :: "bytes \<Rightarrow> mime_type" where
  "sniff_standard sample =
     (if starts_with sample ico_signature then Image_x_icon
      else if begins sample ''BM'' then Image_bmp
      else if begins sample ''GIF87a'' \<or> begins sample ''GIF89a'' then Image_gif
      else if 14 \<le> length sample \<and> riff_type sample ''WEBP'' \<and> begins (drop 12 sample) ''VP'' then Image_webp
      else if starts_with sample png_magic then Image_png
      else if starts_with sample jpeg_signature then Image_jpeg
      else if starts_with sample jxl_codestream \<or> starts_with sample jxl_container then Image_jxl
      else if begins sample ''%PDF-'' then Application_pdf
      else if begins sample ''%!PS-Adobe-'' then Application_postscript
      else if begins sample ''ID3'' then Audio_mpeg
      else if starts_with sample ogg_signature then Application_ogg
      else if starts_with sample webm_signature then Video_webm
      else if riff_type sample ''AVI '' then Video_avi
      else if riff_type sample ''WAVE'' then Audio_wave
      else if starts_with sample zip_signature then Application_zip
      else if starts_with sample gzip_signature then Application_x_gzip
      else if starts_with sample wasm_signature then Application_wasm
      else if is_svg sample then Image_svg_xml
      else if is_html sample then Text_html_utf8
      else if begins (skip_ascii_whitespace sample) ''<?xml'' then Text_xml_utf8
      else if starts_with sample utf8_bom then Text_plain_utf8
      else if starts_with sample utf16be_bom then Text_plain_utf16be
      else if starts_with sample utf16le_bom then Text_plain_utf16le
      else if is_mp4 sample then Video_mp4
      else if starts_with sample truetype_signature then Font_ttf
      else if begins sample ''OTTO'' then Font_otf
      else if begins sample ''ttcf'' then Font_collection
      else if begins sample ''wOFF'' then Font_woff
      else if begins sample ''wOF2'' then Font_woff2
      else if 36 \<le> length sample \<and> sample ! 34 = 0x4C \<and> sample ! 35 = 0x50 then Application_eot
      else if has_binary_control sample then Application_octet_stream else Text_plain_utf8)"

definition sniff_mime :: "bytes \<Rightarrow> mime_type" where
  "sniff_mime content =
     (if is_animated_avif content then Image_avif
      else
        let sample = take maximum_mime_sample_bytes content;
            detected = sniff_standard sample
        in if detected = Application_octet_stream \<and> 12 \<le> length sample \<and> begins (drop 4 sample) ''ftypavif''
           then Image_avif else detected)"

fun mime_type_name :: "mime_type \<Rightarrow> string" where
  "mime_type_name Image_avif = ''image/avif''"
| "mime_type_name Image_ico = ''image/ico''"
| "mime_type_name Image_x_icon = ''image/x-icon''"
| "mime_type_name Image_bmp = ''image/bmp''"
| "mime_type_name Image_gif = ''image/gif''"
| "mime_type_name Image_webp = ''image/webp''"
| "mime_type_name Image_png = ''image/png''"
| "mime_type_name Image_jpeg = ''image/jpeg''"
| "mime_type_name Image_jxl = ''image/jxl''"
| "mime_type_name Image_svg_xml = ''image/svg+xml''"
| "mime_type_name Application_pdf = ''application/pdf''"
| "mime_type_name Application_postscript = ''application/postscript''"
| "mime_type_name Audio_mpeg = ''audio/mpeg''"
| "mime_type_name Application_ogg = ''application/ogg''"
| "mime_type_name Video_webm = ''video/webm''"
| "mime_type_name Video_avi = ''video/avi''"
| "mime_type_name Audio_wave = ''audio/wave''"
| "mime_type_name Application_zip = ''application/zip''"
| "mime_type_name Application_x_gzip = ''application/x-gzip''"
| "mime_type_name Application_wasm = ''application/wasm''"
| "mime_type_name Text_html_utf8 = ''text/html; charset=utf-8''"
| "mime_type_name Text_xml_utf8 = ''text/xml; charset=utf-8''"
| "mime_type_name Text_plain_utf8 = ''text/plain; charset=utf-8''"
| "mime_type_name Text_plain_utf16be = ''text/plain; charset=utf-16be''"
| "mime_type_name Text_plain_utf16le = ''text/plain; charset=utf-16le''"
| "mime_type_name Video_mp4 = ''video/mp4''"
| "mime_type_name Font_ttf = ''font/ttf''"
| "mime_type_name Font_otf = ''font/otf''"
| "mime_type_name Font_collection = ''font/collection''"
| "mime_type_name Font_woff = ''font/woff''"
| "mime_type_name Font_woff2 = ''font/woff2''"
| "mime_type_name Application_eot = ''application/vnd.ms-fontobject''"
| "mime_type_name Application_octet_stream = ''application/octet-stream''"

section \<open>The signature table\<close>

text \<open>
  The table of section 5.1 of \<^verbatim>\<open>SPECIFICATION.md\<close>: a pattern lists the leading bytes
  of a body, \<open>None\<close> for a wildcard.
\<close>

type_synonym pattern = "byte option list"

definition literal :: "bytes \<Rightarrow> pattern" where
  "literal bs = map Some bs"

definition riff_pattern :: "string \<Rightarrow> pattern" where
  "riff_pattern t = literal (bytes_of_string ''RIFF'') @ replicate 4 None @ literal (bytes_of_string t)"

definition matches_pattern :: "bytes \<Rightarrow> pattern \<Rightarrow> bool" where
  "matches_pattern s p \<longleftrightarrow>
     length p \<le> length s \<and> list_all2 (\<lambda>q b. q = None \<or> q = Some b) p (take (length p) s)"

definition signature_table :: "(pattern \<times> mime_type) list" where
  "signature_table =
     [(literal [0x00, 0x00, 0x01, 0x00], Image_x_icon),
      (literal (bytes_of_string ''BM''), Image_bmp),
      (literal (bytes_of_string ''GIF87a''), Image_gif),
      (literal (bytes_of_string ''GIF89a''), Image_gif),
      (riff_pattern ''WEBPVP'', Image_webp),
      (literal [0x89, 0x50, 0x4E, 0x47, 0x0D, 0x0A, 0x1A, 0x0A], Image_png),
      (literal [0xFF, 0xD8, 0xFF], Image_jpeg),
      (literal [0xFF, 0x0A], Image_jxl),
      (literal [0x00, 0x00, 0x00, 0x0C, 0x4A, 0x58, 0x4C, 0x20, 0x0D, 0x0A, 0x87, 0x0A], Image_jxl),
      (literal (bytes_of_string ''%PDF-''), Application_pdf),
      (literal (bytes_of_string ''%!PS-Adobe-''), Application_postscript),
      (literal (bytes_of_string ''ID3''), Audio_mpeg),
      (literal (bytes_of_string ''OggS'' @ [0x00]), Application_ogg),
      (literal [0x1A, 0x45, 0xDF, 0xA3], Video_webm),
      (riff_pattern ''AVI '', Video_avi),
      (riff_pattern ''WAVE'', Audio_wave),
      (literal (bytes_of_string ''PK'' @ [0x03, 0x04]), Application_zip),
      (literal [0x1F, 0x8B, 0x08], Application_x_gzip),
      (literal [0x00, 0x61, 0x73, 0x6D], Application_wasm)]"

text \<open>Two patterns clash when some position asks for different bytes.\<close>

definition clash :: "pattern \<Rightarrow> pattern \<Rightarrow> bool" where
  "clash p q \<longleftrightarrow> list_ex (\<lambda>(x, y). x \<noteq> None \<and> y \<noteq> None \<and> x \<noteq> y) (zip p q)"

fun first_match :: "(pattern \<times> mime_type) list \<Rightarrow> mime_type \<Rightarrow> bytes \<Rightarrow> mime_type" where
  "first_match [] t s = t"
| "first_match ((p, u) # rows) t s = (if matches_pattern s p then u else first_match rows t s)"

lemma matches_patternD:
  assumes "matches_pattern s p" and "i < length p"
  shows "i < length s \<and> (p ! i = None \<or> p ! i = Some (s ! i))"
  using assms by (auto simp: matches_pattern_def list_all2_conv_all_nth)

lemma clash_exclusive:
  assumes "clash p q" and "matches_pattern s p"
  shows "\<not> matches_pattern s q"
proof
  assume q: "matches_pattern s q"
  from assms(1) obtain x y where "(x, y) \<in> set (zip p q)" "x \<noteq> None" "y \<noteq> None" "x \<noteq> y"
    by (auto simp: clash_def list_ex_iff)
  then obtain i where "i < length p" "i < length q" "p ! i \<noteq> None" "q ! i \<noteq> None" "p ! i \<noteq> q ! i"
    by (metis in_set_zip fst_conv snd_conv)
  with matches_patternD [OF assms(2), of i] matches_patternD [OF q, of i] show False by auto
qed

text \<open>In a table whose rows clash unless they agree on the type, the order does not matter.\<close>

lemma first_match_iff:
  assumes "list_all (\<lambda>(p, t). list_all (\<lambda>(q, u). t = u \<or> clash p q) rows) rows"
    and "t \<in> snd ` set rows" and "t \<noteq> d"
  shows "first_match rows d s = t \<longleftrightarrow> (\<exists>p. (p, t) \<in> set rows \<and> matches_pattern s p)"
proof -
  have "first_match rs d s = t \<longleftrightarrow> (\<exists>p. (p, t) \<in> set rs \<and> matches_pattern s p)" if "set rs \<subseteq> set rows" for rs
    using that
  proof (induction rs)
    case Nil
    with assms(3) show ?case by simp
  next
    case (Cons r rs)
    obtain q u where r: "r = (q, u)" by (cases r)
    show ?case
    proof (cases "matches_pattern s q")
      case True
      have "u = t" if "(p, t) \<in> set rows" "matches_pattern s p" for p
        using assms(1) that True clash_exclusive Cons.prems by (fastforce simp: list_all_iff r)
      with True Cons.prems show ?thesis by (auto simp: r)
    next
      case False
      with Cons show ?thesis by (auto simp: r)
    qed
  qed
  then show ?thesis by blast
qed

lemma matches_literal [simp]: "matches_pattern s (literal p) \<longleftrightarrow> starts_with s p"
proof
  assume "matches_pattern s (literal p)"
  then have "list_all2 (\<lambda>x y. x = y) p (take (length p) s)"
    by (simp add: matches_pattern_def literal_def list_all2_map1)
  then show "starts_with s p" by (simp add: starts_with_def list.rel_eq)
next
  assume "starts_with s p"
  then show "matches_pattern s (literal p)"
    by (auto simp: starts_with_def matches_pattern_def literal_def list_all2_map1 list.rel_eq dest: arg_cong [where f = length])
qed

lemma list_all2_wild: "list_all2 (\<lambda>q b. q = None \<or> q = Some b) (replicate n None) bs \<longleftrightarrow> length bs = n"
  by (auto simp: list_all2_conv_all_nth)

lemma matches_pattern_append:
  "matches_pattern s (p @ q) \<longleftrightarrow> matches_pattern s p \<and> matches_pattern (drop (length p) s) q"
  by (auto simp: matches_pattern_def take_add list_all2_append dest: list_all2_lengthD)

lemma matches_wild: "matches_pattern s (replicate n None) \<longleftrightarrow> n \<le> length s"
  by (auto simp: matches_pattern_def list_all2_wild)

lemma length_literal [simp]: "length (literal bs) = length bs"
  by (simp add: literal_def)

lemma matches_riff: "matches_pattern s (riff_pattern t) \<longleftrightarrow>
    begins s ''RIFF'' \<and> 8 \<le> length s \<and> begins (drop 8 s) t"
  by (auto simp: riff_pattern_def matches_pattern_append matches_wild)

text \<open>What the scan answers behind the table.\<close>

definition sniff_text :: "bytes \<Rightarrow> mime_type" where
  "sniff_text sample =
     (if is_svg sample then Image_svg_xml
      else if is_html sample then Text_html_utf8
      else if begins (skip_ascii_whitespace sample) ''<?xml'' then Text_xml_utf8
      else if starts_with sample utf8_bom then Text_plain_utf8
      else if starts_with sample utf16be_bom then Text_plain_utf16be
      else if starts_with sample utf16le_bom then Text_plain_utf16le
      else if is_mp4 sample then Video_mp4
      else if starts_with sample truetype_signature then Font_ttf
      else if begins sample ''OTTO'' then Font_otf
      else if begins sample ''ttcf'' then Font_collection
      else if begins sample ''wOFF'' then Font_woff
      else if begins sample ''wOF2'' then Font_woff2
      else if 36 \<le> length sample \<and> sample ! 34 = 0x4C \<and> sample ! 35 = 0x50 then Application_eot
      else if has_binary_control sample then Application_octet_stream else Text_plain_utf8)"

lemma webp_row:
  "14 \<le> length s \<and> riff_type s ''WEBP'' \<and> begins (drop 12 s) ''VP'' \<longleftrightarrow> matches_pattern s (riff_pattern ''WEBPVP'')"
proof -
  have "begins (drop 8 s) ''WEBPVP'' \<longleftrightarrow> begins (drop 8 s) ''WEBP'' \<and> begins (drop 4 (drop 8 s)) ''VP''"
  proof -
    have split: "starts_with u (p @ q) \<longleftrightarrow> starts_with u p \<and> starts_with (drop (length p) u) q" for u p q :: bytes
      by (metis length_literal literal_def map_append matches_literal matches_pattern_append)
    have "bytes_of_string ''WEBPVP'' = bytes_of_string ''WEBP'' @ bytes_of_string ''VP''"
      by (simp flip: bytes_of_string_append)
    then show ?thesis by (simp add: split)
  qed
  then show ?thesis
    by (auto simp: matches_riff riff_type_def dest: starts_with_length)
qed

lemma riff_row:
  "length t = 4 \<Longrightarrow> riff_type s t \<longleftrightarrow> matches_pattern s (riff_pattern t)"
  by (auto simp: matches_riff riff_type_def dest: starts_with_length)

lemma if_disj_split: "(if a \<or> b then x else y) = (if a then x else if b then x else y)"
  by simp

lemma mixed_signatures:
  "bytes_of_string ''OggS'' @ [0x00] = ogg_signature" "bytes_of_string ''PK'' @ [0x03, 0x04] = zip_signature"
  by (simp_all add: bytes_of_string_def byte_of_char_def ogg_signature_def zip_signature_def)

lemma sniff_standard_table: "sniff_standard s = first_match signature_table (sniff_text s) s"
proof -
  have avi: "riff_type s ''AVI '' = matches_pattern s (riff_pattern ''AVI '')"
    and wave: "riff_type s ''WAVE'' = matches_pattern s (riff_pattern ''WAVE'')"
    by (rule riff_row; simp)+
  show ?thesis
    unfolding sniff_standard_def webp_row avi wave signature_table_def mixed_signatures first_match.simps matches_literal
      ico_signature_def [symmetric] png_magic_def [symmetric] jpeg_signature_def [symmetric]
      jxl_codestream_def [symmetric] jxl_container_def [symmetric] webm_signature_def [symmetric]
      gzip_signature_def [symmetric] wasm_signature_def [symmetric] sniff_text_def [symmetric] if_disj_split
    by (rule refl)
qed

definition text_types :: "mime_type list" where
  "text_types = [Image_svg_xml, Text_html_utf8, Text_xml_utf8, Text_plain_utf8, Text_plain_utf16be,
     Text_plain_utf16le, Video_mp4, Font_ttf, Font_otf, Font_collection, Font_woff, Font_woff2,
     Application_eot, Application_octet_stream]"

lemma sniff_text_types: "sniff_text s \<in> set text_types"
  unfolding sniff_text_def text_types_def by simp

lemma signature_table_types: "list_all (\<lambda>(p, t). t \<noteq> Image_avif \<and> t \<notin> set text_types) signature_table"
  by code_simp

lemma signature_table_clashes:
  "list_all (\<lambda>(p, t). list_all (\<lambda>(q, u). t = u \<or> clash p q) signature_table) signature_table"
  by code_simp

section \<open>Property\<close>

text \<open>C31. For every type of the signature table, the sniffer answers it exactly when the body is not an
  animated AVIF and its first 512 bytes match one of that type's signatures: no other rule answers
  these types, and the order in which the signatures are tried cannot matter.\<close>

theorem sniff_mime_signature_iff:
  assumes "t \<in> snd ` set signature_table"
  shows "sniff_mime content = t \<longleftrightarrow> \<not> is_animated_avif content
    \<and> (\<exists>p. (p, t) \<in> set signature_table \<and> matches_pattern (take 512 content) p)"
proof -
  have "t \<noteq> Image_avif" "t \<notin> set text_types"
    using assms signature_table_types unfolding list_all_iff by fastforce+
  moreover have "Application_octet_stream \<in> set text_types" by (simp add: text_types_def)
  ultimately have t: "t \<noteq> Image_avif" "t \<noteq> Application_octet_stream" "t \<noteq> sniff_text s" for s
    using sniff_text_types [of s] by metis+
  have "sniff_standard s = t \<longleftrightarrow> (\<exists>p. (p, t) \<in> set signature_table \<and> matches_pattern s p)" for s
    unfolding sniff_standard_table by (rule first_match_iff [OF signature_table_clashes assms t(3)])
  moreover have "sniff_mime content = t \<longleftrightarrow> \<not> is_animated_avif content \<and> sniff_standard (take 512 content) = t"
    using t(1,2) by (auto simp: sniff_mime_def Let_def maximum_mime_sample_bytes_def)
  ultimately show ?thesis by simp
qed

theorem sniff_mime_signature_iff_witness:
  "sniff_mime (bytes_of_string ''GIF89a'') = Image_gif"
proof -
  have "Image_gif \<in> snd ` set signature_table" by (simp add: signature_table_def)
  from sniff_mime_signature_iff [OF this, of "bytes_of_string ''GIF89a''"] show ?thesis
    by (auto simp: signature_table_def is_animated_avif_def starts_with_def intro: exI [of _ "literal (bytes_of_string ''GIF89a'')"])
qed

end
