(* ===== verification/Classification.thy ===== *)
theory Classification
  imports Mime
begin

text \<open>
  \<^verbatim>\<open>src/media/classification.cpp\<close> and
  \<^verbatim>\<open>src/media/encoding_quality.cpp\<close>: which media types are converted, which bodies
  count as animated and what they are encoded to. The JPEG XL decoder of libjxl is a parameter: calls on a
  world that holds the decoder.
\<close>

datatype output_format = Output_avif | Output_webp

record media_plan =
  plan_animated :: bool
  plan_output :: output_format

datatype encoding_quality = Quality_standard | Quality_url_only

definition encoding_quality_value :: "encoding_quality \<Rightarrow> int" where
  "encoding_quality_value quality = (if quality = Quality_url_only then 70 else 65)"

section \<open>The JPEG XL decoder\<close>

datatype jxl_status =
    Jxl_success | Jxl_error | Jxl_need_more_input | Jxl_basic_info | Jxl_color_encoding | Jxl_frame
  | Jxl_need_image_out_buffer | Jxl_full_image | Jxl_other_status

record jxl_info =
  jxl_xsize :: u32
  jxl_ysize :: u32
  jxl_have_animation :: bool
  jxl_tps_numerator :: u32
  jxl_tps_denominator :: u32

text \<open>
  The calls of \<^verbatim>\<open>jxl/decode.h\<close> that the sources make; \<open>None\<close> and
  \<open>False\<close> stand for a result other than \<^verbatim>\<open>JXL_DEC_SUCCESS\<close>.
  \<open>jxl_pixels\<close> reads the output buffer that the decoder has filled.
\<close>

record 'w jxl_api =
  jxl_create :: "'w \<Rightarrow> bool \<times> 'w"
  jxl_destroy :: "'w \<Rightarrow> 'w"
  jxl_subscribe :: "jxl_status list \<Rightarrow> 'w \<Rightarrow> bool \<times> 'w"
  jxl_unpremultiply :: "'w \<Rightarrow> bool \<times> 'w"
  jxl_set_input :: "bytes \<Rightarrow> 'w \<Rightarrow> 'w"
  jxl_close_input :: "'w \<Rightarrow> 'w"
  jxl_process :: "'w \<Rightarrow> jxl_status \<times> 'w"
  jxl_get_info :: "'w \<Rightarrow> jxl_info option \<times> 'w"
  jxl_icc_size :: "'w \<Rightarrow> nat option \<times> 'w"
  jxl_get_icc :: "nat \<Rightarrow> 'w \<Rightarrow> bytes option \<times> 'w"
  jxl_frame_duration :: "'w \<Rightarrow> u32 option \<times> 'w"
  jxl_buffer_size :: "'w \<Rightarrow> nat option \<times> 'w"
  jxl_set_buffer :: "nat \<Rightarrow> 'w \<Rightarrow> bool \<times> 'w"
  jxl_pixels :: "'w \<Rightarrow> bytes"

definition is_animated_jxl :: "'w jxl_api \<Rightarrow> bytes \<Rightarrow> 'w \<Rightarrow> bool \<times> 'w" where
  "is_animated_jxl jxl content w =
     (if content = [] then (False, w)
      else
        let (created, w1) = jxl_create jxl w
        in if \<not> created then (False, w1)
           else
             let (subscribed, w2) = jxl_subscribe jxl [Jxl_basic_info] w1
             in if \<not> subscribed then (False, jxl_destroy jxl w2)
                else
                  let w3 = jxl_close_input jxl (jxl_set_input jxl content w2);
                      (st, w4) = jxl_process jxl w3
                  in if st \<noteq> Jxl_basic_info then (False, jxl_destroy jxl w4)
                     else
                       let (info, w5) = jxl_get_info jxl w4;
                           animated = (case info of None \<Rightarrow> False | Some i \<Rightarrow> jxl_have_animation i)
                       in (animated, jxl_destroy jxl w5))"

section \<open>Classification\<close>

definition is_animated_webp :: "bytes \<Rightarrow> bool" where
  "is_animated_webp content =
     (if length content < 0x1E + 4 then False
      else take 4 (drop 0x1E content) = bytes_of_string ''ANIM'')"

fun is_convertible_mime :: "mime_type \<Rightarrow> bool" where
  "is_convertible_mime Image_avif = True"
| "is_convertible_mime Image_ico = True"
| "is_convertible_mime Image_jpeg = True"
| "is_convertible_mime Image_jxl = True"
| "is_convertible_mime Image_svg_xml = True"
| "is_convertible_mime Image_png = True"
| "is_convertible_mime Image_webp = True"
| "is_convertible_mime Image_gif = True"
| "is_convertible_mime Image_x_icon = True"
| "is_convertible_mime _ = False"

definition classify_media ::
    "'w jxl_api \<Rightarrow> mime_type \<Rightarrow> bytes \<Rightarrow> bool \<Rightarrow> output_format \<Rightarrow> 'w \<Rightarrow> media_plan option \<times> 'w" where
  "classify_media jxl mime content force_static preferred w =
     (if \<not> is_convertible_mime mime then (None, w)
      else
        let (animated, w') =
              (if force_static then (False, w)
               else if mime = Image_gif then (True, w)
               else if mime = Image_avif \<and> is_animated_avif content then (True, w)
               else if mime = Image_jxl then is_animated_jxl jxl content w
               else (mime = Image_webp \<and> is_animated_webp content, w))
        in (Some \<lparr>plan_animated = animated, plan_output = (if animated then Output_webp else preferred)\<rparr>, w'))"

lemma classify_media_static:
  "fst (classify_media jxl mime content True preferred w) =
     (if is_convertible_mime mime then Some \<lparr>plan_animated = False, plan_output = preferred\<rparr> else None)"
  by (simp add: classify_media_def)

lemma classify_media_animated:
  assumes "classify_media jxl mime content force preferred w = (Some plan, w')" and "plan_animated plan"
  shows "\<not> force" and "plan_output plan = Output_webp"
    and "mime \<in> {Image_gif, Image_avif, Image_jxl, Image_webp}"
  using assms by (auto simp: classify_media_def Let_def split: if_splits prod.splits)

end
