(* ===== verification/Webp_Encoder.thy ===== *)
theory Webp_Encoder
  imports Classification
begin

text \<open>
  The libwebp calls of the animated conversions (\<^verbatim>\<open>src/media/apng_conversion.cpp\<close>,
  \<^verbatim>\<open>src/media/animated_conversion.cpp\<close>), as parameters over a world that holds the
  encoder and the current picture, with the configuration and the frame step they share.
\<close>

text \<open>The fields of \<^verbatim>\<open>WebPConfig\<close> that the sources set; the others keep their
  defaults.\<close>

record webp_config =
  cfg_lossless :: int
  cfg_method :: int
  cfg_quality :: int

record 'w webp_api =
  options_init :: "'w \<Rightarrow> bool \<times> 'w"
  encoder_new :: "int \<Rightarrow> int \<Rightarrow> 'w \<Rightarrow> bool \<times> 'w"
  encoder_delete :: "'w \<Rightarrow> 'w"
  config_init :: "'w \<Rightarrow> bool \<times> 'w"
  validate_config :: "webp_config \<Rightarrow> 'w \<Rightarrow> bool \<times> 'w"
  picture_init :: "'w \<Rightarrow> bool \<times> 'w"
  picture_free :: "'w \<Rightarrow> 'w"
  picture_import :: "int \<Rightarrow> int \<Rightarrow> bytes \<Rightarrow> int \<Rightarrow> 'w \<Rightarrow> bool \<times> 'w"
  picture_rescale :: "int \<Rightarrow> int \<Rightarrow> 'w \<Rightarrow> bool \<times> 'w"
  encoder_add :: "int \<Rightarrow> webp_config \<Rightarrow> 'w \<Rightarrow> bool \<times> 'w"
  encoder_end :: "int \<Rightarrow> 'w \<Rightarrow> bool \<times> 'w"
  encoder_assemble :: "'w \<Rightarrow> bytes option \<times> 'w"
  mux_profile :: "bytes \<Rightarrow> bytes \<Rightarrow> 'w \<Rightarrow> bytes option \<times> 'w"

definition lossy_config :: "encoding_quality \<Rightarrow> webp_config" where
  "lossy_config quality = \<lparr>cfg_lossless = 0, cfg_method = 0, cfg_quality = encoding_quality_value quality\<rparr>"

text \<open>\<open>None\<close> for the result false.\<close>

definition initialize_apng_webp_config :: "'w webp_api \<Rightarrow> encoding_quality \<Rightarrow> 'w \<Rightarrow> webp_config option \<times> 'w" where
  "initialize_apng_webp_config webp quality w =
     (case config_init webp w of
        (False, w1) \<Rightarrow> (None, w1)
      | (True, w1) \<Rightarrow>
          (case validate_config webp (lossy_config quality) w1 of
             (ok, w2) \<Rightarrow> (if ok then Some (lossy_config quality) else None, w2)))"

text \<open>What is fed to the encoder, one picture after the other: its pixels with the dimensions and the row
  stride, the target of a rescale and the timestamp. The step stops at the first refusal.\<close>

record picture =
  pic_width :: int
  pic_height :: int
  pic_pixels :: bytes
  pic_stride :: int
  pic_target :: "(int \<times> int) option"
  pic_timestamp :: int

definition add_picture :: "'w webp_api \<Rightarrow> webp_config \<Rightarrow> picture \<Rightarrow> 'w \<Rightarrow> bool \<times> 'w" where
  "add_picture webp config p w =
     (case picture_init webp w of
        (False, w1) \<Rightarrow> (False, w1)
      | (True, w1) \<Rightarrow>
          (case picture_import webp (pic_width p) (pic_height p) (pic_pixels p) (pic_stride p) w1 of
             (False, w2) \<Rightarrow> (False, picture_free webp w2)
           | (True, w2) \<Rightarrow>
               (case (case pic_target p of None \<Rightarrow> (True, w2) | Some (tw, th) \<Rightarrow> picture_rescale webp tw th w2) of
                  (False, w3) \<Rightarrow> (False, picture_free webp w3)
                | (True, w3) \<Rightarrow>
                    (case encoder_add webp (pic_timestamp p) config w3 of
                       (ok, w4) \<Rightarrow> (ok, picture_free webp w4)))))"

text \<open>All pictures of a list, as long as each is taken.\<close>

fun add_pictures :: "'w webp_api \<Rightarrow> webp_config \<Rightarrow> picture list \<Rightarrow> 'w \<Rightarrow> bool \<times> 'w" where
  "add_pictures webp config [] w = (True, w)"
| "add_pictures webp config (p # ps) w =
     (case add_picture webp config p w of
        (False, w') \<Rightarrow> (False, w')
      | (True, w') \<Rightarrow> add_pictures webp config ps w')"

lemma add_pictures_append:
  "add_pictures webp config (ps @ qs) w =
     (case add_pictures webp config ps w of (False, w') \<Rightarrow> (False, w') | (True, w') \<Rightarrow> add_pictures webp config qs w')"
  by (induction ps arbitrary: w) (auto split: prod.splits bool.splits)

text \<open>A timeline: pictures at the sums of the durations before them.\<close>

fun timeline :: "int \<Rightarrow> int list \<Rightarrow> int list" where
  "timeline t [] = []"
| "timeline t (d # ds) = t # timeline (t + d) ds"

lemma length_timeline [simp]: "length (timeline t ds) = length ds"
  by (induction ds arbitrary: t) auto

lemma timeline_nth: "i < length ds \<Longrightarrow> timeline t ds ! i = t + sum_list (take i ds)"
  by (induction ds arbitrary: t i) (auto simp: nth_Cons' take_Cons')

lemma timeline_append: "timeline t (ds @ es) = timeline t ds @ timeline (t + sum_list ds) es"
  by (induction ds arbitrary: t) (auto simp: ac_simps)

end
