(* ===== verification/Apng_Conversion.thy ===== *)
theory Apng_Conversion
  imports Apng_Decoder Webp_Encoder
begin

text \<open>
  \<^verbatim>\<open>src/media/apng_conversion.cpp\<close>: an animated PNG is composed frame by frame and
  fed to the WebP animation encoder.
\<close>

datatype apng_conversion_error =
  Conv_decode | Conv_base_frame | Conv_dimensions | Conv_composition | Conv_picture | Conv_encoder

definition apng_canvas_size :: "u32 \<Rightarrow> u32 \<Rightarrow> nat option" where
  "apng_canvas_size width height =
     (if width = 0 \<or> height = 0 \<or> size_max div unat height < unat width then None
      else
        let pixels = unat width * unat height
        in if size_max div 4 < pixels then None else Some (pixels * 4))"

text \<open>The picture step of the loop, with the error each refusal leads to.\<close>

definition add_apng_picture ::
    "'w webp_api \<Rightarrow> webp_config \<Rightarrow> picture \<Rightarrow> 'w \<Rightarrow> apng_conversion_error option \<times> 'w" where
  "add_apng_picture webp config p w =
     (case picture_init webp w of
        (False, w1) \<Rightarrow> (Some Conv_picture, w1)
      | (True, w1) \<Rightarrow>
          (case picture_import webp (pic_width p) (pic_height p) (pic_pixels p) (pic_stride p) w1 of
             (False, w2) \<Rightarrow> (Some Conv_picture, picture_free webp w2)
           | (True, w2) \<Rightarrow>
               (case (case pic_target p of None \<Rightarrow> (True, w2) | Some (tw, th) \<Rightarrow> picture_rescale webp tw th w2) of
                  (False, w3) \<Rightarrow> (Some Conv_picture, picture_free webp w3)
                | (True, w3) \<Rightarrow>
                    (case encoder_add webp (pic_timestamp p) config w3 of
                       (ok, w4) \<Rightarrow> (if ok then None else Some Conv_encoder, picture_free webp w4)))))"

definition apng_picture :: "u32 \<Rightarrow> u32 \<Rightarrow> u32 \<Rightarrow> u32 \<Rightarrow> bytes \<Rightarrow> int \<Rightarrow> picture" where
  "apng_picture cw ch tw th pixels timestamp =
     \<lparr>pic_width = sint cw, pic_height = sint ch, pic_pixels = pixels, pic_stride = sint (cw * 4),
      pic_target = Some (sint tw, sint th), pic_timestamp = timestamp\<rparr>"

text \<open>The loop over the frames: the control of the previous frame, if there is one, the timestamp and the
  canvas.\<close>

fun apng_frame_loop ::
    "'w webp_api \<Rightarrow> webp_config \<Rightarrow> u32 \<Rightarrow> u32 \<Rightarrow> u32 \<Rightarrow> u32 \<Rightarrow> apng_frame_control option \<Rightarrow> int \<Rightarrow> bytes
      \<Rightarrow> decoded_frame list \<Rightarrow> 'w \<Rightarrow> apng_conversion_error option \<times> 'w" where
  "apng_frame_loop webp config cw ch tw th previous timestamp canvas [] w = (None, w)"
| "apng_frame_loop webp config cw ch tw th previous timestamp canvas (f # fs) w =
     (let duration = (case previous of None \<Rightarrow> 0
            | Some p \<Rightarrow> apng_frame_duration_ms (fc_delay_numerator p) (fc_delay_denominator p))
      in if int_max - timestamp < duration then (Some Conv_encoder, w)
         else
           let timestamp' = timestamp + duration
           in case compose_apng_frame canvas cw ch (df_control f) (df_rgba f) of
                (Inl _, _) \<Rightarrow> (Some Conv_composition, w)
              | (Inr displayed, canvas') \<Rightarrow>
                  (case add_apng_picture webp config (apng_picture cw ch tw th displayed timestamp') w of
                     (Some e, w') \<Rightarrow> (Some e, w')
                   | (None, w') \<Rightarrow> apng_frame_loop webp config cw ch tw th (Some (df_control f)) timestamp' canvas' fs w'))"

definition encode_animation ::
    "'w webp_api \<Rightarrow> encoding_quality \<Rightarrow> u32 \<Rightarrow> u32 \<Rightarrow> decoded_animation \<Rightarrow> bytes \<Rightarrow> 'w
      \<Rightarrow> (apng_conversion_error + bytes) \<times> 'w" where
  "encode_animation webp quality tw th a canvas w =
     (case initialize_apng_webp_config webp quality w of
        (None, w1) \<Rightarrow> (Inl Conv_encoder, w1)
      | (Some config, w1) \<Rightarrow>
          (case apng_frame_loop webp config (da_canvas_width a) (da_canvas_height a) tw th None 0 canvas (da_frames a) w1 of
             (Some e, w2) \<Rightarrow> (Inl e, w2)
           | (None, w2) \<Rightarrow>
               (case encoder_assemble webp w2 of
                  (None, w3) \<Rightarrow> (Inl Conv_encoder, w3)
                | (Some out, w3) \<Rightarrow> (if out = [] then Inl Conv_encoder else Inr out, w3))))"

definition convert_apng_to_webp ::
    "(bytes \<Rightarrow> u32) \<Rightarrow> 'w png_api \<Rightarrow> 'w webp_api \<Rightarrow> bytes \<Rightarrow> u32 \<Rightarrow> u32 \<Rightarrow> encoding_quality \<Rightarrow> 'w
      \<Rightarrow> (apng_conversion_error + bytes) \<times> 'w" where
  "convert_apng_to_webp crc png webp content tw th quality w =
     (if tw = 0 \<or> th = 0 \<or> int_max < uint tw \<or> int_max < uint th then (Inl Conv_dimensions, w)
      else case decode_apng_frames crc png content w of
        (Inl _, w1) \<Rightarrow> (Inl Conv_decode, w1)
      | (Inr a, w1) \<Rightarrow>
          if da_frames a = [] then (Inl Conv_decode, w1)
          else if int_max div 4 < uint (da_canvas_width a) \<or> int_max < uint (da_canvas_height a)
          then (Inl Conv_dimensions, w1)
          else
            (case apng_canvas_size (da_canvas_width a) (da_canvas_height a) of
               None \<Rightarrow> (Inl Conv_base_frame, w1)
             | Some expected \<Rightarrow>
                 (case options_init webp w1 of
                    (False, w2) \<Rightarrow> (Inl Conv_encoder, w2)
                  | (True, w2) \<Rightarrow>
                      (case encoder_new webp (sint tw) (sint th) w2 of
                         (False, w3) \<Rightarrow> (Inl Conv_encoder, w3)
                       | (True, w3) \<Rightarrow>
                           (case encode_animation webp quality tw th a (replicate expected 0) w3 of
                              (r, w4) \<Rightarrow> (r, encoder_delete webp w4))))))"

section \<open>What the encoder is fed\<close>

definition frame_duration :: "decoded_frame \<Rightarrow> int" where
  "frame_duration f = apng_frame_duration_ms (fc_delay_numerator (df_control f)) (fc_delay_denominator (df_control f))"

text \<open>The canvases a viewer sees, frame after frame.\<close>

fun composed :: "u32 \<Rightarrow> u32 \<Rightarrow> bytes \<Rightarrow> decoded_frame list \<Rightarrow> bytes list" where
  "composed cw ch canvas [] = []"
| "composed cw ch canvas (f # fs) =
     (case compose_apng_frame canvas cw ch (df_control f) (df_rgba f) of
        (Inl _, _) \<Rightarrow> []
      | (Inr displayed, canvas') \<Rightarrow> displayed # composed cw ch canvas' fs)"

definition composed_pictures :: "u32 \<Rightarrow> u32 \<Rightarrow> u32 \<Rightarrow> u32 \<Rightarrow> int \<Rightarrow> bytes \<Rightarrow> decoded_frame list \<Rightarrow> picture list" where
  "composed_pictures cw ch tw th t canvas fs =
     map2 (apng_picture cw ch tw th) (composed cw ch canvas fs) (timeline t (map frame_duration fs))"

lemma add_apng_picture_None:
  "add_apng_picture webp config p w = (None, w') \<longleftrightarrow> add_picture webp config p w = (True, w')"
  by (auto simp: add_apng_picture_def add_picture_def split: prod.splits bool.splits if_splits)

definition previous_duration :: "apng_frame_control option \<Rightarrow> int" where
  "previous_duration previous = (case previous of None \<Rightarrow> 0
     | Some p \<Rightarrow> apng_frame_duration_ms (fc_delay_numerator p) (fc_delay_denominator p))"

lemma frame_loop_pictures:
  assumes "apng_frame_loop webp config cw ch tw th previous t canvas fs w = (None, w')"
  shows "add_pictures webp config (composed_pictures cw ch tw th (t + previous_duration previous) canvas fs) w = (True, w')
    \<and> length (composed cw ch canvas fs) = length fs
    \<and> list_all (\<lambda>s. s \<le> int_max) (timeline (t + previous_duration previous) (map frame_duration fs))"
  using assms
proof (induction fs arbitrary: previous t canvas w)
  case Nil
  then show ?case by (simp add: composed_pictures_def)
next
  case (Cons f fs)
  let ?t = "t + previous_duration previous"
  from Cons.prems obtain displayed canvas' w1 where ok: "\<not> int_max - t < previous_duration previous"
    and comp: "compose_apng_frame canvas cw ch (df_control f) (df_rgba f) = (Inr displayed, canvas')"
    and pic: "add_apng_picture webp config (apng_picture cw ch tw th displayed ?t) w = (None, w1)"
    and loop: "apng_frame_loop webp config cw ch tw th (Some (df_control f)) ?t canvas' fs w1 = (None, w')"
    by (auto simp: Let_def previous_duration_def split: if_splits prod.splits sum.splits option.splits)
  have "previous_duration (Some (df_control f)) = frame_duration f"
    by (simp add: previous_duration_def frame_duration_def)
  with Cons.IH [OF loop] pic ok show ?case
    by (simp add: composed_pictures_def comp add_apng_picture_None)
qed

lemma rgba_size_canvas: "rgba_size = apng_canvas_size"
  by (intro ext) (simp add: rgba_size_def apng_canvas_size_def)

lemma compose_accepts:
  assumes "rgba_size cw ch = Some (length canvas)" and "wf_frame cw ch c"
    and "rgba_size (fc_width c) (fc_height c) = Some (length frame)"
  shows "\<exists>displayed canvas'. compose_apng_frame canvas cw ch c frame = (Inr displayed, canvas') \<and> length canvas' = length canvas"
proof -
  have "\<not> L < o1 \<and> \<not> L - o1 < w" if "unat o1 + unat w \<le> unat L" for L o1 w :: u32
    using that by (auto simp: word_less_nat_alt unat_sub_if')
  with assms have checks: "\<not> cw < fc_x_offset c" "\<not> cw - fc_x_offset c < fc_width c" "\<not> ch < fc_y_offset c"
    "\<not> ch - fc_y_offset c < fc_height c" "\<not> 1 < fc_blend c" "\<not> 2 < fc_dispose c"
    by (auto simp: wf_frame_def)
  then obtain displayed canvas' where run: "compose_apng_frame canvas cw ch c frame = (Inr displayed, canvas')"
    using assms by (simp add: compose_apng_frame_def Let_def)
  moreover from compose_lengths(2) [OF run] have "length canvas' = length canvas" .
  ultimately show ?thesis by blast
qed

lemma frame_loop_composes:
  assumes "rgba_size cw ch = Some (length canvas)"
    and "list_all (\<lambda>f. wf_frame cw ch (df_control f)
      \<and> rgba_size (fc_width (df_control f)) (fc_height (df_control f)) = Some (length (df_rgba f))) fs"
  shows "fst (apng_frame_loop webp config cw ch tw th previous t canvas fs w) \<notin> {Some Conv_composition, Some Conv_base_frame}"
  using assms
proof (induction fs arbitrary: previous t canvas w)
  case (Cons f fs)
  from Cons.prems compose_accepts [of cw ch canvas "df_control f" "df_rgba f"] obtain displayed canvas'
    where run: "compose_apng_frame canvas cw ch (df_control f) (df_rgba f) = (Inr displayed, canvas')"
      "length canvas' = length canvas" by auto
  have "fst (add_apng_picture webp config p w) \<notin> {Some Conv_composition, Some Conv_base_frame}" for p
    by (auto simp: add_apng_picture_def split: prod.splits bool.splits if_splits)
  with Cons run show ?case
    by (auto simp: Let_def split: prod.splits option.splits) (metis fst_conv)+
qed simp

lemma canvas_size_small:
  assumes "\<not> int_max div 4 < uint cw" and "\<not> int_max < uint ch" and "0 < cw" and "0 < ch"
  shows "apng_canvas_size cw ch = Some (unat cw * unat ch * 4)"
proof -
  have "int (unat cw) \<le> int 536870911" "int (unat ch) \<le> int 2147483647" using assms(1,2) by (simp_all add: int_max_def)
  then have "unat cw \<le> 536870911" "unat ch \<le> 2147483647" by (simp_all only: of_nat_le_iff)
  then have "unat cw * unat ch \<le> 536870911 * 2147483647" by (rule mult_le_mono)
  then have "unat cw * unat ch \<le> size_max div 4" by (simp add: size_max_def)
  moreover have "\<not> size_max div unat ch < unat cw"
  proof -
    have "unat cw * unat ch \<le> size_max" using calculation by (simp add: size_max_def)
    then show ?thesis using assms(4) by (simp add: not_less less_eq_div_iff_mult_less_eq unat_gt_0 word_gt_0)
  qed
  ultimately show ?thesis using assms(3,4) by (simp add: apng_canvas_size_def word_gt_0)
qed

section \<open>Properties\<close>

text \<open>Of the six ways a conversion can fail, two never happen: whatever the body and whatever the
  libraries answer, the parser and the decoder rule out a frame that the compositor refuses, and the
  dimension check rules out a canvas whose size does not fit.\<close>

lemma conversion_always_composes:
  "fst (convert_apng_to_webp crc png webp content tw th quality w) \<notin> {Inl Conv_composition, Inl Conv_base_frame}"
proof (cases "decode_apng_frames crc png content w")
  case (Pair r w1)
  show ?thesis
  proof (cases r)
    case (Inl e)
    with Pair show ?thesis by (simp add: convert_apng_to_webp_def)
  next
    case (Inr a)
    with Pair decode_apng_frames_parsed [of crc png content w a w1] have wf: "wf_decoded a" by auto
    have encode: "fst (encode_animation webp quality tw th a (replicate n 0) w2) \<notin> {Inl Conv_composition, Inl Conv_base_frame}"
      if "rgba_size (da_canvas_width a) (da_canvas_height a) = Some n" for n w2
    proof -
      have "fst (apng_frame_loop webp config (da_canvas_width a) (da_canvas_height a) tw th None 0 (replicate n 0) (da_frames a) w3)
          \<notin> {Some Conv_composition, Some Conv_base_frame}" for config w3
        by (rule frame_loop_composes) (use that wf in \<open>simp_all add: wf_decoded_def\<close>)
      then show ?thesis
        by (auto simp: encode_animation_def split: prod.splits option.splits) (metis fst_conv)+
    qed
    show ?thesis
      using Pair Inr encode canvas_size_small wf
      by (auto simp: convert_apng_to_webp_def rgba_size_canvas wf_decoded_def split: prod.splits option.splits bool.splits)
        (metis fst_conv)+
  qed
qed

lemma apng_assembled:
  assumes "convert_apng_to_webp crc png webp content tw th quality w = (Inr out, w')"
  shows "\<exists>w1. out \<noteq> [] \<and> fst (encoder_assemble webp w1) = Some out"
  using assms
  by (auto simp: convert_apng_to_webp_def encode_animation_def split: prod.splits option.splits bool.splits sum.splits if_splits)
    (metis fst_conv)+

text \<open>C26. A conversion that succeeds has fed the encoder, at the configured lossy quality, exactly one
  picture per frame, in order: the full composed canvas of that frame, scaled once to the target, at
  the sum of the durations of the frames before it, and no timestamp exceeds a signed 32-bit number.\<close>

theorem conversion_feeds_composed_frames:
  assumes "convert_apng_to_webp crc png webp content tw th quality w = (Inr out, w')"
  shows "\<exists>a w1 w2 w3 pictures. decode_apng_frames crc png content w = (Inr a, w1)
    \<and> pictures = composed_pictures (da_canvas_width a) (da_canvas_height a) tw th 0
        (replicate (unat (da_canvas_width a) * unat (da_canvas_height a) * 4) 0) (da_frames a)
    \<and> length pictures = length (da_frames a)
    \<and> add_pictures webp (lossy_config quality) pictures w2 = (True, w3)
    \<and> (\<forall>i < length pictures. pic_timestamp (pictures ! i) = sum_list (take i (map frame_duration (da_frames a)))
         \<and> pic_timestamp (pictures ! i) \<le> int_max)
    \<and> fst (encoder_assemble webp w3) = Some out \<and> out \<noteq> []"
proof -
  from assms obtain a w1 n w2 config w3 w4 where dec: "decode_apng_frames crc png content w = (Inr a, w1)"
    and n: "apng_canvas_size (da_canvas_width a) (da_canvas_height a) = Some n"
    and config: "initialize_apng_webp_config webp quality w2 = (Some config, w3)"
    and loop: "apng_frame_loop webp config (da_canvas_width a) (da_canvas_height a) tw th None 0 (replicate n 0) (da_frames a) w3 = (None, w4)"
    and out: "fst (encoder_assemble webp w4) = Some out" "out \<noteq> []"
    by (auto simp: convert_apng_to_webp_def encode_animation_def split: prod.splits option.splits bool.splits sum.splits if_splits)
  from n have n': "n = unat (da_canvas_width a) * unat (da_canvas_height a) * 4"
    by (auto simp: apng_canvas_size_def Let_def split: if_splits)
  from config have c: "config = lossy_config quality"
    by (auto simp: initialize_apng_webp_config_def split: prod.splits bool.splits if_splits)
  let ?times = "timeline 0 (map frame_duration (da_frames a))"
  let ?ps = "composed_pictures (da_canvas_width a) (da_canvas_height a) tw th 0 (replicate n 0) (da_frames a)"
  from frame_loop_pictures [OF loop] have fed: "add_pictures webp config ?ps w3 = (True, w4)"
    and len: "length (composed (da_canvas_width a) (da_canvas_height a) (replicate n 0) (da_frames a)) = length (da_frames a)"
    and times: "list_all (\<lambda>s. s \<le> int_max) ?times"
    by (simp_all add: previous_duration_def)
  have "pic_timestamp (?ps ! i) = ?times ! i" if "i < length (da_frames a)" for i
    using that len by (simp add: composed_pictures_def apng_picture_def)
  moreover have "length ?ps = length (da_frames a)" using len by (simp add: composed_pictures_def)
  ultimately show ?thesis
    using dec fed out times c n' by (force simp: timeline_nth list_all_length)
qed

text \<open>An encoder that takes everything and returns one byte.\<close>

definition sample_webp :: "'w webp_api" where
  "sample_webp = \<lparr>options_init = Pair True, encoder_new = (\<lambda>_ _. Pair True), encoder_delete = id, config_init = Pair True,
     validate_config = (\<lambda>_. Pair True), picture_init = Pair True, picture_free = id,
     picture_import = (\<lambda>_ _ _ _. Pair True), picture_rescale = (\<lambda>_ _. Pair True), encoder_add = (\<lambda>_ _. Pair True),
     encoder_end = (\<lambda>_. Pair True), encoder_assemble = Pair (Some [82]), mux_profile = (\<lambda>_ _. Pair None)\<rparr>"

theorem conversion_feeds_composed_frames_witness:
  "\<exists>pictures w2 w3. add_pictures sample_webp (lossy_config Quality_standard) pictures (w2 :: u32 \<times> u32) = (True, w3)
    \<and> length pictures = 2 \<and> pic_timestamp (pictures ! 1) = 100"
proof -
  let ?c = "encode_apng (\<lambda>_. 7) sample_animation [8, 6, 0, 0, 0] sample_shared [[1]] [[[4]]]"
  have zeros: "replicate 8 (0 :: byte) = [0, 0, 0, 0, 0, 0, 0, 0]" by (simp add: numeral_eq_Suc)
  have "convert_apng_to_webp (\<lambda>_. 7) sample_png sample_webp ?c 2 1 Quality_standard (0, 0) = (Inr [82], (1, 1))"
    by (simp add: Let_def convert_apng_to_webp_def sample_animation_decodes sample_decoded_def sample_frame_def int_max_def
        apng_canvas_size_def size_max_def sample_webp_def encode_animation_def initialize_apng_webp_config_def
        add_apng_picture_def apng_picture_def compose_apng_frame_def rgba_size_def source_over_def overwrite_def pixel_offset_def
        source_over_pixel_def apng_frame_duration_ms_def zeros)
  from conversion_feeds_composed_frames [OF this] obtain pictures w2 w3
    where fed: "add_pictures sample_webp (lossy_config Quality_standard) pictures (w2 :: u32 \<times> u32) = (True, w3)"
      and pictures: "length pictures = length (da_frames sample_decoded)"
        "\<forall>i < length pictures. pic_timestamp (pictures ! i) = sum_list (take i (map frame_duration (da_frames sample_decoded)))"
    unfolding sample_animation_decodes by auto
  moreover have "length (da_frames sample_decoded) = 2" "sum_list (take 1 (map frame_duration (da_frames sample_decoded))) = 100"
    by (simp_all add: sample_decoded_def sample_frame_def frame_duration_def apng_frame_duration_ms_def)
  ultimately show ?thesis by (intro exI [of _ pictures] exI [of _ w2] exI [of _ w3]) auto
qed

end
