(* ===== verification/Binary64.thy ===== *)
theory Binary64
  imports Complex_Main
begin

text \<open>
  The double arithmetic of the resize rules: a finite \<^verbatim>\<open>double\<close> is a rational
  number, and an operation is the exact rational operation followed by rounding to 53 significant bits, ties
  to even. The rule is that of IEEE 754 for results without underflow and overflow; the sources compute
  quotients and products of numbers between \<open>2 ^ -32\<close> and \<open>2 ^ 64\<close> only.
\<close>

definition pow2 :: "int \<Rightarrow> rat" where
  "pow2 k = (if 0 \<le> k then 2 ^ nat k else 1 / 2 ^ nat (- k))"

fun bit_count :: "nat \<Rightarrow> nat" where
  "bit_count n = (if n = 0 then 0 else Suc (bit_count (n div 2)))"

declare bit_count.simps [simp del]

text \<open>The exponent \<open>e\<close> of a positive rational with \<open>2 ^ e \<le> x < 2 ^ (e +
  1)\<close>.\<close>

definition exponent2 :: "rat \<Rightarrow> int" where
  "exponent2 x =
     (let (p, q) = quotient_of x;
          e = int (bit_count (nat p)) - int (bit_count (nat q))
      in if pow2 e \<le> x then e else e - 1)"

definition round_half_even :: "rat \<Rightarrow> int" where
  "round_half_even x =
     (let n = \<lfloor>x\<rfloor>; d = x - of_int n
      in if d < 1 / 2 then n else if 1 / 2 < d then n + 1 else if even n then n else n + 1)"

definition round64 :: "rat \<Rightarrow> rat" where
  "round64 x =
     (if x \<le> 0 then 0
      else let u = pow2 (exponent2 x - 52) in of_int (round_half_even (x / u)) * u)"

definition div64 :: "rat \<Rightarrow> rat \<Rightarrow> rat" where
  "div64 x y = round64 (x / y)"

definition mult64 :: "rat \<Rightarrow> rat \<Rightarrow> rat" where
  "mult64 x y = round64 (x * y)"

text \<open>\<^verbatim>\<open>std::round\<close> of a value that is not negative.\<close>

definition round_away :: "rat \<Rightarrow> int" where
  "round_away x = \<lfloor>x + 1 / 2\<rfloor>"

section \<open>Error bounds\<close>

lemma pow2_pos [simp]: "0 < pow2 k"
  by (simp add: pow2_def)

lemma pow2_add: "pow2 (j + k) = pow2 j * pow2 k"
proof -
  have step: "pow2 (k + 1) = 2 * pow2 k" for k
  proof (cases "0 \<le> k")
    case True
    then show ?thesis by (simp add: pow2_def nat_add_distrib)
  next
    case False
    then have "nat (- k) = Suc (nat (- (k + 1)))" by linarith
    with False show ?thesis by (auto simp: pow2_def)
  qed
  have nat: "pow2 (j + int n) = pow2 j * 2 ^ n" for j n
  proof (induction n)
    case (Suc n)
    with step [of "j + int n"] show ?case by (simp add: ac_simps)
  qed simp
  show ?thesis
  proof (cases "0 \<le> k")
    case True
    with nat [of j "nat k"] show ?thesis by (simp add: pow2_def [of k])
  next
    case False
    with nat [of "j + k" "nat (- k)"] show ?thesis by (simp add: pow2_def [of k])
  qed
qed

lemma pow2_of_nat: "pow2 (int n) = 2 ^ n"
  by (simp add: pow2_def)

lemma pow2_Suc: "pow2 (k + 1) = 2 * pow2 k"
  by (simp add: pow2_add pow2_def [of 1])

lemma bit_count_bounds: "0 < n \<Longrightarrow> 2 ^ (bit_count n - 1) \<le> n \<and> n < 2 ^ bit_count n \<and> 0 < bit_count n"
proof (induction n rule: bit_count.induct)
  case (1 n)
  show ?case
  proof (cases "n div 2 = 0")
    case True
    with 1 have "n = 1" by linarith
    then show ?thesis by (simp add: bit_count.simps)
  next
    case False
    with 1 have ih: "2 ^ (bit_count (n div 2) - 1) \<le> n div 2" "n div 2 < 2 ^ bit_count (n div 2)" "0 < bit_count (n div 2)"
      by auto
    have double: "2 * a \<le> n" if "a \<le> n div 2" for a using that by linarith
    have "2 * 2 ^ (bit_count (n div 2) - 1) \<le> n" by (rule double [OF ih(1)])
    with ih(3) have "2 ^ bit_count (n div 2) \<le> n" by (cases "bit_count (n div 2)") auto
    moreover have "n < 2 * a" if "n div 2 < a" for a using that by linarith
    from this [OF ih(2)] have "n < 2 * 2 ^ bit_count (n div 2)" .
    moreover have "bit_count n = Suc (bit_count (n div 2))" using 1(2) by (simp add: bit_count.simps [of n])
    ultimately show ?thesis by simp
  qed
qed

lemma exponent2_bounds:
  assumes "0 < x"
  shows "pow2 (exponent2 x) \<le> x" and "x < pow2 (exponent2 x + 1)"
proof -
  obtain p q where pq: "quotient_of x = (p, q)" by fastforce
  then have x: "x = of_int p / of_int q" and q: "0 < q" by (simp_all add: quotient_of_div quotient_of_denom_pos)
  with assms have p: "0 < p" by (simp add: zero_less_divide_iff)
  let ?b = "bit_count (nat p)" and ?c = "bit_count (nat q)"
  have of_nat: "of_int i < (2 ^ bit_count (nat i) :: rat) \<and> 2 ^ bit_count (nat i) \<le> 2 * (of_int i :: rat)" if "0 < i" for i
  proof -
    from that have b: "2 ^ (bit_count (nat i) - 1) \<le> nat i" "nat i < 2 ^ bit_count (nat i)" "0 < bit_count (nat i)"
      using bit_count_bounds [of "nat i"] by auto
    have "(of_nat (nat i) :: rat) < of_nat (2 ^ bit_count (nat i))" using b(2) by (simp only: of_nat_less_iff)
    moreover have "(of_nat (2 ^ (bit_count (nat i) - 1)) :: rat) \<le> of_nat (nat i)" using b(1) by (simp only: of_nat_le_iff)
    moreover have "(2 :: rat) ^ bit_count (nat i) = 2 * 2 ^ (bit_count (nat i) - 1)" using b(3) by (cases "bit_count (nat i)") auto
    ultimately show ?thesis using that by simp
  qed
  have e: "pow2 (int ?b - int ?c) = 2 ^ ?b / 2 ^ ?c"
    using pow2_add [of "int ?b - int ?c" "int ?c"] by (simp add: pow2_of_nat eq_divide_eq)
  have "x < 2 * pow2 (int ?b - int ?c)"
    using frac_less [of "rat_of_int p" "2 ^ ?b" "2 ^ ?c / 2" "of_int q"] of_nat [OF p] of_nat [OF q] p
    unfolding x e by (simp add: mult.commute)
  moreover have "pow2 (int ?b - int ?c) \<le> 2 * x"
    using frac_le [of "2 * rat_of_int p" "2 ^ ?b" "of_int q" "2 ^ ?c"] of_nat [OF p] of_nat [OF q] q p
    unfolding x e by simp
  moreover have "pow2 (int ?b - int ?c) = 2 * pow2 (int ?b - int ?c - 1)"
    using pow2_Suc [of "int ?b - int ?c - 1"] by simp
  ultimately show "pow2 (exponent2 x) \<le> x" "x < pow2 (exponent2 x + 1)"
    by (auto simp: exponent2_def pq pow2_Suc Let_def)
qed

lemma round_half_even_error: "\<bar>of_int (round_half_even x) - x\<bar> \<le> 1 / 2"
  unfolding round_half_even_def Let_def
  using of_int_floor_le [of x] real_of_int_floor_add_one_gt by (simp add: abs_if) linarith

text \<open>The relative error of one rounding is at most \<open>2 ^ -53\<close>.\<close>

lemma round64_error:
  assumes "0 < x"
  shows "\<bar>round64 x - x\<bar> \<le> x / 2 ^ 53"
proof -
  let ?u = "pow2 (exponent2 x - 52)"
  have u: "pow2 (exponent2 x) = ?u * 2 ^ 52"
    using pow2_add [of "exponent2 x - 52" 52] by (simp add: pow2_def [of 52])
  have "\<bar>of_int (round_half_even (x / ?u)) - x / ?u\<bar> * ?u \<le> 1 / 2 * ?u"
    by (intro mult_right_mono round_half_even_error) (simp add: less_imp_le)
  moreover have "\<bar>round64 x - x\<bar> = \<bar>of_int (round_half_even (x / ?u)) - x / ?u\<bar> * ?u"
  proof -
    have "round64 x - x = (of_int (round_half_even (x / ?u)) - x / ?u) * ?u"
      using assms pow2_pos [of "exponent2 x - 52"] by (simp add: round64_def Let_def left_diff_distrib less_imp_neq [symmetric])
    then show ?thesis by (simp add: abs_mult abs_of_pos [OF pow2_pos])
  qed
  ultimately have "\<bar>round64 x - x\<bar> \<le> 1 / 2 * ?u" by (simp only:)
  moreover have "1 / 2 * ?u \<le> x / 2 ^ 53"
    using exponent2_bounds(1) [OF assms] unfolding u by simp
  ultimately show ?thesis by (rule order_trans)
qed

end
