(* ===== verification/Resize.thy ===== *)
theory Resize
  imports Prelude Binary64
begin

text \<open>
  \<^verbatim>\<open>src/media/resize.cpp\<close>: the dimension limits of the media path, the scale of a
  static resize and the target of an animated one. The \<^verbatim>\<open>std::int64_t\<close> arguments are
  integers: the callers pass \<^verbatim>\<open>int\<close>
  values, and no operation on them can leave the type.
\<close>

record image_dimensions =
  dim_width :: u32
  dim_height :: u32

type_synonym animated_resize = image_dimensions

definition maximum_media_width :: int where "maximum_media_width = 7680"
definition maximum_media_height :: int where "maximum_media_height = 4320"

definition rounded_dimension :: "rat \<Rightarrow> u32 option" where
  "rounded_dimension x =
     (let r = round_away x in if r < 1 \<or> 4294967295 < r then None else Some (of_int r))"

definition validate_dimensions :: "int \<Rightarrow> int \<Rightarrow> int \<Rightarrow> bool \<Rightarrow> image_dimensions option" where
  "validate_dimensions loaded_width loaded_height page_count animated =
     (if loaded_width \<le> 0 \<or> loaded_height \<le> 0 \<or> page_count \<le> 0 then None
      else if animated \<and> loaded_height mod page_count \<noteq> 0 then None
      else
        let frame_height = (if animated then loaded_height div page_count else loaded_height)
        in if frame_height \<le> 0 \<or> maximum_media_width < loaded_width \<or> maximum_media_height < frame_height
           then None
           else Some \<lparr>dim_width = of_int loaded_width, dim_height = of_int frame_height\<rparr>)"

definition rat_of_u32 :: "u32 \<Rightarrow> rat" where
  "rat_of_u32 x = of_nat (unat x)"

definition static_resize_scale :: "image_dimensions \<Rightarrow> image_dimensions \<Rightarrow> rat option" where
  "static_resize_scale source limits =
     (let w = dim_width source; h = dim_height source; W = dim_width limits; H = dim_height limits
      in if w = 0 \<or> h = 0 \<or> W = 0 \<or> H = 0 then None
         else if w \<le> W \<and> h \<le> H then None
         else
           let width_excess = uint w - uint W; height_excess = uint h - uint H
           in Some (if width_excess < height_excess then div64 (rat_of_u32 H) (rat_of_u32 h)
                    else div64 (rat_of_u32 W) (rat_of_u32 w)))"

definition animated_resize_target :: "image_dimensions \<Rightarrow> image_dimensions \<Rightarrow> animated_resize option" where
  "animated_resize_target source limits =
     (let w = dim_width source; h = dim_height source; W = dim_width limits; H = dim_height limits
      in if w = 0 \<or> h = 0 then None
         else if w \<le> W \<and> h \<le> H then None
         else
           let aspect = div64 (rat_of_u32 w) (rat_of_u32 h);
               width_excess = uint w - uint W; height_excess = uint h - uint H;
               both = W \<noteq> 0 \<and> H \<noteq> 0 \<and> W < w \<and> H < h;
               W' = (if both \<and> width_excess < height_excess then 0 else W);
               H' = (if both \<and> \<not> width_excess < height_excess then 0 else H)
           in if W' \<noteq> 0 \<and> W' < w
              then (case rounded_dimension (div64 (rat_of_u32 W') aspect) of
                      None \<Rightarrow> None
                    | Some height \<Rightarrow> Some \<lparr>dim_width = W', dim_height = height\<rparr>)
              else if W' = 0 \<and> H' \<noteq> 0 \<and> H' < h
              then (case rounded_dimension (mult64 (rat_of_u32 H') aspect) of
                      None \<Rightarrow> None
                    | Some width \<Rightarrow> Some \<lparr>dim_width = width, dim_height = H'\<rparr>)
              else Some \<lparr>dim_width = w, dim_height = h\<rparr>)"

section \<open>Bounds\<close>

lemma uint_of_pos_int:
  assumes "0 \<le> i" and "i < 2 ^ 32"
  shows "uint (word_of_int i :: u32) = i"
  using assms by (simp add: unsigned_of_int take_bit_int_eq_self)

lemma validate_dimensions_Some:
  assumes "validate_dimensions lw lh n animated = Some d"
  shows "int (unat (dim_width d)) = lw \<and> 0 < lw \<and> lw \<le> 7680
    \<and> 0 < dim_height d \<and> unat (dim_height d) \<le> 4320
    \<and> int (unat (dim_height d)) * (if animated then n else 1) = lh"
proof -
  define fh where "fh = (if animated then lh div n else lh)"
  from assms have c: "0 < lw" "lw \<le> 7680" "0 < fh" "fh \<le> 4320" "animated \<longrightarrow> lh mod n = 0"
    and d: "d = \<lparr>dim_width = of_int lw, dim_height = of_int fh\<rparr>"
    by (auto simp: validate_dimensions_def Let_def fh_def maximum_media_width_def maximum_media_height_def split: if_splits)
  then have u: "int (unat (dim_width d)) = lw" "int (unat (dim_height d)) = fh"
    by (simp_all add: uint_of_pos_int)
  moreover have "fh * (if animated then n else 1) = lh"
    using c(5) by (auto simp: fh_def)
  moreover from u c have "0 < unat (dim_height d)" "unat (dim_height d) \<le> 4320" by linarith+
  ultimately show ?thesis using c by (simp add: word_less_nat_alt)
qed

lemma error_sum:
  fixes u v w b c t :: rat
  assumes "\<bar>u - v\<bar> \<le> b / 2 ^ 53" and "\<bar>v - w\<bar> \<le> c / 2 ^ 53" and "b \<le> 2 * t" and "c \<le> 2 * t"
  shows "\<bar>u - w\<bar> \<le> t / 2 ^ 51"
proof -
  have "b / 2 ^ 53 \<le> 2 * t / 2 ^ 53" "c / 2 ^ 53 \<le> 2 * t / 2 ^ 53"
    using assms(3,4) by (intro divide_right_mono; simp)+
  moreover have "\<bar>u - w\<bar> \<le> \<bar>u - v\<bar> + \<bar>v - w\<bar>" by linarith
  ultimately have "\<bar>u - w\<bar> \<le> 2 * t / 2 ^ 53 + 2 * t / 2 ^ 53" using assms(1,2) by linarith
  also have "\<dots> = t / 2 ^ 51" by simp
  finally show ?thesis .
qed

lemma quotient_error:
  assumes "0 < p" and "0 < q" and "0 < r"
  shows "\<bar>div64 r (div64 p q) - r * q / p\<bar> \<le> r * q / p / 2 ^ 51"
    and "\<bar>mult64 r (div64 p q) - r * p / q\<bar> \<le> r * p / q / 2 ^ 51"
proof -
  define x where "x = p / q"
  define a where "a = div64 p q"
  have x: "0 < x" using assms by (simp add: x_def)
  have err: "\<bar>a - x\<bar> \<le> x / 2 ^ 53" unfolding a_def x_def div64_def by (rule round64_error) (use assms in simp)
  then have a: "x - x / 2 ^ 53 \<le> a" "a \<le> x + x / 2 ^ 53" by linarith+
  have half: "x / 2 ^ 53 \<le> x / 2" using x by (intro divide_left_mono) simp_all
  with a(1) x have pos: "0 < a" by linarith
  have "\<bar>mult64 r a - r * a\<bar> \<le> r * a / 2 ^ 53"
    unfolding mult64_def by (rule round64_error) (use pos assms in simp)
  moreover have "\<bar>r * a - r * x\<bar> \<le> r * x / 2 ^ 53"
    using mult_left_mono [OF err, of r] assms(3) by (simp add: abs_mult flip: right_diff_distrib)
  moreover have "r * a \<le> 2 * (r * x)"
    proof -
    have "a \<le> 2 * x" using a(2) x half by linarith
    from mult_left_mono [OF this, of r] assms(3) show ?thesis by (simp add: ac_simps)
  qed
  moreover have "r * x \<le> 2 * (r * x)" using x assms(3) by simp
  ultimately have "\<bar>mult64 r a - r * x\<bar> \<le> r * x / 2 ^ 51" by (rule error_sum)
  then show "\<bar>mult64 r (div64 p q) - r * p / q\<bar> \<le> r * p / q / 2 ^ 51" by (simp add: a_def x_def)
  have "\<bar>div64 r a - r / a\<bar> \<le> r / a / 2 ^ 53"
    unfolding div64_def by (rule round64_error) (use pos assms in simp)
  moreover have "\<bar>r / a - r / x\<bar> \<le> r / a / 2 ^ 53"
  proof -
    have "r / a - r / x = r * (x - a) / (a * x)" using x pos by (simp add: field_simps)
    then have "\<bar>r / a - r / x\<bar> = r * \<bar>a - x\<bar> / (a * x)"
      using x pos assms(3) by (simp add: abs_mult abs_divide abs_minus_commute)
    also have "\<dots> \<le> r * (x / 2 ^ 53) / (a * x)"
      using err x pos assms(3) by (intro divide_right_mono mult_left_mono) simp_all
    also have "\<dots> = r / a / 2 ^ 53" using x by simp
    finally show ?thesis .
  qed
  moreover have "r / a \<le> 2 * (r / x)"
  proof -
    have "x / 2 \<le> a" using a(1) x half by linarith
    then have "r / a \<le> r / (x / 2)" using x pos assms(3) by (intro divide_left_mono) simp_all
    then show ?thesis by (simp add: mult.commute)
  qed
  ultimately have "\<bar>div64 r a - r / x\<bar> \<le> r / x / 2 ^ 51" by (intro error_sum [of _ "r / a"])
  then show "\<bar>div64 r (div64 p q) - r * q / p\<bar> \<le> r * q / p / 2 ^ 51" by (simp add: a_def x_def)
qed

lemma rounded_dimension_Some:
  assumes "rounded_dimension x = Some d"
  shows "1 \<le> unat d \<and> \<bar>rat_of_u32 d - x\<bar> \<le> 1 / 2"
proof -
  from assms have r: "1 \<le> round_away x" "round_away x \<le> 4294967295" and d: "d = of_int (round_away x)"
    by (auto simp: rounded_dimension_def Let_def split: if_splits)
  then have u: "uint d = round_away x" using uint_of_pos_int [of "round_away x"] by simp
  with r(1) have "1 \<le> int (unat d)" by (simp only: uint_nat)
  then have "1 \<le> unat d" by linarith
  moreover have "rat_of_u32 d = of_int (round_away x)"
    unfolding rat_of_u32_def by (metis of_int_of_nat_eq u uint_nat)
  moreover have "\<bar>of_int (round_away x) - x\<bar> \<le> 1 / 2"
    unfolding round_away_def using floor_correct [of "x + 1 / 2"] by linarith
  ultimately show ?thesis by simp
qed

lemma rat_of_u32_pos: "0 < rat_of_u32 x \<longleftrightarrow> x \<noteq> 0"
  by (simp only: rat_of_u32_def of_nat_0_less_iff unat_gt_0)

lemma rat_of_u32_less: "rat_of_u32 x < rat_of_u32 y \<longleftrightarrow> x < y"
  unfolding rat_of_u32_def word_less_nat_alt by (rule of_nat_less_iff)

lemma rat_of_u32_le: "rat_of_u32 x \<le> rat_of_u32 y \<longleftrightarrow> x \<le> y"
  unfolding rat_of_u32_def word_le_nat_alt by (rule of_nat_le_iff)

lemma rat_of_u32_bound: "rat_of_u32 x < 2 ^ 32"
proof -
  have "unat x < 2 ^ 32" using unsigned_less [of x, where ?'a = nat] by simp
  then have "rat_of_nat (unat x) < of_nat (2 ^ 32)" by (simp only: of_nat_less_iff)
  then show ?thesis by (simp add: rat_of_u32_def)
qed

lemma rat_of_u32_Suc:
  assumes "x < y"
  shows "rat_of_u32 x + 1 \<le> rat_of_u32 y"
proof -
  from assms have "Suc (unat x) \<le> unat y" by (simp add: word_less_nat_alt Suc_le_eq)
  then have "rat_of_nat (Suc (unat x)) \<le> of_nat (unat y)" by (simp only: of_nat_le_iff)
  then show ?thesis unfolding rat_of_u32_def by (simp only: of_nat_Suc add.commute)
qed

text \<open>The other side of a shrunken rectangle: within a half of the exact value, up to rounding
  noise, and never larger than the side it came from.\<close>

lemma shrunken_side:
  assumes "rounded_dimension v = Some d" and "\<bar>v - L * t / s\<bar> \<le> L * t / s / 2 ^ 51"
    and "0 < L" and "L < s" and "0 < t" and "t < 2 ^ 32" and "t = rat_of_u32 k"
  shows "1 \<le> unat d \<and> d \<le> k \<and> \<bar>rat_of_u32 d - L * t / s\<bar> \<le> 1 / 2 + 1 / 2 ^ 19"
proof -
  have "L * t / s \<le> t"
    using assms(3-5) by (simp add: pos_divide_le_eq mult.commute [of t] mult_right_mono)
  moreover from this have "L * t / s / 2 ^ 51 \<le> 2 ^ 32 / 2 ^ 51"
    using assms(6) by (intro divide_right_mono) simp_all
  ultimately have v: "\<bar>v - L * t / s\<bar> \<le> 1 / 2 ^ 19" "v \<le> t + 1 / 2 ^ 19"
    using assms(2) by simp_all
  have d: "1 \<le> unat d" "\<bar>rat_of_u32 d - v\<bar> \<le> 1 / 2" using rounded_dimension_Some [OF assms(1)] by simp_all
  have "1 / 2 ^ 19 < (1 / 2 :: rat)" by simp
  with d(2) v(2) have "rat_of_u32 d < t + 1" by linarith
  then have "d \<le> k" using rat_of_u32_Suc [of k d] assms(7) by (auto simp: not_less [symmetric])
  moreover have "\<bar>rat_of_u32 d - L * t / s\<bar> \<le> 1 / 2 + 1 / 2 ^ 19" using d(2) v(1) by linarith
  ultimately show ?thesis using d by blast
qed

section \<open>Properties\<close>

text \<open>A static resize always shrinks: the scale is positive, below one, and is the quotient of a limit
  and the exceeding side up to one rounding.\<close>

lemma static_resize_scale_shrinks:
  assumes "static_resize_scale source limits = Some scale"
  shows "0 < scale \<and> scale < 1
    \<and> (\<exists>(l, s) \<in> {(dim_width limits, dim_width source), (dim_height limits, dim_height source)}.
         0 < l \<and> l < s \<and> \<bar>scale - rat_of_u32 l / rat_of_u32 s\<bar> \<le> 1 / 2 ^ 53)"
proof -
  let ?dims = "{(dim_width limits, dim_width source), (dim_height limits, dim_height source)}"
  obtain l s where ls: "(l, s) \<in> ?dims" "0 < l" "l < s" and scale: "scale = div64 (rat_of_u32 l) (rat_of_u32 s)"
  proof -
    from assms have facts: "dim_width limits \<noteq> 0" "dim_height limits \<noteq> 0"
      "\<not> (uint (dim_width source) \<le> uint (dim_width limits) \<and> uint (dim_height source) \<le> uint (dim_height limits))"
      and scale: "scale = (if uint (dim_width source) - uint (dim_width limits) < uint (dim_height source) - uint (dim_height limits)
        then div64 (rat_of_u32 (dim_height limits)) (rat_of_u32 (dim_height source))
        else div64 (rat_of_u32 (dim_width limits)) (rat_of_u32 (dim_width source)))"
      by (auto simp: static_resize_scale_def Let_def word_le_def split: if_splits)
    show ?thesis
    proof (cases "uint (dim_width source) - uint (dim_width limits) < uint (dim_height source) - uint (dim_height limits)")
      case True
      with facts(3) have "uint (dim_height limits) < uint (dim_height source)" by linarith
      with True scale facts(2) show ?thesis
        by (intro that [of "dim_height limits" "dim_height source"]) (simp_all add: word_gt_0 flip: word_less_def)
    next
      case False
      with facts(3) have "uint (dim_width limits) < uint (dim_width source)" by linarith
      with False scale facts(1) show ?thesis
        by (intro that [of "dim_width limits" "dim_width source"]) (simp_all add: word_gt_0 flip: word_less_def)
    qed
  qed
  let ?x = "rat_of_u32 l / rat_of_u32 s"
  have pos: "0 < rat_of_u32 l" "0 < rat_of_u32 s" using ls(2,3) by (auto simp: rat_of_u32_pos word_gt_0)
  then have x: "0 < ?x" by simp
  have "?x \<le> 1 - 1 / rat_of_u32 s"
    using rat_of_u32_Suc [OF ls(3)] pos by (simp add: field_simps)
  moreover have "1 / 2 ^ 32 < 1 / rat_of_u32 s"
    using rat_of_u32_bound [of s] pos by (intro divide_strict_left_mono) simp_all
  ultimately have x1: "?x < 1 - 1 / 2 ^ 32" by linarith
  have err: "\<bar>scale - ?x\<bar> \<le> ?x / 2 ^ 53"
    unfolding scale div64_def by (rule round64_error [OF x])
  moreover have "?x / 2 ^ 53 \<le> 1 / 2 ^ 53"
  proof (rule divide_right_mono)
    have "(0 :: rat) \<le> 1 / 2 ^ 32" by simp
    with x1 show "?x \<le> 1" by linarith
  qed simp
  moreover have "?x / 2 ^ 53 < ?x" using x by simp
  moreover have "(1 :: rat) / 2 ^ 53 < 1 / 2 ^ 32" by simp
  ultimately have "0 < scale" "scale < 1" "\<bar>scale - ?x\<bar> \<le> 1 / 2 ^ 53" using x1 by linarith+
  with ls show ?thesis by blast
qed

text \<open>C32. The target of an animated resize is never empty and never larger than the source in either
  direction; either the source dimensions are kept, or one side is exactly the limit and the other
  is within a half (and the noise of two double roundings) of the proportional value.\<close>

theorem animated_resize_target_bounds:
  assumes "animated_resize_target source limits = Some t"
  shows "0 < dim_width t \<and> dim_width t \<le> dim_width source \<and> 0 < dim_height t \<and> dim_height t \<le> dim_height source
    \<and> (t = source
       \<or> dim_width t = dim_width limits
         \<and> \<bar>rat_of_u32 (dim_height t) - rat_of_u32 (dim_width limits) * rat_of_u32 (dim_height source)
             / rat_of_u32 (dim_width source)\<bar> \<le> 1 / 2 + 1 / 2 ^ 19
       \<or> dim_height t = dim_height limits
         \<and> \<bar>rat_of_u32 (dim_width t) - rat_of_u32 (dim_height limits) * rat_of_u32 (dim_width source)
             / rat_of_u32 (dim_height source)\<bar> \<le> 1 / 2 + 1 / 2 ^ 19)"
proof -
  let ?w = "dim_width source" and ?h = "dim_height source"
  let ?a = "div64 (rat_of_u32 ?w) (rat_of_u32 ?h)"
  from assms have src: "?w \<noteq> 0" "?h \<noteq> 0" by (auto simp: animated_resize_target_def Let_def)
  then have pos: "0 < rat_of_u32 ?w" "0 < rat_of_u32 ?h" by (simp_all add: rat_of_u32_pos)
  from assms consider
      (kept) "t = source"
    | (width) d where "0 < dim_width limits" "dim_width limits < ?w" "t = \<lparr>dim_width = dim_width limits, dim_height = d\<rparr>"
        "rounded_dimension (div64 (rat_of_u32 (dim_width limits)) ?a) = Some d"
    | (height) d where "0 < dim_height limits" "dim_height limits < ?h" "t = \<lparr>dim_width = d, dim_height = dim_height limits\<rparr>"
        "rounded_dimension (mult64 (rat_of_u32 (dim_height limits)) ?a) = Some d"
    by (auto simp: animated_resize_target_def Let_def word_gt_0 split: if_splits option.splits)
  then show ?thesis
  proof cases
    case kept
    with src show ?thesis by (simp add: word_gt_0)
  next
    case width
    have "\<bar>div64 (rat_of_u32 (dim_width limits)) ?a - rat_of_u32 (dim_width limits) * rat_of_u32 ?h / rat_of_u32 ?w\<bar>
        \<le> rat_of_u32 (dim_width limits) * rat_of_u32 ?h / rat_of_u32 ?w / 2 ^ 51"
      by (rule quotient_error) (use pos width(1) in \<open>simp_all add: rat_of_u32_pos word_gt_0\<close>)
    from shrunken_side [OF width(4) this _ _ pos(2) rat_of_u32_bound refl] width(1,2)
    have "1 \<le> unat d" "d \<le> ?h"
      "\<bar>rat_of_u32 d - rat_of_u32 (dim_width limits) * rat_of_u32 ?h / rat_of_u32 ?w\<bar> \<le> 1 / 2 + 1 / 2 ^ 19"
      by (auto simp only: rat_of_u32_pos rat_of_u32_less word_gt_0)
    moreover from this(1) have "0 < d" by (simp add: word_less_nat_alt)
    ultimately show ?thesis using width(1,2,3) by (simp add: less_imp_le)
  next
    case height
    have "\<bar>mult64 (rat_of_u32 (dim_height limits)) ?a - rat_of_u32 (dim_height limits) * rat_of_u32 ?w / rat_of_u32 ?h\<bar>
        \<le> rat_of_u32 (dim_height limits) * rat_of_u32 ?w / rat_of_u32 ?h / 2 ^ 51"
      by (rule quotient_error) (use pos height(1) in \<open>simp_all add: rat_of_u32_pos word_gt_0\<close>)
    from shrunken_side [OF height(4) this _ _ pos(1) rat_of_u32_bound refl] height(1,2)
    have "1 \<le> unat d" "d \<le> ?w"
      "\<bar>rat_of_u32 d - rat_of_u32 (dim_height limits) * rat_of_u32 ?w / rat_of_u32 ?h\<bar> \<le> 1 / 2 + 1 / 2 ^ 19"
      by (auto simp only: rat_of_u32_pos rat_of_u32_less word_gt_0)
    moreover from this(1) have "0 < d" by (simp add: word_less_nat_alt)
    ultimately show ?thesis using height(1,2,3) by (simp add: less_imp_le)
  qed
qed

theorem animated_resize_target_bounds_witness:
  "animated_resize_target \<lparr>dim_width = 640, dim_height = 320\<rparr> \<lparr>dim_width = 320, dim_height = 320\<rparr> =
     Some \<lparr>dim_width = 320, dim_height = 160\<rparr> \<and> (160 :: u32) \<le> 320"
proof -
  have floor: "\<lfloor>321 / 2 :: rat\<rfloor> = 160" by (simp add: floor_eq_iff)
  have run: "animated_resize_target \<lparr>dim_width = 640, dim_height = 320\<rparr> \<lparr>dim_width = 320, dim_height = 320\<rparr> =
     Some \<lparr>dim_width = 320, dim_height = 160\<rparr>"
    using floor by (simp add: animated_resize_target_def Let_def div64_def round64_def exponent2_def rat_of_u32_def bit_count.simps pow2_def
        round_half_even_def rounded_dimension_def round_away_def)
  from run animated_resize_target_bounds [OF run] show ?thesis by simp
qed

end
