(* ===== verification/Avif_Alpha.thy ===== *)
theory Avif_Alpha
  imports Resize
begin

text \<open>
  \<^verbatim>\<open>src/media/avif_alpha.cpp\<close>: the alpha track of an AVIF sequence and the merge of
  one of its frames into a decoded RGBA frame. The libheif calls are parameters over a world; a track is a
  handle, a decoded image is a value with the properties that the sources ask for.
\<close>

record rgba_image =
  im_width :: int
  im_height :: int
  im_duration :: u32
  im_plane :: "bytes option"
  im_stride :: nat

record alpha_image =
  al_monochrome :: bool
  al_duration :: u32
  al_width :: int
  al_height :: int
  al_depth :: int
  al_storage_bits :: int
  al_plane :: "bytes option"
  al_stride :: nat

text \<open>The result of decoding the next image of a track; the sources check for a null image
  themselves.\<close>

datatype 'f decoded = Heif_end_of_sequence | Heif_failure | Heif_image "'f option"

record ('t, 'w) heif_api =
  heif_context_alloc :: "'w \<Rightarrow> bool \<times> 'w"
  heif_context_read :: "bytes \<Rightarrow> 'w \<Rightarrow> bool \<times> 'w"
  heif_has_sequence :: "'w \<Rightarrow> bool"
  heif_get_track :: "u32 \<Rightarrow> 'w \<Rightarrow> 't option \<times> 'w"
  heif_is_image_sequence :: "'t \<Rightarrow> 'w \<Rightarrow> bool"
  heif_has_alpha_channel :: "'t \<Rightarrow> 'w \<Rightarrow> bool"
  heif_referring_tracks :: "'t \<Rightarrow> nat \<Rightarrow> 'w \<Rightarrow> u32 list"
  heif_timescale :: "'t \<Rightarrow> 'w \<Rightarrow> u32"
  heif_resolution :: "'t \<Rightarrow> 'w \<Rightarrow> (u16 \<times> u16) option"
  heif_options_alloc :: "'w \<Rightarrow> bool \<times> 'w"
  heif_next_rgba :: "'t \<Rightarrow> 'w \<Rightarrow> rgba_image decoded \<times> 'w"
  heif_next_alpha :: "'t \<Rightarrow> 'w \<Rightarrow> alpha_image decoded \<times> 'w"

section \<open>The alpha track\<close>

text \<open>\<open>None\<close> for the result false, otherwise the alpha track if there is one.\<close>

definition find_avif_alpha_track :: "('t, 'w) heif_api \<Rightarrow> 't \<Rightarrow> 'w \<Rightarrow> 't option option \<times> 'w" where
  "find_avif_alpha_track heif visual w =
     (if heif_has_alpha_channel heif visual w then (Some None, w)
      else
        let ids = heif_referring_tracks heif visual 2 w
        in if length ids = 0 then (Some None, w)
           else if length ids \<noteq> 1 then (None, w)
           else case heif_get_track heif (ids ! 0) w of
                  (None, w') \<Rightarrow> (None, w')
                | (Some candidate, w') \<Rightarrow>
                    if \<not> heif_is_image_sequence heif candidate w'
                       \<or> heif_timescale heif candidate w' \<noteq> heif_timescale heif visual w'
                    then (None, w') else (Some (Some candidate), w'))"

section \<open>The merge\<close>

definition sample_maximum :: "nat \<Rightarrow> u32" where
  "sample_maximum depth = push_bit depth 1 - 1"

definition scaled_alpha :: "u32 \<Rightarrow> u32 \<Rightarrow> byte" where
  "scaled_alpha maximum sample = ucast ((sample * 255 + maximum div 2) div maximum)"

text \<open>A sample in the byte order of the target, which stores the low byte first.\<close>

definition alpha_sample :: "bytes \<Rightarrow> nat \<Rightarrow> nat \<Rightarrow> u32" where
  "alpha_sample plane bytes_per_sample offset =
     (if bytes_per_sample = 2 then or (ucast (plane ! offset)) (push_bit 8 (ucast (plane ! (offset + 1))))
      else ucast (plane ! offset))"

fun merge_alpha ::
    "bytes \<Rightarrow> nat \<Rightarrow> nat \<Rightarrow> nat \<Rightarrow> u32 \<Rightarrow> (nat \<times> nat) list \<Rightarrow> bytes \<Rightarrow> bytes option" where
  "merge_alpha alpha alpha_stride bytes_per_sample rgba_stride maximum [] rgba = Some rgba"
| "merge_alpha alpha alpha_stride bytes_per_sample rgba_stride maximum ((y, x) # ps) rgba =
     (let sample = alpha_sample alpha bytes_per_sample (y * alpha_stride + x * bytes_per_sample)
      in if maximum < sample then None
         else merge_alpha alpha alpha_stride bytes_per_sample rgba_stride maximum ps
                (rgba[y * rgba_stride + x * 4 + 3 := scaled_alpha maximum sample]))"

definition merge_planes :: "alpha_image \<Rightarrow> rgba_image \<Rightarrow> rgba_image option" where
  "merge_planes alpha im =
     (let width = nat (im_width im); height = nat (im_height im);
          bytes_per_sample = nat (al_storage_bits alpha div 8)
      in case (al_plane alpha, im_plane im) of
           (Some alpha_pixels, Some rgba_pixels) \<Rightarrow>
             if al_stride alpha < width * bytes_per_sample \<or> im_stride im < width * 4
                \<or> size_max div max (al_stride alpha) (im_stride im) < height
             then None
             else
               map_option (\<lambda>px. im\<lparr>im_plane := Some px\<rparr>)
                 (merge_alpha alpha_pixels (al_stride alpha) bytes_per_sample (im_stride im)
                    (sample_maximum (nat (al_depth alpha))) (List.product [0..<height] [0..<width]) rgba_pixels)
         | _ \<Rightarrow> None)"

text \<open>\<open>None\<close> for the result false, otherwise the merged image.\<close>

definition apply_avif_alpha_frame ::
    "('t, 'w) heif_api \<Rightarrow> 't option \<Rightarrow> rgba_image \<Rightarrow> 'w \<Rightarrow> rgba_image option \<times> 'w" where
  "apply_avif_alpha_frame heif alpha im w =
     (case alpha of
        None \<Rightarrow> (Some im, w)
      | Some track \<Rightarrow>
          (case heif_next_alpha heif track w of
             (Heif_image (Some a), w') \<Rightarrow>
               (if \<not> al_monochrome a \<or> al_duration a \<noteq> im_duration im then (None, w')
                else if im_width im \<le> 0 \<or> im_height im \<le> 0 \<or> al_width a \<noteq> im_width im
                  \<or> al_height a \<noteq> im_height im
                then (None, w')
                else if al_depth a < 1 \<or> 16 < al_depth a \<or> (al_storage_bits a \<noteq> 8 \<and> al_storage_bits a \<noteq> 16)
                  \<or> al_storage_bits a < al_depth a
                then (None, w')
                else (merge_planes a im, w'))
           | (_, w') \<Rightarrow> (None, w')))"

section \<open>Scaling\<close>

lemma sample_maximum_unat:
  assumes "0 < depth" and "depth \<le> 16"
  shows "unat (sample_maximum depth) = 2 ^ depth - 1"
proof -
  have "depth = 1 \<or> depth = 2 \<or> depth = 3 \<or> depth = 4 \<or> depth = 5 \<or> depth = 6 \<or> depth = 7 \<or> depth = 8
    \<or> depth = 9 \<or> depth = 10 \<or> depth = 11 \<or> depth = 12 \<or> depth = 13 \<or> depth = 14 \<or> depth = 15 \<or> depth = 16"
    using assms by presburger
  then show ?thesis by (elim disjE) (simp_all add: sample_maximum_def)
qed

lemma scaled_alpha_unat:
  assumes "0 < unat m" and "unat m \<le> 65535" and "s \<le> m"
  shows "unat (scaled_alpha m s) = (unat s * 255 + unat m div 2) div unat m"
proof -
  have le: "unat s \<le> unat m" using assms(3) by (simp add: word_le_nat_alt)
  then have small: "unat s * 255 + unat m div 2 < 2 ^ 32" using assms(2) by simp
  have "unat s * 255 + unat m div 2 < 256 * unat m"
    using le assms(1) by linarith
  then have "(unat s * 255 + unat m div 2) div unat m < 256"
    using assms(1) by (simp add: div_less_iff_less_mult)
  then show ?thesis using small
    by (simp add: scaled_alpha_def unsigned_ucast_eq unat_div unat_word_ariths take_bit_nat_eq_self)
qed

section \<open>The merged pixels\<close>

lemma merge_alpha_updates:
  "merge_alpha alpha as bps rs m ps rgba = Some out \<Longrightarrow>
   (\<forall>(y, x) \<in> set ps. alpha_sample alpha bps (y * as + x * bps) \<le> m)
   \<and> out = fold (\<lambda>(y, x) px. px[y * rs + x * 4 + 3 := scaled_alpha m (alpha_sample alpha bps (y * as + x * bps))]) ps rgba"
proof (induction ps arbitrary: rgba)
  case (Cons p ps)
  obtain y x where p: "p = (y, x)" by (cases p)
  let ?v = "alpha_sample alpha bps (y * as + x * bps)"
  from Cons.prems p have "?v \<le> m"
    and "merge_alpha alpha as bps rs m ps (rgba[y * rs + x * 4 + 3 := scaled_alpha m ?v]) = Some out"
    by (auto simp: Let_def split: if_splits)
  with Cons.IH p show ?case by fastforce
qed simp

lemma fold_updates:
  assumes "inj_on pos (set ps)"
  shows "length (fold (\<lambda>p px. px[pos p := val p]) ps px) = length px
    \<and> (\<forall>p \<in> set ps. pos p < length px \<longrightarrow> fold (\<lambda>p px. px[pos p := val p]) ps px ! pos p = val p)
    \<and> (\<forall>i. i \<notin> pos ` set ps \<longrightarrow> fold (\<lambda>p px. px[pos p := val p]) ps px ! i = px ! i)"
  using assms
proof (induction ps arbitrary: px)
  case (Cons p ps)
  let ?px = "px[pos p := val p]"
  from Cons have IH: "length (fold (\<lambda>p px. px[pos p := val p]) ps ?px) = length ?px
    \<and> (\<forall>q \<in> set ps. pos q < length ?px \<longrightarrow> fold (\<lambda>p px. px[pos p := val p]) ps ?px ! pos q = val q)
    \<and> (\<forall>i. i \<notin> pos ` set ps \<longrightarrow> fold (\<lambda>p px. px[pos p := val p]) ps ?px ! i = ?px ! i)"
    by simp
  have "p \<in> set ps \<or> pos p \<notin> pos ` set ps"
    using Cons.prems by (auto simp: inj_on_def)
  with IH show ?case by (auto simp: nth_list_update)
qed simp

lemma channel_position:
  fixes w rs :: nat
  assumes "x < w" and "w * 4 \<le> rs" and "c < 4"
  shows "(y * rs + x * 4 + c) div rs = y" and "(y * rs + x * 4 + c) mod rs div 4 = x"
    and "(y * rs + x * 4 + c) mod rs mod 4 = c"
proof -
  have lt: "x * 4 + c < rs" using assms by linarith
  have eq: "y * rs + x * 4 + c = y * rs + (x * 4 + c)" by simp
  show "(y * rs + x * 4 + c) div rs = y" using lt unfolding eq by simp
  show "(y * rs + x * 4 + c) mod rs div 4 = x" "(y * rs + x * 4 + c) mod rs mod 4 = c"
    using lt assms(3) unfolding eq by simp_all
qed

text \<open>What the merge promises of the image it changes.\<close>

definition alpha_merged :: "alpha_image \<Rightarrow> rgba_image \<Rightarrow> rgba_image \<Rightarrow> bool" where
  "alpha_merged a im out \<longleftrightarrow>
     (\<exists>alpha old new. al_plane a = Some alpha \<and> im_plane im = Some old \<and> out = im\<lparr>im_plane := Some new\<rparr>
        \<and> length new = length old
        \<and> (\<forall>y x c. y < nat (im_height im) \<and> x < nat (im_width im) \<and> c < 4 \<and> y * im_stride im + x * 4 + c < length old \<longrightarrow>
             (let m = 2 ^ nat (al_depth a) - 1; bps = nat (al_storage_bits a div 8);
                  sample = unat (alpha_sample alpha bps (y * al_stride a + x * bps))
              in sample \<le> m
                 \<and> (c < 3 \<longrightarrow> new ! (y * im_stride im + x * 4 + c) = old ! (y * im_stride im + x * 4 + c))
                 \<and> (c = 3 \<longrightarrow> unat (new ! (y * im_stride im + x * 4 + c)) = (sample * 255 + m div 2) div m))))"

lemma merge_planes_merged:
  assumes "merge_planes a im = Some out" and "1 \<le> al_depth a" and "al_depth a \<le> 16"
  shows "alpha_merged a im out"
proof -
  let ?w = "nat (im_width im)" and ?h = "nat (im_height im)" and ?bps = "nat (al_storage_bits a div 8)"
    and ?m = "sample_maximum (nat (al_depth a))" and ?rs = "im_stride im" and ?as = "al_stride a"
  let ?ps = "List.product [0..<?h] [0..<?w]"
  from assms(1) obtain alpha old new where planes: "al_plane a = Some alpha" "im_plane im = Some old"
    and rs: "?w * 4 \<le> ?rs" and new: "merge_alpha alpha ?as ?bps ?rs ?m ?ps old = Some new"
    and out: "out = im\<lparr>im_plane := Some new\<rparr>"
    by (auto simp: merge_planes_def Let_def split: option.splits if_splits)
  have m: "unat ?m = 2 ^ nat (al_depth a) - 1"
    using assms(2,3) by (intro sample_maximum_unat) auto
  have "(2 :: nat) ^ nat (al_depth a) \<le> 2 ^ 16" using assms(3) by (intro power_increasing) auto
  moreover have "(2 :: nat) ^ 1 \<le> 2 ^ nat (al_depth a)" using assms(2) by (intro power_increasing) auto
  ultimately have m_bounds: "0 < unat ?m" "unat ?m \<le> 65535" using m by simp_all
  define pos where "pos = (\<lambda>(y, x). y * ?rs + x * 4 + 3)"
  define val where "val = (\<lambda>(y, x). scaled_alpha ?m (alpha_sample alpha ?bps (y * ?as + x * ?bps)))"
  have inj: "inj_on pos (set ?ps)"
    by (rule inj_on_inverseI [where g = "\<lambda>i. (i div ?rs, i mod ?rs div 4)"])
      (use rs in \<open>auto simp: pos_def channel_position\<close>)
  have fold: "new = fold (\<lambda>p px. px[pos p := val p]) ?ps old"
    and le: "\<And>y x. y < ?h \<Longrightarrow> x < ?w \<Longrightarrow> alpha_sample alpha ?bps (y * ?as + x * ?bps) \<le> ?m"
    using merge_alpha_updates [OF new] by (auto simp: pos_def val_def case_prod_unfold)
  note upd = fold_updates [OF inj, of val old, folded fold]
  have keep: "new ! (y * ?rs + x * 4 + c) = old ! (y * ?rs + x * 4 + c)" if "x < ?w" "c < 3" for y x c
  proof -
    have "y * ?rs + x * 4 + c \<notin> pos ` set ?ps"
    proof
      assume "y * ?rs + x * 4 + c \<in> pos ` set ?ps"
      then obtain q where "q \<in> set ?ps" and "y * ?rs + x * 4 + c = pos q" by blast
      moreover obtain y' x' where "q = (y', x')" by (cases q)
      ultimately have "x' < ?w" and eq: "y * ?rs + x * 4 + c = y' * ?rs + x' * 4 + 3"
        by (simp_all add: pos_def)
      then have "(y * ?rs + x * 4 + c) mod ?rs mod 4 = 3" using channel_position(3) [of x' ?w ?rs 3 y'] rs by simp
      then show False using channel_position(3) [of x ?w ?rs c y] that rs by simp
    qed
    then show ?thesis using upd by blast
  qed
  have set_alpha: "unat (new ! (y * ?rs + x * 4 + 3)) = (unat (alpha_sample alpha ?bps (y * ?as + x * ?bps)) * 255 + unat ?m div 2) div unat ?m"
    if "y < ?h" "x < ?w" "y * ?rs + x * 4 + 3 < length old" for y x
  proof -
    have "new ! pos (y, x) = val (y, x)" using upd that by (auto simp: pos_def)
    then show ?thesis using scaled_alpha_unat [OF m_bounds le [OF that(1,2)]] by (simp add: pos_def val_def)
  qed
  show ?thesis
    unfolding alpha_merged_def using planes out upd keep set_alpha le m
    by (auto simp: Let_def word_le_nat_alt)
qed

text \<open>C33. A frame whose alpha track delivers an image is accepted only if that image is monochrome, has
  the size and the duration of the frame and no sample above its depth; then the colour bytes of every
  pixel are untouched and its alpha byte is the sample scaled to 255, rounded to the nearest.\<close>

theorem avif_alpha_merge_exact:
  assumes "apply_avif_alpha_frame heif (Some track) im w = (Some out, w')"
  shows "\<exists>a. heif_next_alpha heif track w = (Heif_image (Some a), w') \<and> al_monochrome a
    \<and> al_duration a = im_duration im \<and> al_width a = im_width im \<and> al_height a = im_height im
    \<and> alpha_merged a im out"
  using assms by (auto simp: apply_avif_alpha_frame_def intro!: merge_planes_merged split: prod.splits decoded.splits option.splits if_splits)

text \<open>One pixel of a ten-bit alpha track.\<close>

definition sample_heif :: "alpha_image \<Rightarrow> (nat, nat) heif_api" where
  "sample_heif a = \<lparr>heif_context_alloc = Pair True, heif_context_read = (\<lambda>_. Pair True), heif_has_sequence = (\<lambda>_. True),
     heif_get_track = (\<lambda>i. Pair (Some 0)), heif_is_image_sequence = (\<lambda>_ _. True), heif_has_alpha_channel = (\<lambda>_ _. False),
     heif_referring_tracks = (\<lambda>_ _ _. [2]), heif_timescale = (\<lambda>_ _. 1000), heif_resolution = (\<lambda>_ _. Some (1, 1)),
     heif_options_alloc = Pair True,
     heif_next_rgba = (\<lambda>_ n. (if n = 0 then Heif_image (Some \<lparr>im_width = 1, im_height = 1, im_duration = 40,
        im_plane = Some [10, 20, 30, 255], im_stride = 4\<rparr>) else Heif_end_of_sequence, Suc n)),
     heif_next_alpha = (\<lambda>_. Pair (Heif_image (Some a)))\<rparr>"

theorem avif_alpha_merge_exact_witness:
  "\<exists>out. fst (apply_avif_alpha_frame
       (sample_heif \<lparr>al_monochrome = True, al_duration = 40, al_width = 1, al_height = 1, al_depth = 10,
          al_storage_bits = 16, al_plane = Some [0, 2], al_stride = 2\<rparr>) (Some 0)
       \<lparr>im_width = 1, im_height = 1, im_duration = 40, im_plane = Some [10, 20, 30, 255], im_stride = 4\<rparr> 0) = Some out
     \<and> im_plane out = Some [10, 20, 30, 128] \<and> im_duration out = 40"
proof -
  let ?a = "\<lparr>al_monochrome = True, al_duration = 40, al_width = 1, al_height = 1, al_depth = 10,
     al_storage_bits = 16, al_plane = Some [0, 2], al_stride = 2\<rparr>"
  let ?im = "\<lparr>im_width = 1, im_height = 1, im_duration = 40, im_plane = Some [10, 20, 30, 255], im_stride = 4\<rparr>"
  have "List.product [0..<1] [0..<1] = [(0 :: nat, 0 :: nat)]" by (simp add: upt_rec)
  then have planes: "merge_planes ?a ?im = Some (?im\<lparr>im_plane := Some [10, 20, 30, 128]\<rparr>)"
    by (simp add: merge_planes_def size_max_def alpha_sample_def scaled_alpha_def sample_maximum_def)
  have run: "apply_avif_alpha_frame (sample_heif ?a) (Some 0) ?im 0 = (Some (?im\<lparr>im_plane := Some [10, 20, 30, 128]\<rparr>), 0)"
    by (simp add: apply_avif_alpha_frame_def sample_heif_def planes)
  from avif_alpha_merge_exact [OF run] have "im_duration (?im\<lparr>im_plane := Some [10, 20, 30, 128]\<rparr>) = 40"
    by (auto simp: alpha_merged_def)
  with run show ?thesis by auto
qed

end
