(* ===== verification/Media_Apis.thy ===== *)
theory Media_Apis
  imports Apng_Conversion Avif_Alpha
begin

text \<open>
  The libraries behind the media conversions, as parameters over a world. Images of libvips, tracks of
  libheif and trees of resvg are handles; \<open>None\<close> and \<open>False\<close> stand for a null
  pointer or a non-zero result. Reference counts are not part of the model.
\<close>

text \<open>
  \<open>vips_load_pages\<close> and \<open>vips_load\<close> are
  \<^verbatim>\<open>vips_image_new_from_buffer\<close> with and without the option that asks for all pages;
  \<open>vips_from_memory\<close> makes an image of four 8-bit bands; \<open>vips_has\<close> is
  \<^verbatim>\<open>vips_image_get_typeof\<close>; the two save operations yield the encoded buffer, if
  there is one.
\<close>

record ('i, 'w) vips_api =
  vips_initialize :: "'w \<Rightarrow> bool \<times> 'w"
  vips_load_pages :: "bytes \<Rightarrow> 'w \<Rightarrow> 'i option \<times> 'w"
  vips_load :: "bytes \<Rightarrow> 'w \<Rightarrow> 'i option \<times> 'w"
  vips_from_memory :: "bytes \<Rightarrow> int \<Rightarrow> int \<Rightarrow> 'w \<Rightarrow> 'i option \<times> 'w"
  vips_set_icc :: "'i \<Rightarrow> bytes \<Rightarrow> 'w \<Rightarrow> 'w"
  vips_width :: "'i \<Rightarrow> 'w \<Rightarrow> int"
  vips_height :: "'i \<Rightarrow> 'w \<Rightarrow> int"
  vips_has :: "'i \<Rightarrow> string \<Rightarrow> 'w \<Rightarrow> bool"
  vips_get_int :: "'i \<Rightarrow> string \<Rightarrow> 'w \<Rightarrow> int option \<times> 'w"
  vips_crop :: "'i \<Rightarrow> int \<Rightarrow> int \<Rightarrow> 'w \<Rightarrow> 'i option \<times> 'w"
  vips_resize :: "'i \<Rightarrow> rat \<Rightarrow> 'w \<Rightarrow> 'i option \<times> 'w"
  vips_thumbnail :: "'i \<Rightarrow> int \<Rightarrow> int \<Rightarrow> 'w \<Rightarrow> 'i option \<times> 'w"
  vips_webpsave :: "'i \<Rightarrow> int \<Rightarrow> 'w \<Rightarrow> bytes option \<times> 'w"
  vips_heifsave :: "'i \<Rightarrow> int \<Rightarrow> 'w \<Rightarrow> bytes option \<times> 'w"
  vips_error_clear :: "'w \<Rightarrow> 'w"
  vips_cache_drop_all :: "'w \<Rightarrow> 'w"

text \<open>The result of \<^verbatim>\<open>mp_resvg_parse\<close>: its code, the tree and the size.\<close>

record ('r, 'w) resvg_api =
  resvg_parse :: "bytes \<Rightarrow> bytes \<Rightarrow> 'w \<Rightarrow> (int \<times> 'r option \<times> u32 \<times> u32) \<times> 'w"
  resvg_render :: "'r \<Rightarrow> u32 \<Rightarrow> u32 \<Rightarrow> nat \<Rightarrow> 'w \<Rightarrow> bytes option \<times> 'w"
  resvg_destroy :: "'r \<Rightarrow> 'w \<Rightarrow> 'w"

record ('i, 't, 'r, 'w) media_apis =
  vips_of :: "('i, 'w) vips_api"
  heif_of :: "('t, 'w) heif_api"
  jxl_of :: "'w jxl_api"
  resvg_of :: "('r, 'w) resvg_api"
  webp_of :: "'w webp_api"
  png_of :: "'w png_api"
  crc32_of :: "bytes \<Rightarrow> u32"
  svg_font :: bytes

text \<open>The names of the two metadata fields.\<close>

definition meta_n_pages :: string where "meta_n_pages = ''n-pages''"
definition meta_page_height :: string where "meta_page_height = ''page-height''"

definition maximum_icc_bytes :: nat where
  "maximum_icc_bytes = 10 * 1024 * 1024"

text \<open>The opening of a track of an AVIF sequence, common to the static and the animated path.\<close>

definition open_avif_sequence :: "('t, 'w) heif_api \<Rightarrow> bytes \<Rightarrow> 'w \<Rightarrow> ('t \<times> 't option) option \<times> 'w" where
  "open_avif_sequence heif content w =
     (case heif_context_alloc heif w of
        (False, w1) \<Rightarrow> (None, w1)
      | (True, w1) \<Rightarrow>
          (case heif_context_read heif content w1 of
             (False, w2) \<Rightarrow> (None, w2)
           | (True, w2) \<Rightarrow>
               if \<not> heif_has_sequence heif w2 then (None, w2)
               else
                 (case heif_get_track heif 0 w2 of
                    (None, w3) \<Rightarrow> (None, w3)
                  | (Some track, w3) \<Rightarrow>
                      if \<not> heif_is_image_sequence heif track w3 then (None, w3)
                      else
                        (case find_avif_alpha_track heif track w3 of
                           (None, w4) \<Rightarrow> (None, w4)
                         | (Some alpha, w4) \<Rightarrow> (Some (track, alpha), w4)))))"

text \<open>The set-up of a JPEG XL decoder on a whole body, with the events it should report.\<close>

definition open_jxl_decoder :: "'w jxl_api \<Rightarrow> jxl_status list \<Rightarrow> bytes \<Rightarrow> 'w \<Rightarrow> bool \<times> 'w" where
  "open_jxl_decoder jxl events content w =
     (case jxl_subscribe jxl events w of
        (False, w1) \<Rightarrow> (False, w1)
      | (True, w1) \<Rightarrow>
          (case jxl_unpremultiply jxl w1 of
             (False, w2) \<Rightarrow> (False, w2)
           | (True, w2) \<Rightarrow> (True, jxl_close_input jxl (jxl_set_input jxl content w2))))"

text \<open>The reading of an ICC profile: \<open>None\<close> when the conversion fails on it, otherwise
  the profile to keep, given the one so far.\<close>

definition read_icc_profile :: "'w jxl_api \<Rightarrow> bytes \<Rightarrow> 'w \<Rightarrow> bytes option \<times> 'w" where
  "read_icc_profile jxl icc w =
     (case jxl_icc_size jxl w of
        (None, w1) \<Rightarrow> (Some icc, w1)
      | (Some n, w1) \<Rightarrow>
          if maximum_icc_bytes < n then (None, w1)
          else if n = 0 then (Some icc, w1)
          else (case jxl_get_icc jxl n w1 of
                  (None, w2) \<Rightarrow> (None, w2)
                | (Some profile, w2) \<Rightarrow> (Some (fit_buffer n profile), w2)))"

text \<open>The preparation of the output buffer for an image of a known size in bytes.\<close>

definition prepare_jxl_buffer :: "'w jxl_api \<Rightarrow> nat \<Rightarrow> 'w \<Rightarrow> bool \<times> 'w" where
  "prepare_jxl_buffer jxl expected w =
     (case jxl_buffer_size jxl w of
        (None, w1) \<Rightarrow> (False, w1)
      | (Some n, w1) \<Rightarrow> if n \<noteq> expected then (False, w1) else jxl_set_buffer jxl n w1)"

end
