(* ===== verification/Static_Conversion.thy ===== *)
theory Static_Conversion
  imports Media_Apis
begin

text \<open>
  \<^verbatim>\<open>src/media/static_conversion.cpp\<close>: one still image is loaded, checked, resized
  and encoded. A loop that runs until the JPEG XL decoder stops is a partial function: the outer
  \<open>None\<close> stands for a conversion that does not return.
\<close>

datatype static_conversion_error =
  Static_initialization | Static_decode | Static_dimensions | Static_resize | Static_encode

section \<open>AVIF sequences\<close>

text \<open>The pixels of a decoded frame as an image of libvips: the rows with their padding, then a
  crop.\<close>

definition image_of_plane ::
    "('i, 'w) vips_api \<Rightarrow> rgba_image \<Rightarrow> 'w \<Rightarrow> 'i option \<times> 'w" where
  "image_of_plane vips im w =
     (let width = im_width im; height = im_height im; stride = im_stride im; packed = nat width * 4
      in case im_plane im of
           None \<Rightarrow> (None, w)
         | Some pixels \<Rightarrow>
             if stride < packed \<or> stride mod 4 \<noteq> 0 \<or> nat int_max < stride div 4 \<or> size_max div stride < nat height
             then (None, w)
             else
               (case vips_from_memory vips (take (stride * nat height) pixels) (int (stride div 4)) height w of
                  (None, w1) \<Rightarrow> (None, w1)
                | (Some memory, w1) \<Rightarrow>
                    if stride = packed then (Some memory, w1) else vips_crop vips memory width height w1))"

definition load_avif_sequence_first_frame ::
    "('i, 'w) vips_api \<Rightarrow> ('t, 'w) heif_api \<Rightarrow> bytes \<Rightarrow> 'w \<Rightarrow> 'i option \<times> 'w" where
  "load_avif_sequence_first_frame vips heif content w =
     (case open_avif_sequence heif content w of
        (None, w1) \<Rightarrow> (None, w1)
      | (Some (track, alpha), w1) \<Rightarrow>
          (case heif_resolution heif track w1 of
             None \<Rightarrow> (None, w1)
           | Some (tw, th) \<Rightarrow>
               if validate_dimensions (uint tw) (uint th) 1 False = None then (None, w1)
               else
                 (case heif_options_alloc heif w1 of
                    (False, w2) \<Rightarrow> (None, w2)
                  | (True, w2) \<Rightarrow>
                      (case heif_next_rgba heif track w2 of
                         (Heif_image (Some im), w3) \<Rightarrow>
                           if validate_dimensions (im_width im) (im_height im) 1 False = None then (None, w3)
                           else
                             (case apply_avif_alpha_frame heif alpha im w3 of
                                (None, w4) \<Rightarrow> (None, w4)
                              | (Some merged, w4) \<Rightarrow> image_of_plane vips merged w4)
                       | (_, w3) \<Rightarrow> (None, w3)))))"

section \<open>JPEG XL\<close>

record jxl_first =
  jf_width :: int
  jf_height :: int
  jf_buffer :: nat
  jf_icc :: bytes

text \<open>One answer of the decoder: the image or the failure that ends the loop, or the state of its next
  turn.\<close>

definition jxl_first_step ::
    "('i, 'w) vips_api \<Rightarrow> 'w jxl_api \<Rightarrow> jxl_first \<Rightarrow> jxl_status \<Rightarrow> 'w \<Rightarrow> ('i option + jxl_first) \<times> 'w" where
  "jxl_first_step vips jxl st answer w =
     (case answer of
        Jxl_basic_info \<Rightarrow>
          (case jxl_get_info jxl w of
             (None, w1) \<Rightarrow> (Inl None, w1)
           | (Some info, w1) \<Rightarrow>
               if int_max < uint (jxl_xsize info) \<or> int_max < uint (jxl_ysize info)
                  \<or> validate_dimensions (uint (jxl_xsize info)) (uint (jxl_ysize info)) 1 False = None
               then (Inl None, w1)
               else (Inr (st\<lparr>jf_width := uint (jxl_xsize info), jf_height := uint (jxl_ysize info)\<rparr>), w1))
      | Jxl_color_encoding \<Rightarrow>
          (case read_icc_profile jxl (jf_icc st) w of
             (None, w1) \<Rightarrow> (Inl None, w1)
           | (Some icc, w1) \<Rightarrow> (Inr (st\<lparr>jf_icc := icc\<rparr>), w1))
      | Jxl_need_image_out_buffer \<Rightarrow>
          if jf_width st \<le> 0 \<or> jf_height st \<le> 0 then (Inl None, w)
          else
            let expected = nat (jf_width st) * nat (jf_height st) * 4
            in (case prepare_jxl_buffer jxl expected w of
                  (False, w1) \<Rightarrow> (Inl None, w1)
                | (True, w1) \<Rightarrow> (Inr (st\<lparr>jf_buffer := expected\<rparr>), w1))
      | Jxl_full_image \<Rightarrow>
          if jf_buffer st = 0 then (Inl None, w)
          else
            (case vips_from_memory vips (fit_buffer (jf_buffer st) (jxl_pixels jxl w)) (jf_width st) (jf_height st) w of
               (None, w1) \<Rightarrow> (Inl None, w1)
             | (Some im, w1) \<Rightarrow>
                 (Inl (Some im), if jf_icc st \<noteq> [] then vips_set_icc vips im (jf_icc st) w1 else w1))
      | Jxl_success \<Rightarrow> (Inl None, w)
      | Jxl_error \<Rightarrow> (Inl None, w)
      | Jxl_need_more_input \<Rightarrow> (Inl None, w)
      | _ \<Rightarrow> (Inr st, w))"

partial_function (option) jxl_first_loop ::
    "('i, 'w) vips_api \<Rightarrow> 'w jxl_api \<Rightarrow> jxl_first \<Rightarrow> 'w \<Rightarrow> ('i option \<times> 'w) option" where
  "jxl_first_loop vips jxl st w =
     (case jxl_process jxl w of
        (answer, w1) \<Rightarrow>
          (case jxl_first_step vips jxl st answer w1 of
             (Inl result, w2) \<Rightarrow> Some (result, w2)
           | (Inr st', w2) \<Rightarrow> jxl_first_loop vips jxl st' w2))"

definition load_jxl_first_frame ::
    "('i, 'w) vips_api \<Rightarrow> 'w jxl_api \<Rightarrow> bytes \<Rightarrow> 'w \<Rightarrow> ('i option \<times> 'w) option" where
  "load_jxl_first_frame vips jxl content w =
     (case jxl_create jxl w of
        (False, w1) \<Rightarrow> Some (None, w1)
      | (True, w1) \<Rightarrow>
          (case open_jxl_decoder jxl [Jxl_basic_info, Jxl_color_encoding, Jxl_full_image] content w1 of
             (False, w2) \<Rightarrow> Some (None, jxl_destroy jxl w2)
           | (True, w2) \<Rightarrow>
               map_option (\<lambda>(result, w3). (result, jxl_destroy jxl w3))
                 (jxl_first_loop vips jxl \<lparr>jf_width = 0, jf_height = 0, jf_buffer = 0, jf_icc = []\<rparr> w2)))"

section \<open>SVG\<close>

definition unpremultiply_channel :: "byte \<Rightarrow> byte \<Rightarrow> byte" where
  "unpremultiply_channel a c =
     (let alpha = ucast a :: u32; premultiplied = ucast c :: u32
      in if alpha = 0 then 0 else ucast (min 255 ((premultiplied * 255 + alpha div 2) div alpha)))"

fun unpremultiply :: "bytes \<Rightarrow> bytes" where
  "unpremultiply (r # g # b # a # rest) =
     unpremultiply_channel a r # unpremultiply_channel a g # unpremultiply_channel a b # a # unpremultiply rest"
| "unpremultiply rest = rest"

definition load_svg ::
    "('i, 'w) vips_api \<Rightarrow> ('r, 'w) resvg_api \<Rightarrow> bytes \<Rightarrow> bytes \<Rightarrow> 'w \<Rightarrow> 'i option \<times> 'w" where
  "load_svg vips resvg font content w =
     (case resvg_parse resvg content font w of
        ((code, tree, width, height), w1) \<Rightarrow>
          (case tree of
             None \<Rightarrow> (None, w1)
           | Some t \<Rightarrow>
               if code \<noteq> 0 \<or> int_max < uint width \<or> int_max < uint height
                  \<or> validate_dimensions (uint width) (uint height) 1 False = None
               then (None, resvg_destroy resvg t w1)
               else if size_max div unat width < unat height \<or> size_max div 4 < unat width * unat height
               then (None, resvg_destroy resvg t w1)
               else
                 let n = unat width * unat height * 4
                 in (case resvg_render resvg t width height n w1 of
                       (None, w2) \<Rightarrow> (None, resvg_destroy resvg t w2)
                     | (Some pixels, w2) \<Rightarrow>
                         (case vips_from_memory vips (unpremultiply (fit_buffer n pixels)) (uint width) (uint height) w2 of
                            (im, w3) \<Rightarrow> (im, resvg_destroy resvg t w3)))))"

section \<open>Loading\<close>

definition load_image ::
    "('i, 't, 'r, 'w) media_apis \<Rightarrow> bytes \<Rightarrow> mime_type \<Rightarrow> 'w \<Rightarrow> ('i option \<times> 'w) option" where
  "load_image A content mime w =
     (let vips = vips_of A
      in if mime = Image_svg_xml then Some (load_svg vips (resvg_of A) (svg_font A) content w)
         else if mime = Image_jxl then load_jxl_first_frame vips (jxl_of A) content w
         else
           (case vips_load_pages vips content w of
              (Some im, w1) \<Rightarrow> Some (Some im, w1)
            | (None, w1) \<Rightarrow>
                (case vips_load vips content (vips_error_clear vips w1) of
                   (Some im, w2) \<Rightarrow> Some (Some im, w2)
                 | (None, w2) \<Rightarrow>
                     if mime \<noteq> Image_avif then Some (None, w2)
                     else Some (load_avif_sequence_first_frame vips (heif_of A) content (vips_error_clear vips w2)))))"

text \<open>Little-endian fields of an icon directory.\<close>

definition read_le16 :: "bytes \<Rightarrow> nat \<Rightarrow> u16" where
  "read_le16 content offset = or (ucast (content ! offset)) (push_bit 8 (ucast (content ! (offset + 1))))"

definition read_le32 :: "bytes \<Rightarrow> nat \<Rightarrow> u32" where
  "read_le32 content offset =
     or (or (or (ucast (content ! offset)) (push_bit 8 (ucast (content ! (offset + 1)))))
       (push_bit 16 (ucast (content ! (offset + 2))))) (push_bit 24 (ucast (content ! (offset + 3))))"

text \<open>The entries from an index on: the first whose payload lies inside the body and loads.\<close>

fun load_ico_entries ::
    "('i, 'w) vips_api \<Rightarrow> bytes \<Rightarrow> nat list \<Rightarrow> 'w \<Rightarrow> 'i option \<times> 'w" where
  "load_ico_entries vips content [] w = (None, w)"
| "load_ico_entries vips content (index # indices) w =
     (let directory = 6 + index * 16;
          payload_size = unat (read_le32 content (directory + 8));
          payload_offset = unat (read_le32 content (directory + 12))
      in if payload_size = 0 \<or> length content < payload_offset \<or> length content - payload_offset < payload_size
         then load_ico_entries vips content indices w
         else
           (case vips_load vips (take payload_size (drop payload_offset content)) w of
              (Some im, w1) \<Rightarrow> (Some im, w1)
            | (None, w1) \<Rightarrow> load_ico_entries vips content indices (vips_error_clear vips w1)))"

definition load_ico_fallback :: "('i, 'w) vips_api \<Rightarrow> bytes \<Rightarrow> 'w \<Rightarrow> 'i option \<times> 'w" where
  "load_ico_fallback vips content w =
     (if length content < 6 \<or> read_le16 content 0 \<noteq> 0 \<or> read_le16 content 2 \<noteq> 1 then (None, w)
      else
        let n = unat (read_le16 content 4)
        in if n = 0 \<or> (length content - 6) div 16 < n then (None, w)
           else load_ico_entries vips content [0..<n] w)"

section \<open>Conversion\<close>

definition image_metadata_int :: "('i, 'w) vips_api \<Rightarrow> 'i \<Rightarrow> string \<Rightarrow> int \<Rightarrow> 'w \<Rightarrow> int \<times> 'w" where
  "image_metadata_int vips im name fallback w =
     (if \<not> vips_has vips im name w then (fallback, w)
      else (case vips_get_int vips im name w of
              (Some value, w1) \<Rightarrow> (value, w1)
            | (None, w1) \<Rightarrow> (fallback, vips_error_clear vips w1)))"

definition static_fail ::
    "('i, 'w) vips_api \<Rightarrow> static_conversion_error \<Rightarrow> 'w \<Rightarrow> (static_conversion_error + bytes) \<times> 'w" where
  "static_fail vips e w = (Inl e, vips_error_clear vips w)"

text \<open>The last step: the encoder of the output format at the given quality.\<close>

definition encode_static ::
    "('i, 'w) vips_api \<Rightarrow> output_format \<Rightarrow> encoding_quality \<Rightarrow> 'i \<Rightarrow> 'w
      \<Rightarrow> (static_conversion_error + bytes) \<times> 'w" where
  "encode_static vips out quality im w =
     (case (if out = Output_avif then vips_heifsave else vips_webpsave) vips im (encoding_quality_value quality) w of
        (None, w1) \<Rightarrow> static_fail vips Static_encode w1
      | (Some encoded, w1) \<Rightarrow> if encoded = [] then static_fail vips Static_encode w1 else (Inr encoded, w1))"

text \<open>The step before it: a resize, if the limits ask for one.\<close>

definition resize_and_encode ::
    "('i, 'w) vips_api \<Rightarrow> output_format \<Rightarrow> image_dimensions \<Rightarrow> image_dimensions \<Rightarrow> encoding_quality \<Rightarrow> 'i \<Rightarrow> 'w
      \<Rightarrow> (static_conversion_error + bytes) \<times> 'w" where
  "resize_and_encode vips out dimensions limits quality current w =
     (case static_resize_scale dimensions limits of
        None \<Rightarrow> encode_static vips out quality current w
      | Some scale \<Rightarrow>
          (case vips_resize vips current scale w of
             (None, w1) \<Rightarrow> static_fail vips Static_resize w1
           | (Some resized, w1) \<Rightarrow> encode_static vips out quality resized w1))"

definition convert_loaded ::
    "('i, 'w) vips_api \<Rightarrow> output_format \<Rightarrow> image_dimensions \<Rightarrow> encoding_quality \<Rightarrow> 'i \<Rightarrow> 'w
      \<Rightarrow> (static_conversion_error + bytes) \<times> 'w" where
  "convert_loaded vips out limits quality loaded w =
     (let loaded_width = vips_width vips loaded w;
          loaded_height = vips_height vips loaded w;
          (page_count, w1) = image_metadata_int vips loaded meta_n_pages 1 w;
          (page_height, w2) = image_metadata_int vips loaded meta_page_height loaded_height w1
      in if page_count \<le> 0 \<or> page_height \<le> 0 \<or> loaded_height mod page_height \<noteq> 0
            \<or> loaded_height div page_height \<noteq> page_count
         then static_fail vips Static_dimensions w2
         else case validate_dimensions loaded_width page_height 1 False of
                None \<Rightarrow> static_fail vips Static_dimensions w2
              | Some dimensions \<Rightarrow>
                  if loaded_height \<noteq> page_height
                  then (case vips_crop vips loaded loaded_width page_height w2 of
                          (None, w3) \<Rightarrow> static_fail vips Static_decode w3
                        | (Some first_page, w3) \<Rightarrow> resize_and_encode vips out dimensions limits quality first_page w3)
                  else resize_and_encode vips out dimensions limits quality loaded w2)"

definition convert_static_image ::
    "('i, 't, 'r, 'w) media_apis \<Rightarrow> bytes \<Rightarrow> mime_type \<Rightarrow> output_format \<Rightarrow> image_dimensions \<Rightarrow> encoding_quality \<Rightarrow> 'w
      \<Rightarrow> ((static_conversion_error + bytes) \<times> 'w) option" where
  "convert_static_image A content mime out limits quality w =
     (let vips = vips_of A; (ready, w1) = vips_initialize vips w
      in if \<not> ready then Some (static_fail vips Static_initialization w1)
         else if content = [] then Some (static_fail vips Static_decode w1)
         else
           map_option
             (\<lambda>(first, w2).
                let (loaded, w3) =
                      (if first = None \<and> (mime = Image_ico \<or> mime = Image_x_icon)
                       then load_ico_fallback vips content (vips_error_clear vips w2) else (first, w2))
                in case loaded of
                     None \<Rightarrow> static_fail vips Static_decode w3
                   | Some im \<Rightarrow> convert_loaded vips out limits quality im w3)
             (load_image A content mime w1))"

section \<open>Unassociated alpha\<close>

lemma div_nearest:
  fixes a n :: nat
  assumes "0 < a"
  shows "a * ((n + a div 2) div a) \<le> n + a div 2" and "n + a div 2 < a * ((n + a div 2) div a) + a"
proof -
  have "a * ((n + a div 2) div a) + (n + a div 2) mod a = n + a div 2" by (rule mult_div_mod_eq)
  moreover have "(n + a div 2) mod a < a" using assms by simp
  ultimately show "a * ((n + a div 2) div a) \<le> n + a div 2" "n + a div 2 < a * ((n + a div 2) div a) + a"
    by linarith+
qed

lemma unpremultiply_channel_unat:
  assumes "0 < a"
  shows "unat (unpremultiply_channel a c) = min 255 ((unat c * 255 + unat a div 2) div unat a)"
proof -
  have a: "0 < unat a" using assms by (simp add: unat_gt_0 word_gt_0)
  have le: "unat c \<le> 255" "unat a \<le> 255" using byte_le [of c] byte_le [of a] by simp_all
  have u: "unat (ucast a :: u32) = unat a" "unat (ucast c :: u32) = unat c"
    by (simp_all add: unsigned_ucast_eq take_bit_nat_eq_self le_less_trans [OF byte_le])
  have small: "unat c * 255 + unat a div 2 < 4294967296" using le by linarith
  then have q: "unat ((ucast c * 255 + ucast a div 2) div ucast a :: u32) = (unat c * 255 + unat a div 2) div unat a"
    by (simp add: unat_div unat_word_ariths u take_bit_nat_eq_self)
  have "unat (min 255 ((ucast c * 255 + ucast a div 2) div ucast a :: u32)) = min 255 ((unat c * 255 + unat a div 2) div unat a)"
    using q by (simp add: min_def word_le_nat_alt)
  moreover have "(ucast a :: u32) \<noteq> 0" using a u by (metis unat_0 less_irrefl)
  moreover have "min 255 ((unat c * 255 + unat a div 2) div unat a) < 2 ^ 8" by simp
  ultimately show ?thesis
    by (simp add: unpremultiply_channel_def Let_def unsigned_ucast_eq take_bit_nat_eq_self)
qed

text \<open>C19. The conversion to unassociated alpha loses nothing: for every channel that a premultiplied
  pixel can hold, that is one not above the alpha, multiplying the result by the alpha again and
  rounding gives the channel back; the alpha itself is kept, and a pixel with alpha zero is black.\<close>

theorem unpremultiply_roundtrip:
  assumes "list_all (\<lambda>c. c \<le> a) [r, g, b]"
  shows "\<exists>r' g' b'. unpremultiply (r # g # b # a # rest) = r' # g' # b' # a # unpremultiply rest
    \<and> map (\<lambda>c. (unat c * unat a + 127) div 255) [r', g', b'] = map unat [r, g, b]"
proof -
  have inverse: "(unat (unpremultiply_channel a c) * unat a + 127) div 255 = unat c" if "c \<le> a" for c
  proof (cases "a = 0")
    case True
    with that show ?thesis by (simp add: unpremultiply_channel_def word_le_nat_alt)
  next
    case False
    let ?n = "unat c" and ?a = "unat a"
    let ?q = "(?n * 255 + ?a div 2) div ?a"
    have a: "0 < ?a" "?n \<le> ?a" "?a \<le> 255"
      using False that byte_le [of a] by (simp_all add: unat_gt_0 word_le_nat_alt)
    note near = div_nearest [OF a(1), of "?n * 255"]
    have "?a * ?q < ?a * 256"
    proof -
      have "?n * 255 + ?a div 2 < ?a * 256" using a by linarith
      with near(1) show ?thesis by linarith
    qed
    then have "?q \<le> 255" using a(1) by simp
    then have q: "unat (unpremultiply_channel a c) = ?q"
      using False by (simp add: unpremultiply_channel_unat word_gt_0)
    have "?q * ?a \<le> ?n * 255 + ?a div 2" "?n * 255 + ?a div 2 < ?q * ?a + ?a" using near by (simp_all add: ac_simps)
    then have "?n * 255 \<le> ?q * ?a + 127" "?q * ?a + 127 < ?n * 255 + 255"
      using a(3) by linarith+
    then have "(?q * ?a + 127) div 255 = ?n" by (intro div_nat_eqI) simp_all
    with q show ?thesis by simp
  qed
  with assms show ?thesis by simp
qed

theorem unpremultiply_roundtrip_witness:
  "unpremultiply [64, 0, 128, 128] = [128, 0, 255, 128] \<and> (unat (128 :: byte) * 128 + 127) div 255 = 64"
proof -
  have run: "unpremultiply [64, 0, 128, 128] = [128, 0, 255, 128]"
    by (simp add: unpremultiply_channel_def)
  from unpremultiply_roundtrip [of 128 64 0 128 "[]"] run show ?thesis by auto
qed

section \<open>Icons\<close>

text \<open>The payloads an icon directory describes, in file order, without those that do not lie in the
  body.\<close>

definition ico_payloads :: "bytes \<Rightarrow> bytes list" where
  "ico_payloads content =
     map (\<lambda>i. take (unat (read_le32 content (6 + i * 16 + 8))) (drop (unat (read_le32 content (6 + i * 16 + 12))) content))
       (filter (\<lambda>i. 0 < unat (read_le32 content (6 + i * 16 + 8))
            \<and> unat (read_le32 content (6 + i * 16 + 12)) + unat (read_le32 content (6 + i * 16 + 8)) \<le> length content)
         [0..<unat (read_le16 content 4)])"

fun first_some :: "'a option list \<Rightarrow> 'a option" where
  "first_some [] = None"
| "first_some (None # xs) = first_some xs"
| "first_some (Some x # xs) = Some x"

lemma load_ico_entries_first:
  assumes "\<And>payload w. fst (vips_load vips payload w) = load payload"
  shows "fst (load_ico_entries vips content ks w) = first_some (map load
     (map (\<lambda>i. take (unat (read_le32 content (6 + i * 16 + 8))) (drop (unat (read_le32 content (6 + i * 16 + 12))) content))
       (filter (\<lambda>i. 0 < unat (read_le32 content (6 + i * 16 + 8))
            \<and> unat (read_le32 content (6 + i * 16 + 12)) + unat (read_le32 content (6 + i * 16 + 8)) \<le> length content) ks)))"
proof (induction ks arbitrary: w)
  case (Cons i ks)
  let ?size = "unat (read_le32 content (6 + i * 16 + 8))" and ?offset = "unat (read_le32 content (6 + i * 16 + 12))"
  show ?case
  proof (cases "?size = 0 \<or> length content < ?offset \<or> length content - ?offset < ?size")
    case True
    then have "\<not> (0 < ?size \<and> ?offset + ?size \<le> length content)" by linarith
    with True Cons show ?thesis by (auto simp: Let_def)
  next
    case False
    then have "0 < ?size \<and> ?offset + ?size \<le> length content" by linarith
    moreover obtain r w1 where run: "vips_load vips (take ?size (drop ?offset content)) w = (r, w1)"
      by (cases "vips_load vips (take ?size (drop ?offset content)) w")
    moreover from this assms have "load (take ?size (drop ?offset content)) = r" by (metis fst_conv)
    ultimately show ?thesis using False Cons by (cases r) (simp_all add: Let_def)
  qed
qed simp

text \<open>When the loader fails on an icon file, the fallback answers the first payload of the directory,
  in file order, that lies in the body and that the loader accepts, and nothing if the header is not
  that of an icon or announces more entries than fit.\<close>

lemma ico_fallback_first_loadable:
  assumes "\<And>payload w. fst (vips_load vips payload w) = load payload"
  shows "fst (load_ico_fallback vips content w) =
    (if 6 \<le> length content \<and> read_le16 content 0 = 0 \<and> read_le16 content 2 = 1
        \<and> 6 + 16 * unat (read_le16 content 4) \<le> length content
     then first_some (map load (ico_payloads content)) else None)"
proof -
  let ?n = "unat (read_le16 content 4)"
  have fits: "\<not> (length content - 6) div 16 < ?n \<longleftrightarrow> 6 + 16 * ?n \<le> length content" if "6 \<le> length content"
    using that by (auto simp: not_less less_eq_div_iff_mult_less_eq)
  have "first_some (map load (ico_payloads content)) = None" if "?n = 0"
    using that by (simp add: ico_payloads_def)
  then show ?thesis
    using load_ico_entries_first [where vips = vips and load = load, OF assms, of content "[0..<?n]" w] fits
    by (auto simp: load_ico_fallback_def Let_def ico_payloads_def)
qed

text \<open>A loader that knows three bodies: an image of 8 by 4 pixels, one of two pages, and the payload
  of an icon.\<close>

definition sample_vips :: "(int \<times> int, 'w) vips_api" where
  "sample_vips = \<lparr>vips_initialize = Pair True,
     vips_load_pages = (\<lambda>content. Pair (if content = [9] then Some (8, 4) else if content = [8] then Some (8, 6) else None)),
     vips_load = (\<lambda>content. Pair (if content = [7] then Some (4, 4) else None)),
     vips_from_memory = (\<lambda>_ width height. Pair (Some (width, height))), vips_set_icc = (\<lambda>_ _. id),
     vips_width = (\<lambda>(width, _) _. width), vips_height = (\<lambda>(_, height) _. height),
     vips_has = (\<lambda>im _ _. im = (8, 6)),
     vips_get_int = (\<lambda>_ name. Pair (Some (if name = meta_n_pages then 2 else 3))),
     vips_crop = (\<lambda>_ width height. Pair (Some (width, height))), vips_resize = (\<lambda>im _. Pair (Some im)),
     vips_thumbnail = (\<lambda>_ width height. Pair (Some (width, height))),
     vips_webpsave = (\<lambda>(width, height) quality. Pair (Some [of_int width, of_int height, of_int quality])),
     vips_heifsave = (\<lambda>_ _. Pair None), vips_error_clear = id, vips_cache_drop_all = id\<rparr>"

section \<open>A successful conversion\<close>

text \<open>The way from a loaded image to the encoder, each step at the world it is made in.\<close>

definition first_page :: "('i, 'w) vips_api \<Rightarrow> 'i \<Rightarrow> int \<Rightarrow> int \<Rightarrow> int \<Rightarrow> 'i \<Rightarrow> bool" where
  "first_page vips im width total_height page_height page \<longleftrightarrow>
     (if total_height = page_height then page = im else \<exists>w. fst (vips_crop vips im width page_height w) = Some page)"

definition scaled_by :: "('i, 'w) vips_api \<Rightarrow> rat option \<Rightarrow> 'i \<Rightarrow> 'i \<Rightarrow> bool" where
  "scaled_by vips scale page im \<longleftrightarrow>
     (case scale of None \<Rightarrow> im = page | Some s \<Rightarrow> \<exists>w. fst (vips_resize vips page s w) = Some im)"

definition encoded_as :: "('i, 'w) vips_api \<Rightarrow> output_format \<Rightarrow> int \<Rightarrow> 'i \<Rightarrow> bytes \<Rightarrow> bool" where
  "encoded_as vips out quality im encoded \<longleftrightarrow>
     encoded \<noteq> []
     \<and> (\<exists>w. fst ((if out = Output_avif then vips_heifsave else vips_webpsave) vips im quality w) = Some encoded)"

lemma encode_static_Inr:
  "encode_static vips out quality im w = (Inr encoded, w') \<Longrightarrow>
   encoded_as vips out (encoding_quality_value quality) im encoded"
  by (auto simp: encode_static_def static_fail_def encoded_as_def split: prod.splits option.splits if_splits intro: exI [of _ w])

lemma resize_and_encode_Inr:
  assumes "resize_and_encode vips out d limits quality page w = (Inr encoded, w')"
  shows "\<exists>im. scaled_by vips (static_resize_scale d limits) page im
    \<and> encoded_as vips out (encoding_quality_value quality) im encoded"
proof (cases "static_resize_scale d limits")
  case None
  with assms encode_static_Inr show ?thesis by (fastforce simp: resize_and_encode_def scaled_by_def)
next
  case (Some s)
  with assms obtain im w1 where "vips_resize vips page s w = (Some im, w1)"
    "encode_static vips out quality im w1 = (Inr encoded, w')"
    by (auto simp: resize_and_encode_def static_fail_def split: prod.splits option.splits)
  then show ?thesis
    using encode_static_Inr [of vips out quality im w1 encoded w'] Some
    by (intro exI [of _ im]) (auto simp: scaled_by_def intro: exI [of _ w])
qed

lemma convert_loaded_Inr:
  assumes "convert_loaded vips out limits quality im w = (Inr encoded, w')"
  shows "\<exists>ph d page final. validate_dimensions (vips_width vips im w) ph 1 False = Some d
    \<and> vips_height vips im w mod ph = 0
    \<and> first_page vips im (vips_width vips im w) (vips_height vips im w) ph page
    \<and> scaled_by vips (static_resize_scale d limits) page final
    \<and> encoded_as vips out (encoding_quality_value quality) final encoded"
proof -
  let ?W = "vips_width vips im w" and ?H = "vips_height vips im w"
  obtain pc w1 ph w2 where meta: "image_metadata_int vips im meta_n_pages 1 w = (pc, w1)"
    "image_metadata_int vips im meta_page_height ?H w1 = (ph, w2)"
    by (metis surj_pair)
  with assms obtain d where d: "validate_dimensions ?W ph 1 False = Some d" and mod: "?H mod ph = 0"
    and rest: "(if ?H \<noteq> ph
       then (case vips_crop vips im ?W ph w2 of
               (None, w3) \<Rightarrow> static_fail vips Static_decode w3
             | (Some page, w3) \<Rightarrow> resize_and_encode vips out d limits quality page w3)
       else resize_and_encode vips out d limits quality im w2) = (Inr encoded, w')"
    by (auto simp: convert_loaded_def Let_def static_fail_def split: if_splits option.splits)
  have "\<exists>page w3. first_page vips im ?W ?H ph page \<and> resize_and_encode vips out d limits quality page w3 = (Inr encoded, w')"
  proof (cases "?H = ph")
    case True
    with rest show ?thesis by (auto simp: first_page_def)
  next
    case False
    with rest obtain page w3 where "vips_crop vips im ?W ph w2 = (Some page, w3)"
      "resize_and_encode vips out d limits quality page w3 = (Inr encoded, w')"
      by (auto simp: static_fail_def split: prod.splits option.splits)
    with False show ?thesis
      by (intro exI [of _ page] exI [of _ w3]) (auto simp: first_page_def intro: exI [of _ w2])
  qed
  then obtain page w3 where "first_page vips im ?W ?H ph page"
    "resize_and_encode vips out d limits quality page w3 = (Inr encoded, w')" by blast
  moreover from resize_and_encode_Inr [OF this(2)] obtain final where
    "scaled_by vips (static_resize_scale d limits) page final"
    "encoded_as vips out (encoding_quality_value quality) final encoded" by blast
  ultimately show ?thesis
    using d mod by (intro exI [of _ ph] exI [of _ d] exI [of _ page] exI [of _ final] conjI)
qed

section \<open>Where the image comes from\<close>

text \<open>The way from the body to the image that is converted, down to the calls of the libraries: an SVG
  is parsed and rendered, a JPEG XL decoded in the run that follows on the body, every other type is read by
  libvips from all pages or from the first, an AVIF sequence that libvips refuses by its first frame, and an
  icon that it refuses by a payload of its directory.\<close>

definition svg_source :: "('i, 'w) vips_api \<Rightarrow> ('r, 'w) resvg_api \<Rightarrow> bytes \<Rightarrow> bytes \<Rightarrow> 'i \<Rightarrow> bool" where
  "svg_source vips resvg font content im \<longleftrightarrow>
     (\<exists>w1 t width height w2 pixels w3. fst (resvg_parse resvg content font w1) = (0, Some t, width, height)
        \<and> validate_dimensions (uint width) (uint height) 1 False \<noteq> None
        \<and> fst (resvg_render resvg t width height (unat width * unat height * 4) w2) = Some pixels
        \<and> fst (vips_from_memory vips (unpremultiply (fit_buffer (unat width * unat height * 4) pixels)) (uint width) (uint height) w3) = Some im)"

definition jxl_source :: "('i, 'w) vips_api \<Rightarrow> 'w jxl_api \<Rightarrow> bytes \<Rightarrow> 'i \<Rightarrow> bool" where
  "jxl_source vips jxl content im \<longleftrightarrow>
     (\<exists>w1 w2. jxl_first_loop vips jxl \<lparr>jf_width = 0, jf_height = 0, jf_buffer = 0, jf_icc = []\<rparr>
        (jxl_close_input jxl (jxl_set_input jxl content w1)) = Some (Some im, w2))"

definition avif_source :: "('i, 'w) vips_api \<Rightarrow> ('t, 'w) heif_api \<Rightarrow> bytes \<Rightarrow> 'i \<Rightarrow> bool" where
  "avif_source vips heif content im \<longleftrightarrow>
     (\<exists>w1 w2 track alpha w3 frame w4 merged w5. fst (heif_context_read heif content w1)
        \<and> fst (open_avif_sequence heif content w2) = Some (track, alpha)
        \<and> fst (heif_next_rgba heif track w3) = Heif_image (Some frame)
        \<and> fst (apply_avif_alpha_frame heif alpha frame w4) = Some merged
        \<and> fst (image_of_plane vips merged w5) = Some im)"

definition image_source :: "('i, 't, 'r, 'w) media_apis \<Rightarrow> bytes \<Rightarrow> mime_type \<Rightarrow> 'i \<Rightarrow> bool" where
  "image_source A content mime im \<longleftrightarrow>
     (if mime = Image_svg_xml then svg_source (vips_of A) (resvg_of A) (svg_font A) content im
      else if mime = Image_jxl then jxl_source (vips_of A) (jxl_of A) content im
      else (\<exists>w. fst (vips_load_pages (vips_of A) content w) = Some im) \<or> (\<exists>w. fst (vips_load (vips_of A) content w) = Some im)
        \<or> mime = Image_avif \<and> avif_source (vips_of A) (heif_of A) content im
        \<or> mime \<in> {Image_ico, Image_x_icon}
          \<and> (\<exists>payload w. payload \<in> set (ico_payloads content) \<and> fst (vips_load (vips_of A) payload w) = Some im))"

lemma fst_eqI: "x = (r, w) \<Longrightarrow> fst x = r"
  by simp

lemma load_svg_Some:
  assumes "load_svg vips resvg font content w = (Some im, w')"
  shows "svg_source vips resvg font content im"
proof -
  from assms obtain t width height w1 pixels w2 w3 where
    "resvg_parse resvg content font w = ((0, Some t, width, height), w1)"
    "validate_dimensions (uint width) (uint height) 1 False \<noteq> None"
    "resvg_render resvg t width height (unat width * unat height * 4) w1 = (Some pixels, w2)"
    "vips_from_memory vips (unpremultiply (fit_buffer (unat width * unat height * 4) pixels)) (uint width) (uint height) w2 = (Some im, w3)"
    by (auto simp: load_svg_def Let_def simp del: not_None_eq split: prod.splits option.splits if_splits)
  then show ?thesis
    unfolding svg_source_def
    by (intro exI [of _ w] exI [of _ t] exI [of _ width] exI [of _ height] exI [of _ w1] exI [of _ pixels] exI [of _ w2] conjI)
      (simp_all del: not_None_eq)
qed

lemma load_jxl_Some:
  assumes "load_jxl_first_frame vips jxl content w = Some (Some im, w')"
  shows "jxl_source vips jxl content im"
  using assms
  by (auto simp: load_jxl_first_frame_def jxl_source_def open_jxl_decoder_def split: prod.splits bool.splits)

lemma open_avif_read:
  assumes "open_avif_sequence heif content w = (Some p, w')"
  shows "\<exists>w1. fst (heif_context_read heif content w1)"
proof -
  from assms obtain w1 w2 where "heif_context_read heif content w1 = (True, w2)"
    by (auto simp: open_avif_sequence_def split: prod.splits bool.splits)
  then show ?thesis by (intro exI [of _ w1]) simp
qed

lemma load_avif_Some:
  assumes "load_avif_sequence_first_frame vips heif content w = (Some im, w')"
  shows "avif_source vips heif content im"
proof -
  from assms obtain track alpha w1 w2 w3 frame merged w4 where
    opened: "open_avif_sequence heif content w = (Some (track, alpha), w1)"
    and "heif_next_rgba heif track w2 = (Heif_image (Some frame), w3)"
    and "apply_avif_alpha_frame heif alpha frame w3 = (Some merged, w4)"
    and "image_of_plane vips merged w4 = (Some im, w')"
    by (auto simp: load_avif_sequence_first_frame_def simp del: not_None_eq
        split: prod.splits option.splits bool.splits decoded.splits if_splits)
  with open_avif_read [OF opened] show ?thesis
    unfolding avif_source_def by (metis fst_conv)
qed

lemma load_image_Some:
  assumes "load_image A content mime w = Some (Some im, w')"
  shows "image_source A content mime im"
proof -
  consider "mime = Image_svg_xml" | "mime = Image_jxl" | "mime \<noteq> Image_svg_xml" "mime \<noteq> Image_jxl" by blast
  then show ?thesis
  proof cases
    case 1
    with assms show ?thesis by (auto simp: load_image_def image_source_def dest: load_svg_Some)
  next
    case 2
    with assms show ?thesis by (auto simp: load_image_def image_source_def dest: load_jxl_Some)
  next
    case 3
    with assms have "(\<exists>w. fst (vips_load_pages (vips_of A) content w) = Some im) \<or> (\<exists>w. fst (vips_load (vips_of A) content w) = Some im)
        \<or> mime = Image_avif \<and> avif_source (vips_of A) (heif_of A) content im"
      by (auto simp: load_image_def Let_def dest: load_avif_Some split: prod.splits option.splits if_splits intro: fst_eqI)
    with 3 show ?thesis unfolding image_source_def by auto
  qed
qed

lemma load_ico_Some:
  "load_ico_entries vips content ks w = (Some im, w') \<Longrightarrow>
   \<exists>i w1. i \<in> set ks \<and> 0 < unat (read_le32 content (6 + i * 16 + 8))
     \<and> unat (read_le32 content (6 + i * 16 + 12)) + unat (read_le32 content (6 + i * 16 + 8)) \<le> length content
     \<and> fst (vips_load vips (take (unat (read_le32 content (6 + i * 16 + 8))) (drop (unat (read_le32 content (6 + i * 16 + 12))) content)) w1) = Some im"
proof (induction ks arbitrary: w)
  case (Cons i ks)
  let ?size = "unat (read_le32 content (6 + i * 16 + 8))" and ?offset = "unat (read_le32 content (6 + i * 16 + 12))"
  show ?case
  proof (cases "?size = 0 \<or> length content < ?offset \<or> length content - ?offset < ?size")
    case True
    with Cons show ?thesis by (fastforce simp: Let_def)
  next
    case False
    obtain r w1 where run: "vips_load vips (take ?size (drop ?offset content)) w = (r, w1)" by (metis surj_pair)
    show ?thesis
    proof (cases r)
      case None
      with False run Cons.prems have "load_ico_entries vips content ks (vips_error_clear vips w1) = (Some im, w')"
        by (simp add: Let_def)
      from Cons.IH [OF this] show ?thesis by auto
    next
      case (Some found)
      with False run Cons.prems have "found = im" by (simp add: Let_def)
      moreover have "0 < ?size" "?offset + ?size \<le> length content" using False by linarith+
      ultimately show ?thesis using run Some by (intro exI [of _ i] exI [of _ w]) simp
    qed
  qed
qed simp

lemma load_ico_fallback_Some:
  assumes "load_ico_fallback vips content w = (Some im, w')"
  shows "\<exists>payload w1. payload \<in> set (ico_payloads content) \<and> fst (vips_load vips payload w1) = Some im"
proof -
  from assms have "load_ico_entries vips content [0..<unat (read_le16 content 4)] w = (Some im, w')"
    by (auto simp: load_ico_fallback_def Let_def split: if_splits)
  from load_ico_Some [OF this] show ?thesis by (force simp: ico_payloads_def)
qed

lemma convert_static_loaded:
  assumes "convert_static_image A content mime out limits quality w = Some (Inr encoded, w')"
  shows "\<exists>im wl. image_source A content mime im
    \<and> convert_loaded (vips_of A) out limits quality im wl = (Inr encoded, w')"
proof -
  let ?V = "vips_of A"
  obtain ready w1 where init: "vips_initialize ?V w = (ready, w1)" by (metis surj_pair)
  with assms obtain first w2 where load: "load_image A content mime w1 = Some (first, w2)"
    and rest: "(let (loaded, w3) =
          (if first = None \<and> (mime = Image_ico \<or> mime = Image_x_icon)
           then load_ico_fallback ?V content (vips_error_clear ?V w2) else (first, w2))
        in case loaded of
             None \<Rightarrow> static_fail ?V Static_decode w3
           | Some im \<Rightarrow> convert_loaded ?V out limits quality im w3) = (Inr encoded, w')"
    by (auto simp: convert_static_image_def static_fail_def Let_def split: if_splits prod.splits)
  show ?thesis
  proof (cases first)
    case (Some im)
    with load rest have "image_source A content mime im" "convert_loaded ?V out limits quality im w2 = (Inr encoded, w')"
      by (auto intro: load_image_Some)
    then show ?thesis by blast
  next
    case None
    with rest obtain im w3 where ico: "mime = Image_ico \<or> mime = Image_x_icon"
      and found: "load_ico_fallback ?V content (vips_error_clear ?V w2) = (Some im, w3)"
      and conv: "convert_loaded ?V out limits quality im w3 = (Inr encoded, w')"
      by (auto simp: static_fail_def split: if_splits prod.splits option.splits)
    have "image_source A content mime im"
      using ico load_ico_fallback_Some [OF found] unfolding image_source_def by auto
    with conv show ?thesis by blast
  qed
qed

text \<open>C17. A static conversion that succeeds answers an image of the body it was given: it has loaded,
  from that body and by the loader of its media type, an image at most 7680 wide whose height is a whole
  number of pages at most 4320 high, has cut off its first page if there are several, has scaled that page
  exactly once and by the factor of the resize rules if they ask for one, and answers what the encoder of
  the requested format made of the result at the requested quality, which is not empty.\<close>

theorem static_conversion_success:
  assumes "convert_static_image A content mime out limits quality w = Some (Inr encoded, w')"
  shows "\<exists>im wl ph d page final. image_source A content mime im
    \<and> 0 < vips_width (vips_of A) im wl \<and> vips_width (vips_of A) im wl \<le> 7680
    \<and> 0 < ph \<and> ph \<le> 4320 \<and> vips_height (vips_of A) im wl mod ph = 0
    \<and> uint (dim_width d) = vips_width (vips_of A) im wl \<and> uint (dim_height d) = ph
    \<and> first_page (vips_of A) im (vips_width (vips_of A) im wl) (vips_height (vips_of A) im wl) ph page
    \<and> scaled_by (vips_of A) (static_resize_scale d limits) page final
    \<and> encoded_as (vips_of A) out (encoding_quality_value quality) final encoded"
proof -
  let ?V = "vips_of A"
  from convert_static_loaded [OF assms] obtain im wl where source: "image_source A content mime im"
    and conv: "convert_loaded ?V out limits quality im wl = (Inr encoded, w')" by blast
  from convert_loaded_Inr [OF conv] obtain ph d page final
    where d: "validate_dimensions (vips_width ?V im wl) ph 1 False = Some d"
      and run: "vips_height ?V im wl mod ph = 0"
        "first_page ?V im (vips_width ?V im wl) (vips_height ?V im wl) ph page"
        "scaled_by ?V (static_resize_scale d limits) page final"
        "encoded_as ?V out (encoding_quality_value quality) final encoded" by (elim exE conjE) (rule that)
  note bounds = validate_dimensions_Some [OF d]
  from bounds have "0 < vips_width ?V im wl" "vips_width ?V im wl \<le> 7680"
    "uint (dim_width d) = vips_width ?V im wl" "uint (dim_height d) = ph" by simp_all
  moreover from bounds have "0 < ph" by (auto simp: word_less_def)
  moreover from bounds have "int (unat (dim_height d)) \<le> int 4320" by (simp only: of_nat_le_iff)
  then have "ph \<le> 4320" using bounds by simp
  ultimately show ?thesis
    using run source by (intro exI [of _ im] exI [of _ wl] exI [of _ ph] exI [of _ d] exI [of _ page] exI [of _ final] conjI)
qed

text \<open>The media libraries of the examples: only libvips does anything.\<close>

definition idle_jxl :: "'w jxl_api" where
  "idle_jxl = \<lparr>jxl_create = Pair False, jxl_destroy = id, jxl_subscribe = (\<lambda>_. Pair False), jxl_unpremultiply = Pair False,
     jxl_set_input = (\<lambda>_. id), jxl_close_input = id, jxl_process = Pair Jxl_error, jxl_get_info = Pair None,
     jxl_icc_size = Pair None, jxl_get_icc = (\<lambda>_. Pair None), jxl_frame_duration = Pair None, jxl_buffer_size = Pair None,
     jxl_set_buffer = (\<lambda>_. Pair False), jxl_pixels = (\<lambda>_. [])\<rparr>"

definition idle_heif :: "('t, 'w) heif_api" where
  "idle_heif = \<lparr>heif_context_alloc = Pair False, heif_context_read = (\<lambda>_. Pair False), heif_has_sequence = (\<lambda>_. False),
     heif_get_track = (\<lambda>_. Pair None), heif_is_image_sequence = (\<lambda>_ _. False), heif_has_alpha_channel = (\<lambda>_ _. False),
     heif_referring_tracks = (\<lambda>_ _ _. []), heif_timescale = (\<lambda>_ _. 0), heif_resolution = (\<lambda>_ _. None),
     heif_options_alloc = Pair False, heif_next_rgba = (\<lambda>_. Pair Heif_failure), heif_next_alpha = (\<lambda>_. Pair Heif_failure)\<rparr>"

definition sample_media :: "(int \<times> int, unit, unit, unit) media_apis" where
  "sample_media = \<lparr>vips_of = sample_vips, heif_of = idle_heif, jxl_of = idle_jxl,
     resvg_of = \<lparr>resvg_parse = (\<lambda>_ _. Pair (1, None, 0, 0)), resvg_render = (\<lambda>_ _ _ _. Pair None), resvg_destroy = (\<lambda>_. id)\<rparr>,
     webp_of = sample_webp,
     png_of = \<lparr>png_begin = (\<lambda>_. Pair None), png_size = (\<lambda>_. 0), png_finish = (\<lambda>_. Pair None), png_free = id\<rparr>,
     crc32_of = (\<lambda>_. 0), svg_font = []\<rparr>"

lemma sample_static_conversion:
  "convert_static_image sample_media [8] Image_jpeg Output_webp \<lparr>dim_width = 100, dim_height = 100\<rparr> Quality_standard () =
     Some (Inr [8, 3, 65], ())"
  by (simp add: sample_media_def sample_vips_def convert_static_image_def load_image_def convert_loaded_def
      image_metadata_int_def meta_n_pages_def meta_page_height_def validate_dimensions_def maximum_media_width_def
      maximum_media_height_def resize_and_encode_def static_resize_scale_def encode_static_def encoding_quality_value_def)

theorem static_conversion_success_witness:
  "\<exists>im (wl :: unit) ph. image_source sample_media [8] Image_jpeg im \<and> vips_height sample_vips im wl mod ph = 0 \<and> 0 < ph \<and> ph \<le> 4320
     \<and> vips_width sample_vips im wl \<le> 7680"
proof -
  have vips: "vips_of sample_media = sample_vips" by (simp add: sample_media_def)
  from static_conversion_success [OF sample_static_conversion, unfolded vips] show ?thesis
    by (elim exE conjE) (intro exI conjI; assumption)
qed

end
