(* ===== verification/Animated_Conversion.thy ===== *)
theory Animated_Conversion
  imports Static_Conversion
begin

text \<open>
  \<^verbatim>\<open>src/media/animated_conversion.cpp\<close>: animated GIF and WebP through libvips, AVIF
  sequences and animated JPEG XL through the WebP animation encoder, picture by picture.
\<close>

datatype animated_conversion_error =
    Animated_initialization | Animated_decode | Animated_dimensions | Animated_resize_error | Animated_encode

definition maximum_animation_frames :: nat where
  "maximum_animation_frames = 1024"

definition maximum_animation_decoded_pixels :: nat where
  "maximum_animation_decoded_pixels = 128000000"

definition animated_fail ::
    "('i, 'w) vips_api \<Rightarrow> animated_conversion_error \<Rightarrow> 'w \<Rightarrow> (animated_conversion_error + bytes) \<times> 'w" where
  "animated_fail vips e w = (Inl e, vips_error_clear vips w)"

section \<open>Pages of libvips\<close>

definition metadata_int :: "('i, 'w) vips_api \<Rightarrow> 'i \<Rightarrow> string \<Rightarrow> 'w \<Rightarrow> int option \<times> 'w" where
  "metadata_int vips im name w =
     (if \<not> vips_has vips im name w then (None, vips_error_clear vips w)
      else (case vips_get_int vips im name w of
              (Some value, w1) \<Rightarrow> (Some value, w1)
            | (None, w1) \<Rightarrow> (None, vips_error_clear vips w1)))"

definition encode_animated ::
    "('i, 'w) vips_api \<Rightarrow> encoding_quality \<Rightarrow> 'i \<Rightarrow> 'w \<Rightarrow> (animated_conversion_error + bytes) \<times> 'w" where
  "encode_animated vips quality im w =
     (case vips_webpsave vips im (encoding_quality_value quality) w of
        (None, w1) \<Rightarrow> animated_fail vips Animated_encode w1
      | (Some encoded, w1) \<Rightarrow> if encoded = [] then animated_fail vips Animated_encode w1 else (Inr encoded, w1))"

definition convert_pages ::
    "('i, 'w) vips_api \<Rightarrow> image_dimensions \<Rightarrow> encoding_quality \<Rightarrow> 'i \<Rightarrow> int \<Rightarrow> int \<Rightarrow> int \<Rightarrow> int \<Rightarrow> 'w
      \<Rightarrow> (animated_conversion_error + bytes) \<times> 'w" where
  "convert_pages vips limits quality loaded loaded_width loaded_height page_count page_height w =
     (if page_count \<le> 0 \<or> page_height \<le> 0 \<or> loaded_height mod page_height \<noteq> 0
            \<or> loaded_height div page_height \<noteq> page_count
         then animated_fail vips Animated_dimensions w
         else case validate_dimensions loaded_width loaded_height page_count True of
                None \<Rightarrow> animated_fail vips Animated_dimensions w
              | Some dimensions \<Rightarrow>
                  if uint (dim_height dimensions) \<noteq> page_height then animated_fail vips Animated_dimensions w
                  else case animated_resize_target dimensions limits of
                         None \<Rightarrow> encode_animated vips quality loaded w
                       | Some target \<Rightarrow>
                           (case vips_thumbnail vips loaded (sint (dim_width target)) (sint (dim_height target)) w of
                              (None, w1) \<Rightarrow> animated_fail vips Animated_resize_error w1
                            | (Some thumbnail, w1) \<Rightarrow> encode_animated vips quality thumbnail w1))"

definition convert_animated_image ::
    "('i, 'w) vips_api \<Rightarrow> bytes \<Rightarrow> image_dimensions \<Rightarrow> encoding_quality \<Rightarrow> 'w
      \<Rightarrow> (animated_conversion_error + bytes) \<times> 'w" where
  "convert_animated_image vips content limits quality w =
     (let (ready, w1) = vips_initialize vips w
      in if \<not> ready then animated_fail vips Animated_initialization w1
         else if content = [] then animated_fail vips Animated_decode w1
         else
           (case vips_load_pages vips content w1 of
              (None, w2) \<Rightarrow> animated_fail vips Animated_decode w2
            | (Some loaded, w2) \<Rightarrow>
                let loaded_width = vips_width vips loaded w2; loaded_height = vips_height vips loaded w2
                in (case metadata_int vips loaded meta_n_pages w2 of
                      (None, w3) \<Rightarrow> animated_fail vips Animated_dimensions w3
                    | (Some page_count, w3) \<Rightarrow>
                        (case metadata_int vips loaded meta_page_height w3 of
                           (None, w4) \<Rightarrow> animated_fail vips Animated_dimensions w4
                         | (Some page_height, w4) \<Rightarrow>
                             convert_pages vips limits quality loaded loaded_width loaded_height page_count page_height w4))))"

section \<open>The animation encoder\<close>

text \<open>The target of the pictures: the resized dimensions if there are any, as signed numbers.\<close>

definition picture_dimensions :: "image_dimensions \<Rightarrow> image_dimensions \<Rightarrow> image_dimensions" where
  "picture_dimensions dimensions limits =
     (case animated_resize_target dimensions limits of Some resized \<Rightarrow> resized | None \<Rightarrow> dimensions)"

definition signed_dimensions :: "image_dimensions \<Rightarrow> bool" where
  "signed_dimensions target \<longleftrightarrow>
     \<not> (dim_width target = 0 \<or> dim_height target = 0 \<or> int_max < uint (dim_width target) \<or> int_max < uint (dim_height target))"

definition picture_target :: "image_dimensions \<Rightarrow> image_dimensions \<Rightarrow> (int \<times> int) option" where
  "picture_target dimensions limits =
     map_option (\<lambda>t. (sint (dim_width t), sint (dim_height t))) (animated_resize_target dimensions limits)"

text \<open>The creation of the encoder. It is configured as in the APNG path
  (\<^verbatim>\<open>initialize_apng_webp_config\<close> makes the same calls) and deleted with the
  function that owns it.\<close>

definition open_encoder :: "'w webp_api \<Rightarrow> image_dimensions \<Rightarrow> 'w \<Rightarrow> bool \<times> 'w" where
  "open_encoder webp target w =
     (case options_init webp w of
        (False, w1) \<Rightarrow> (False, w1)
      | (True, w1) \<Rightarrow> encoder_new webp (sint (dim_width target)) (sint (dim_height target)) w1)"

text \<open>The assembled animation, if it is not empty.\<close>

definition assemble_animation :: "'w webp_api \<Rightarrow> 'w \<Rightarrow> bytes option \<times> 'w" where
  "assemble_animation webp w =
     (case encoder_assemble webp w of
        (None, w1) \<Rightarrow> (None, w1)
      | (Some encoded, w1) \<Rightarrow> (if encoded = [] then None else Some encoded, w1))"

section \<open>AVIF sequences\<close>

text \<open>The checks on a decoded frame, given the number of frames up to it: its merged pixels, if it is
  accepted.\<close>

definition check_avif_frame ::
    "('t, 'w) heif_api \<Rightarrow> 't option \<Rightarrow> u16 \<Rightarrow> u16 \<Rightarrow> nat \<Rightarrow> rgba_image \<Rightarrow> 'w
      \<Rightarrow> (animated_conversion_error + (rgba_image \<times> bytes)) \<times> 'w" where
  "check_avif_frame heif alpha width height frame_count im w =
     (let pixels_per_frame = unat width * unat height
      in if maximum_animation_frames < frame_count
            \<or> maximum_animation_decoded_pixels div pixels_per_frame < frame_count
         then (Inl Animated_dimensions, w)
         else if im_width im \<noteq> uint width \<or> im_height im \<noteq> uint height then (Inl Animated_dimensions, w)
         else
           (case apply_avif_alpha_frame heif alpha im w of
              (None, w1) \<Rightarrow> (Inl Animated_decode, w1)
            | (Some merged, w1) \<Rightarrow>
                (case im_plane merged of
                   None \<Rightarrow> (Inl Animated_decode, w1)
                 | Some pixels \<Rightarrow>
                     if im_stride merged < unat width * 4 \<or> nat int_max < im_stride merged
                        \<or> size_max div im_stride merged < unat height
                     then (Inl Animated_decode, w1)
                     else (Inr (merged, pixels), w1))))"

definition avif_picture :: "u16 \<Rightarrow> u16 \<Rightarrow> (int \<times> int) option \<Rightarrow> rgba_image \<Rightarrow> bytes \<Rightarrow> int \<Rightarrow> picture" where
  "avif_picture width height target im pixels timestamp =
     \<lparr>pic_width = uint width, pic_height = uint height, pic_pixels = pixels, pic_stride = int (im_stride im),
      pic_target = target, pic_timestamp = timestamp\<rparr>"

definition avif_duration_ms :: "u32 \<Rightarrow> u32 \<Rightarrow> u64" where
  "avif_duration_ms duration timescale = max 1 (ucast duration * 1000 div ucast timescale)"

text \<open>
  The loop over the frames of the sequence: the number of frames so far and the timestamp. It ends because a
  frame beyond the limit fails.
\<close>

function (sequential) avif_frame_loop ::
    "('t, 'w) heif_api \<Rightarrow> 'w webp_api \<Rightarrow> webp_config \<Rightarrow> 't \<Rightarrow> 't option \<Rightarrow> u16 \<Rightarrow> u16 \<Rightarrow> u32 \<Rightarrow> (int \<times> int) option
      \<Rightarrow> nat \<Rightarrow> int \<Rightarrow> 'w \<Rightarrow> (animated_conversion_error + (nat \<times> int)) \<times> 'w" where
  "avif_frame_loop heif webp config track alpha width height timescale target n timestamp w =
     (case heif_next_rgba heif track w of
        (Heif_end_of_sequence, w1) \<Rightarrow> (Inr (n, timestamp), w1)
      | (Heif_image (Some im), w1) \<Rightarrow>
          (case check_avif_frame heif alpha width height (Suc n) im w1 of
             (Inl e, w2) \<Rightarrow> (Inl e, w2)
           | (Inr (merged, pixels), w2) \<Rightarrow>
               (case add_picture webp config (avif_picture width height target merged pixels timestamp) w2 of
                  (False, w3) \<Rightarrow> (Inl Animated_encode, w3)
                | (True, w3) \<Rightarrow>
                    let duration = avif_duration_ms (im_duration merged) timescale
                    in if int_max - timestamp < uint duration then (Inl Animated_dimensions, w3)
                       else avif_frame_loop heif webp config track alpha width height timescale target (Suc n)
                              (timestamp + uint duration) w3))
      | (_, w1) \<Rightarrow> (Inl Animated_decode, w1))"
  by pat_completeness auto
termination
  by (relation "measure (\<lambda>(heif, webp, config, track, alpha, width, height, timescale, target, n, timestamp, w).
      maximum_animation_frames - n)")
    (auto simp: check_avif_frame_def Let_def split: if_splits)

text \<open>Behind the loop: the alpha track must end with the visual one, then the encoder gets the terminal
  null picture and assembles.\<close>

definition finish_avif ::
    "('t, 'w) heif_api \<Rightarrow> 'w webp_api \<Rightarrow> 't option \<Rightarrow> nat \<Rightarrow> int \<Rightarrow> 'w \<Rightarrow> (animated_conversion_error + bytes) \<times> 'w" where
  "finish_avif heif webp alpha n timestamp w =
     (if n = 0 then (Inl Animated_decode, w)
      else
        let (ended, w1) = (case alpha of None \<Rightarrow> (True, w)
              | Some track \<Rightarrow> (case heif_next_alpha heif track w of
                    (Heif_end_of_sequence, w') \<Rightarrow> (True, w') | (_, w') \<Rightarrow> (False, w')))
        in if \<not> ended then (Inl Animated_decode, w1)
           else
             (case encoder_end webp timestamp w1 of
                (False, w2) \<Rightarrow> (Inl Animated_encode, w2)
              | (True, w2) \<Rightarrow>
                  (case assemble_animation webp w2 of
                     (None, w3) \<Rightarrow> (Inl Animated_encode, w3)
                   | (Some encoded, w3) \<Rightarrow> (Inr encoded, w3))))"

text \<open>The part of the conversion that owns the encoder.\<close>

definition encode_avif ::
    "('t, 'w) heif_api \<Rightarrow> 'w webp_api \<Rightarrow> encoding_quality \<Rightarrow> 't \<Rightarrow> 't option \<Rightarrow> u16 \<Rightarrow> u16 \<Rightarrow> u32 \<Rightarrow> (int \<times> int) option
      \<Rightarrow> 'w \<Rightarrow> (animated_conversion_error + bytes) \<times> 'w" where
  "encode_avif heif webp quality track alpha width height timescale target w =
     (case initialize_apng_webp_config webp quality w of
        (None, w1) \<Rightarrow> (Inl Animated_encode, w1)
      | (Some config, w1) \<Rightarrow>
          (case heif_options_alloc heif w1 of
             (False, w2) \<Rightarrow> (Inl Animated_decode, w2)
           | (True, w2) \<Rightarrow>
               (case avif_frame_loop heif webp config track alpha width height timescale target 0 0 w2 of
                  (Inl e, w3) \<Rightarrow> (Inl e, w3)
                | (Inr (n, timestamp), w3) \<Rightarrow> finish_avif heif webp alpha n timestamp w3)))"

definition convert_animated_avif ::
    "('i, 'w) vips_api \<Rightarrow> ('t, 'w) heif_api \<Rightarrow> 'w webp_api \<Rightarrow> bytes \<Rightarrow> image_dimensions \<Rightarrow> encoding_quality \<Rightarrow> 'w
      \<Rightarrow> (animated_conversion_error + bytes) \<times> 'w" where
  "convert_animated_avif vips heif webp content limits quality w =
     (if content = [] then animated_fail vips Animated_decode w
      else
        (case open_avif_sequence heif content w of
           (None, w1) \<Rightarrow> animated_fail vips Animated_decode w1
         | (Some (track, alpha), w1) \<Rightarrow>
             (case heif_resolution heif track w1 of
                None \<Rightarrow> animated_fail vips Animated_dimensions w1
              | Some (width, height) \<Rightarrow>
                  (case validate_dimensions (uint width) (uint height) 1 False of
                     None \<Rightarrow> animated_fail vips Animated_dimensions w1
                   | Some dimensions \<Rightarrow>
                       let timescale = heif_timescale heif track w1;
                           target = picture_dimensions dimensions limits
                       in if timescale = 0 then animated_fail vips Animated_decode w1
                          else if \<not> signed_dimensions target then animated_fail vips Animated_dimensions w1
                          else
                            (case open_encoder webp target w1 of
                               (False, w2) \<Rightarrow> animated_fail vips Animated_encode w2
                             | (True, w2) \<Rightarrow>
                                 (case encode_avif heif webp quality track alpha width height timescale
                                         (picture_target dimensions limits) w2 of
                                    (Inl e, w3) \<Rightarrow> (Inl e, encoder_delete webp (vips_error_clear vips w3))
                                  | (Inr encoded, w3) \<Rightarrow> (Inr encoded, encoder_delete webp w3)))))))"

section \<open>Animated JPEG XL\<close>

text \<open>The local variables of the conversion; \<open>ja_config\<close> is the configuration of the
  encoder, \<open>ja_buffer\<close>
  the size of the pixel buffer.\<close>

record jxl_animation =
  ja_width :: int
  ja_height :: int
  ja_pixels_per_frame :: nat
  ja_ticks_per_second :: u32
  ja_tick_denominator :: u32
  ja_frame_duration :: u32
  ja_frame_count :: nat
  ja_timestamp :: int
  ja_target :: "(int \<times> int) option"
  ja_encoder :: bool
  ja_config :: webp_config
  ja_buffer :: nat
  ja_icc :: bytes

definition initial_jxl_animation :: jxl_animation where
  "initial_jxl_animation =
     \<lparr>ja_width = 0, ja_height = 0, ja_pixels_per_frame = 0, ja_ticks_per_second = 0, ja_tick_denominator = 0,
      ja_frame_duration = 0, ja_frame_count = 0, ja_timestamp = 0, ja_target = None, ja_encoder = False,
      ja_config = \<lparr>cfg_lossless = 0, cfg_method = 0, cfg_quality = 0\<rparr>, ja_buffer = 0, ja_icc = []\<rparr>"

text \<open>What an answer of the decoder leads to: the next turn, the end of the loop or a failure.\<close>

datatype jxl_turn = Turn_next | Turn_end | Turn_fail animated_conversion_error

definition jxl_info_accepted :: "jxl_info \<Rightarrow> bool" where
  "jxl_info_accepted info \<longleftrightarrow>
     \<not> (\<not> jxl_have_animation info \<or> int_max < uint (jxl_xsize info) \<or> int_max < uint (jxl_ysize info)
        \<or> jxl_tps_numerator info = 0 \<or> jxl_tps_denominator info = 0)"

text \<open>A new encoder replaces the one before, which is deleted.\<close>

definition replace_encoder ::
    "'w webp_api \<Rightarrow> encoding_quality \<Rightarrow> image_dimensions \<Rightarrow> jxl_animation \<Rightarrow> 'w \<Rightarrow> jxl_turn \<times> jxl_animation \<times> 'w" where
  "replace_encoder webp quality target st w =
     (case options_init webp w of
        (False, w1) \<Rightarrow> (Turn_fail Animated_encode, st, w1)
      | (True, w1) \<Rightarrow>
          (case encoder_new webp (sint (dim_width target)) (sint (dim_height target)) w1 of
             (created, w2) \<Rightarrow>
               let w3 = (if ja_encoder st then encoder_delete webp w2 else w2); st' = st\<lparr>ja_encoder := created\<rparr>
               in if \<not> created then (Turn_fail Animated_encode, st', w3)
                  else
                    (case initialize_apng_webp_config webp quality w3 of
                       (None, w4) \<Rightarrow> (Turn_fail Animated_encode, st', w4)
                     | (Some config, w4) \<Rightarrow> (Turn_next, st'\<lparr>ja_config := config\<rparr>, w4))))"

definition jxl_basic_info ::
    "'w jxl_api \<Rightarrow> 'w webp_api \<Rightarrow> image_dimensions \<Rightarrow> encoding_quality \<Rightarrow> jxl_animation \<Rightarrow> 'w
      \<Rightarrow> jxl_turn \<times> jxl_animation \<times> 'w" where
  "jxl_basic_info jxl webp limits quality st w =
     (case jxl_get_info jxl w of
        (None, w1) \<Rightarrow> (Turn_fail Animated_decode, st, w1)
      | (Some info, w1) \<Rightarrow>
          if \<not> jxl_info_accepted info then (Turn_fail Animated_decode, st, w1)
          else case validate_dimensions (uint (jxl_xsize info)) (uint (jxl_ysize info)) 1 False of
                 None \<Rightarrow> (Turn_fail Animated_dimensions, st, w1)
               | Some dimensions \<Rightarrow>
                   let target = picture_dimensions dimensions limits;
                       st1 = st\<lparr>ja_pixels_per_frame := unat (jxl_xsize info) * unat (jxl_ysize info),
                                ja_width := uint (jxl_xsize info), ja_height := uint (jxl_ysize info),
                                ja_ticks_per_second := jxl_tps_numerator info,
                                ja_tick_denominator := jxl_tps_denominator info,
                                ja_target := picture_target dimensions limits\<rparr>
                   in if \<not> signed_dimensions target then (Turn_fail Animated_dimensions, st1, w1)
                      else replace_encoder webp quality target st1 w1)"

text \<open>The duration of a frame in milliseconds; \<open>None\<close> when its whole seconds exceed the
  limit.\<close>

definition jxl_duration_ms :: "u32 \<Rightarrow> u32 \<Rightarrow> u32 \<Rightarrow> u64 option" where
  "jxl_duration_ms duration tick_denominator ticks_per_second =
     (let scaled_ticks = ucast duration * ucast tick_denominator :: u64;
          seconds = scaled_ticks div ucast ticks_per_second
      in if 2147483647 div 1000 < seconds then None
         else Some (max 1 (seconds * 1000 + (scaled_ticks mod ucast ticks_per_second) * 1000 div ucast ticks_per_second)))"

definition jxl_full_image ::
    "'w jxl_api \<Rightarrow> 'w webp_api \<Rightarrow> jxl_animation \<Rightarrow> 'w \<Rightarrow> jxl_turn \<times> jxl_animation \<times> 'w" where
  "jxl_full_image jxl webp st w =
     (if ja_buffer st = 0 \<or> \<not> ja_encoder st then (Turn_fail Animated_decode, st, w)
      else
        let st1 = st\<lparr>ja_frame_count := Suc (ja_frame_count st)\<rparr>;
            p = \<lparr>pic_width = ja_width st, pic_height = ja_height st,
                 pic_pixels = fit_buffer (ja_buffer st) (jxl_pixels jxl w), pic_stride = ja_width st * 4,
                 pic_target = ja_target st, pic_timestamp = ja_timestamp st\<rparr>
        in (case add_picture webp (ja_config st) p w of
              (False, w1) \<Rightarrow> (Turn_fail Animated_encode, st1, w1)
            | (True, w1) \<Rightarrow>
                (case jxl_duration_ms (ja_frame_duration st) (ja_tick_denominator st) (ja_ticks_per_second st) of
                   None \<Rightarrow> (Turn_fail Animated_dimensions, st1, w1)
                 | Some duration \<Rightarrow>
                     if int_max - ja_timestamp st < uint duration then (Turn_fail Animated_dimensions, st1, w1)
                     else (Turn_next, st1\<lparr>ja_timestamp := ja_timestamp st + uint duration\<rparr>, w1))))"

definition jxl_animation_step ::
    "'w jxl_api \<Rightarrow> 'w webp_api \<Rightarrow> image_dimensions \<Rightarrow> encoding_quality \<Rightarrow> jxl_animation \<Rightarrow> jxl_status \<Rightarrow> 'w
      \<Rightarrow> jxl_turn \<times> jxl_animation \<times> 'w" where
  "jxl_animation_step jxl webp limits quality st answer w =
     (case answer of
        Jxl_basic_info \<Rightarrow> jxl_basic_info jxl webp limits quality st w
      | Jxl_color_encoding \<Rightarrow>
          (case read_icc_profile jxl (ja_icc st) w of
             (None, w1) \<Rightarrow> (Turn_fail Animated_decode, st, w1)
           | (Some icc, w1) \<Rightarrow> (Turn_next, st\<lparr>ja_icc := icc\<rparr>, w1))
      | Jxl_frame \<Rightarrow>
          if \<not> ja_encoder st then (Turn_fail Animated_decode, st, w)
          else (case jxl_frame_duration jxl w of
                  (None, w1) \<Rightarrow> (Turn_fail Animated_decode, st, w1)
                | (Some duration, w1) \<Rightarrow> (Turn_next, st\<lparr>ja_frame_duration := duration\<rparr>, w1))
      | Jxl_need_image_out_buffer \<Rightarrow>
          if ja_pixels_per_frame st = 0 \<or> maximum_animation_frames \<le> ja_frame_count st
             \<or> maximum_animation_decoded_pixels div ja_pixels_per_frame st \<le> ja_frame_count st
          then (Turn_fail Animated_dimensions, st, w)
          else (case prepare_jxl_buffer jxl (ja_pixels_per_frame st * 4) w of
                  (False, w1) \<Rightarrow> (Turn_fail Animated_decode, st, w1)
                | (True, w1) \<Rightarrow> (Turn_next, st\<lparr>ja_buffer := ja_pixels_per_frame st * 4\<rparr>, w1))
      | Jxl_full_image \<Rightarrow> jxl_full_image jxl webp st w
      | Jxl_success \<Rightarrow> (Turn_end, st, w)
      | Jxl_error \<Rightarrow> (Turn_fail Animated_decode, st, w)
      | Jxl_need_more_input \<Rightarrow> (Turn_fail Animated_decode, st, w)
      | Jxl_other_status \<Rightarrow> (Turn_next, st, w))"

text \<open>The loop: the state and the error it ends with, if any.\<close>

partial_function (option) jxl_animation_loop ::
    "'w jxl_api \<Rightarrow> 'w webp_api \<Rightarrow> image_dimensions \<Rightarrow> encoding_quality \<Rightarrow> jxl_animation \<Rightarrow> 'w
      \<Rightarrow> (animated_conversion_error option \<times> jxl_animation \<times> 'w) option" where
  "jxl_animation_loop jxl webp limits quality st w =
     (case jxl_process jxl w of
        (answer, w1) \<Rightarrow>
          (case jxl_animation_step jxl webp limits quality st answer w1 of
             (Turn_fail e, st', w2) \<Rightarrow> Some (Some e, st', w2)
           | (Turn_end, st', w2) \<Rightarrow> Some (None, st', w2)
           | (Turn_next, st', w2) \<Rightarrow> jxl_animation_loop jxl webp limits quality st' w2))"

definition finish_jxl ::
    "'w webp_api \<Rightarrow> jxl_animation \<Rightarrow> 'w \<Rightarrow> (animated_conversion_error + bytes) \<times> 'w" where
  "finish_jxl webp st w =
     (if ja_frame_count st = 0 then (Inl Animated_decode, w)
      else
        (case encoder_end webp (ja_timestamp st) w of
           (False, w1) \<Rightarrow> (Inl Animated_decode, w1)
         | (True, w1) \<Rightarrow>
             (case assemble_animation webp w1 of
                (None, w2) \<Rightarrow> (Inl Animated_encode, w2)
              | (Some encoded, w2) \<Rightarrow>
                  if ja_icc st = [] then (Inr encoded, w2)
                  else (case mux_profile webp encoded (ja_icc st) w2 of
                          (None, w3) \<Rightarrow> (Inl Animated_encode, w3)
                        | (Some profiled, w3) \<Rightarrow> (Inr profiled, w3)))))"

text \<open>The end of the function: an error is cleared, then the encoder and the decoder go.\<close>

definition close_jxl ::
    "('i, 'w) vips_api \<Rightarrow> 'w jxl_api \<Rightarrow> 'w webp_api \<Rightarrow> jxl_animation
      \<Rightarrow> (animated_conversion_error + bytes) \<times> 'w \<Rightarrow> (animated_conversion_error + bytes) \<times> 'w" where
  "close_jxl vips jxl webp st = (\<lambda>(result, w).
     let w1 = (case result of Inl _ \<Rightarrow> vips_error_clear vips w | Inr _ \<Rightarrow> w)
     in (result, jxl_destroy jxl (if ja_encoder st then encoder_delete webp w1 else w1)))"

definition convert_animated_jxl ::
    "('i, 'w) vips_api \<Rightarrow> 'w jxl_api \<Rightarrow> 'w webp_api \<Rightarrow> bytes \<Rightarrow> image_dimensions \<Rightarrow> encoding_quality \<Rightarrow> 'w
      \<Rightarrow> ((animated_conversion_error + bytes) \<times> 'w) option" where
  "convert_animated_jxl vips jxl webp content limits quality w =
     (if content = [] then Some (animated_fail vips Animated_decode w)
      else
        (case jxl_create jxl w of
           (False, w1) \<Rightarrow> Some (animated_fail vips Animated_decode w1)
         | (True, w1) \<Rightarrow>
             (case open_jxl_decoder jxl [Jxl_basic_info, Jxl_color_encoding, Jxl_frame, Jxl_full_image] content w1 of
                (False, w2) \<Rightarrow> Some (close_jxl vips jxl webp initial_jxl_animation (Inl Animated_decode, w2))
              | (True, w2) \<Rightarrow>
                  map_option
                    (\<lambda>(failure, st, w3).
                       close_jxl vips jxl webp st
                         (case failure of Some e \<Rightarrow> (Inl e, w3) | None \<Rightarrow> finish_jxl webp st w3))
                    (jxl_animation_loop jxl webp limits quality initial_jxl_animation w2))))"

end
