(* ===== verification/Conversion.thy ===== *)
theory Conversion
  imports Animated_Conversion
begin

text \<open>
  \<^verbatim>\<open>src/media/conversion.cpp\<close>: the way of a downloaded body to one of the
  converters, and the clean-up of the state that libvips keeps between requests.
\<close>

datatype media_conversion_error = Media_unsupported | Media_decode | Media_convert

definition media_fail ::
    "('i, 'w) vips_api \<Rightarrow> media_conversion_error \<Rightarrow> 'w \<Rightarrow> (media_conversion_error + (output_format \<times> bytes)) \<times> 'w" where
  "media_fail vips e w = (Inl e, vips_error_clear vips w)"

text \<open>The end of every converter: its bytes in a format, or the failure of the conversion.\<close>

definition converted_as ::
    "('i, 'w) vips_api \<Rightarrow> output_format \<Rightarrow> ('e + bytes) \<times> 'w \<Rightarrow> (media_conversion_error + (output_format \<times> bytes)) \<times> 'w" where
  "converted_as vips format = (\<lambda>(result, w).
     case result of Inl _ \<Rightarrow> media_fail vips Media_convert w | Inr encoded \<Rightarrow> (Inr (format, encoded), w))"

definition convert_apng ::
    "('i, 't, 'r, 'w) media_apis \<Rightarrow> bytes \<Rightarrow> encoding_quality \<Rightarrow> 'w
      \<Rightarrow> (media_conversion_error + (output_format \<times> bytes)) \<times> 'w" where
  "convert_apng A content quality w =
     (let vips = vips_of A; (ready, w1) = vips_initialize vips w
      in if \<not> ready then media_fail vips Media_decode w1
         else
           (case vips_load vips content w1 of
              (None, w2) \<Rightarrow> media_fail vips Media_decode w2
            | (Some im, w2) \<Rightarrow>
                let width = vips_width vips im w2; height = vips_height vips im w2
                in if width \<le> 0 \<or> height \<le> 0 then media_fail vips Media_decode w2
                   else converted_as vips Output_webp
                          (convert_apng_to_webp (crc32_of A) (png_of A) (webp_of A) content (of_int width) (of_int height) quality w2)))"

text \<open>The choice of the converter.\<close>

definition convert_animated ::
    "('i, 't, 'r, 'w) media_apis \<Rightarrow> bytes \<Rightarrow> mime_type \<Rightarrow> image_dimensions \<Rightarrow> encoding_quality \<Rightarrow> 'w
      \<Rightarrow> ((animated_conversion_error + bytes) \<times> 'w) option" where
  "convert_animated A content mime limits quality w =
     (if mime = Image_avif then Some (convert_animated_avif (vips_of A) (heif_of A) (webp_of A) content limits quality w)
      else if mime = Image_jxl then convert_animated_jxl (vips_of A) (jxl_of A) (webp_of A) content limits quality w
      else Some (convert_animated_image (vips_of A) content limits quality w))"

definition dispatch_media ::
    "('i, 't, 'r, 'w) media_apis \<Rightarrow> bytes \<Rightarrow> mime_type \<Rightarrow> bool \<Rightarrow> output_format \<Rightarrow> image_dimensions \<Rightarrow> encoding_quality \<Rightarrow> 'w
      \<Rightarrow> ((media_conversion_error + (output_format \<times> bytes)) \<times> 'w) option" where
  "dispatch_media A content mime force_static preferred limits quality w =
     (if mime = Image_png \<and> classify_apng content \<noteq> Not_apng then Some (convert_apng A content quality w)
      else
        (case classify_media (jxl_of A) mime content force_static preferred w of
           (None, w1) \<Rightarrow> Some (media_fail (vips_of A) Media_unsupported w1)
         | (Some plan, w1) \<Rightarrow>
             if plan_animated plan
             then map_option (converted_as (vips_of A) Output_webp) (convert_animated A content mime limits quality w1)
             else map_option (converted_as (vips_of A) (plan_output plan))
                    (convert_static_image A content mime (plan_output plan) limits quality w1)))"

text \<open>The request state is reset when the function is left behind its first check.\<close>

definition request_state_reset :: "('i, 'w) vips_api \<Rightarrow> 'w \<Rightarrow> 'w" where
  "request_state_reset vips w = vips_error_clear vips (vips_cache_drop_all vips w)"

definition convert_media ::
    "('i, 't, 'r, 'w) media_apis \<Rightarrow> bytes \<Rightarrow> mime_type \<Rightarrow> bool \<Rightarrow> output_format \<Rightarrow> image_dimensions \<Rightarrow> encoding_quality \<Rightarrow> 'w
      \<Rightarrow> ((media_conversion_error + (output_format \<times> bytes)) \<times> 'w) option" where
  "convert_media A content mime force_static preferred limits quality w =
     (let vips = vips_of A; (ready, w1) = vips_initialize vips w
      in if \<not> ready then Some (media_fail vips Media_decode w1)
         else map_option (\<lambda>(result, w2). (result, request_state_reset vips w2))
                (dispatch_media A content mime force_static preferred limits quality w1))"

section \<open>Conversions return\<close>

text \<open>
  What \<^verbatim>\<open>jxl/decode.h\<close> says of a decoder that has been given its whole input: every
  call of \<^verbatim>\<open>JxlDecoderProcessInput\<close> takes it further through that input until it
  reports the end, an error, or a lack of input, with one exception: it asks for an output buffer while it
  has none for its image, and does not go on before it has one. \<open>work\<close> is what is left of the
  input and \<open>lacks\<close> says that there is no output buffer. A buffer may be set as often as one
  likes; no other call that the loops make adds work or takes the buffer away.
\<close>

definition final_answer :: "jxl_status \<Rightarrow> bool" where
  "final_answer answer \<longleftrightarrow> answer = Jxl_success \<or> answer = Jxl_error \<or> answer = Jxl_need_more_input"

definition undisturbed :: "('w \<Rightarrow> nat) \<Rightarrow> ('w \<Rightarrow> bool) \<Rightarrow> 'w \<Rightarrow> 'w \<Rightarrow> bool" where
  "undisturbed work lacks w w' \<longleftrightarrow> work w' \<le> work w \<and> (lacks w' \<longrightarrow> lacks w)"

definition decoder_progress :: "'w jxl_api \<Rightarrow> 'w webp_api \<Rightarrow> ('w \<Rightarrow> nat) \<Rightarrow> ('w \<Rightarrow> bool) \<Rightarrow> bool" where
  "decoder_progress jxl webp work lacks \<longleftrightarrow>
     (\<forall>w answer w'. jxl_process jxl w = (answer, w') \<and> \<not> final_answer answer \<longrightarrow>
        (if answer = Jxl_need_image_out_buffer then lacks w \<and> work w' \<le> work w else work w' < work w))
     \<and> (\<forall>w n w'. jxl_set_buffer jxl n w = (True, w') \<longrightarrow> work w' \<le> work w \<and> \<not> lacks w')
     \<and> (\<forall>w. undisturbed work lacks w (snd (jxl_get_info jxl w))) \<and> (\<forall>w. undisturbed work lacks w (snd (jxl_icc_size jxl w)))
     \<and> (\<forall>w n. undisturbed work lacks w (snd (jxl_get_icc jxl n w)))
     \<and> (\<forall>w. undisturbed work lacks w (snd (jxl_frame_duration jxl w)))
     \<and> (\<forall>w. undisturbed work lacks w (snd (jxl_buffer_size jxl w)))
     \<and> (\<forall>w. undisturbed work lacks w (snd (options_init webp w)))
     \<and> (\<forall>w x y. undisturbed work lacks w (snd (encoder_new webp x y w)))
     \<and> (\<forall>w. undisturbed work lacks w (encoder_delete webp w)) \<and> (\<forall>w. undisturbed work lacks w (snd (config_init webp w)))
     \<and> (\<forall>w c. undisturbed work lacks w (snd (validate_config webp c w)))
     \<and> (\<forall>w. undisturbed work lacks w (snd (picture_init webp w))) \<and> (\<forall>w. undisturbed work lacks w (picture_free webp w))
     \<and> (\<forall>w x y p s. undisturbed work lacks w (snd (picture_import webp x y p s w)))
     \<and> (\<forall>w x y. undisturbed work lacks w (snd (picture_rescale webp x y w)))
     \<and> (\<forall>w t c. undisturbed work lacks w (snd (encoder_add webp t c w)))"

text \<open>The measure of the loops: the work, and first the buffer that is still to be set.\<close>

definition turns_left :: "('w \<Rightarrow> nat) \<Rightarrow> ('w \<Rightarrow> bool) \<Rightarrow> 'w \<Rightarrow> nat" where
  "turns_left work lacks w = 2 * work w + (if lacks w then 1 else 0)"

lemma undisturbed_turns: "undisturbed work lacks w w' \<Longrightarrow> turns_left work lacks w' \<le> turns_left work lacks w"
  by (auto simp: undisturbed_def turns_left_def)

lemma decoder_progressD:
  assumes "decoder_progress jxl webp work lacks"
  shows "jxl_process jxl w = (answer, w') \<Longrightarrow> \<not> final_answer answer \<Longrightarrow> answer \<noteq> Jxl_need_image_out_buffer \<Longrightarrow>
      turns_left work lacks w' < turns_left work lacks w"
    and "jxl_process jxl w = (Jxl_need_image_out_buffer, w') \<Longrightarrow> lacks w \<and> work w' \<le> work w"
    and "jxl_set_buffer jxl n w = (True, w') \<Longrightarrow> work w' \<le> work w \<and> \<not> lacks w'"
    and "jxl_buffer_size jxl w = (n', w') \<Longrightarrow> undisturbed work lacks w w'"
    and "jxl_get_info jxl w = (info, w') \<Longrightarrow> turns_left work lacks w' \<le> turns_left work lacks w"
    and "jxl_icc_size jxl w = (n', w') \<Longrightarrow> turns_left work lacks w' \<le> turns_left work lacks w"
    and "jxl_get_icc jxl n w = (icc, w') \<Longrightarrow> turns_left work lacks w' \<le> turns_left work lacks w"
    and "jxl_frame_duration jxl w = (duration, w') \<Longrightarrow> turns_left work lacks w' \<le> turns_left work lacks w"
    and "options_init webp w = (ok, w') \<Longrightarrow> turns_left work lacks w' \<le> turns_left work lacks w"
    and "encoder_new webp x y w = (ok, w') \<Longrightarrow> turns_left work lacks w' \<le> turns_left work lacks w"
    and "turns_left work lacks (encoder_delete webp w) \<le> turns_left work lacks w"
    and "config_init webp w = (ok, w') \<Longrightarrow> turns_left work lacks w' \<le> turns_left work lacks w"
    and "validate_config webp c w = (ok, w') \<Longrightarrow> turns_left work lacks w' \<le> turns_left work lacks w"
    and "picture_init webp w = (ok, w') \<Longrightarrow> turns_left work lacks w' \<le> turns_left work lacks w"
    and "turns_left work lacks (picture_free webp w) \<le> turns_left work lacks w"
    and "picture_import webp x y p s w = (ok, w') \<Longrightarrow> turns_left work lacks w' \<le> turns_left work lacks w"
    and "picture_rescale webp x y w = (ok, w') \<Longrightarrow> turns_left work lacks w' \<le> turns_left work lacks w"
    and "encoder_add webp t c w = (ok, w') \<Longrightarrow> turns_left work lacks w' \<le> turns_left work lacks w"
proof -
  note laws = assms [unfolded decoder_progress_def]
  show "turns_left work lacks w' < turns_left work lacks w"
    if "jxl_process jxl w = (answer, w')" "\<not> final_answer answer" "answer \<noteq> Jxl_need_image_out_buffer"
  proof -
    from laws that have "work w' < work w" by fastforce
    then show ?thesis by (simp add: turns_left_def)
  qed
  have "\<not> final_answer Jxl_need_image_out_buffer" by (simp add: final_answer_def)
  with laws show "jxl_process jxl w = (Jxl_need_image_out_buffer, w') \<Longrightarrow> lacks w \<and> work w' \<le> work w" by fastforce
  from laws have "\<forall>w n w'. jxl_set_buffer jxl n w = (True, w') \<longrightarrow> work w' \<le> work w \<and> \<not> lacks w'"
    by (elim conjE)
  then show "jxl_set_buffer jxl n w = (True, w') \<Longrightarrow> work w' \<le> work w \<and> \<not> lacks w'" by simp
  from laws show "jxl_buffer_size jxl w = (n', w') \<Longrightarrow> undisturbed work lacks w w'" by (metis snd_conv)
qed (use assms in \<open>unfold decoder_progress_def, metis undisturbed_turns snd_conv\<close>)+

lemma read_icc_work:
  assumes "decoder_progress jxl webp work lacks" and "read_icc_profile jxl icc w = (r, w')"
  shows "turns_left work lacks w' \<le> turns_left work lacks w"
proof -
  note progress = decoder_progressD [OF assms(1)]
  obtain n w1 where run: "jxl_icc_size jxl w = (n, w1)" by (metis surj_pair)
  then have "turns_left work lacks w1 \<le> turns_left work lacks w" by (rule progress(6))
  with assms(2) run show ?thesis
    by (fastforce simp: read_icc_profile_def split: option.splits if_splits prod.splits dest: progress(7))
qed

lemma prepare_buffer_work:
  assumes "decoder_progress jxl webp work lacks" and "jxl_process jxl w = (Jxl_need_image_out_buffer, w1)"
    and "prepare_jxl_buffer jxl n w1 = (True, w')"
  shows "turns_left work lacks w' < turns_left work lacks w"
proof -
  note progress = decoder_progressD [OF assms(1)]
  from assms(3) obtain w2 where "jxl_buffer_size jxl w1 = (Some n, w2)" "jxl_set_buffer jxl n w2 = (True, w')"
    by (auto simp: prepare_jxl_buffer_def split: prod.splits option.splits if_splits)
  with progress(2) [OF assms(2)] progress(3,4) have "lacks w" "\<not> lacks w'" "work w' \<le> work w2" "work w2 \<le> work w1" "work w1 \<le> work w"
    by (auto simp: undisturbed_def)
  then show ?thesis by (simp add: turns_left_def)
qed

text \<open>One answer and the step on it take work away.\<close>

lemma first_step_work:
  assumes "decoder_progress jxl webp work lacks" and "jxl_process jxl w = (answer, w1)"
    and "jxl_first_step vips jxl st answer w1 = (Inr st', w2)"
  shows "turns_left work lacks w2 < turns_left work lacks w"
proof -
  note progress = decoder_progressD [OF assms(1)]
  from assms(3) have "\<not> final_answer answer"
    by (auto simp: jxl_first_step_def final_answer_def)
  note work1 = progress(1) [OF assms(2) this]
  show ?thesis
  proof (cases "answer = Jxl_need_image_out_buffer")
    case True
    with assms(3) have "prepare_jxl_buffer jxl (nat (jf_width st) * nat (jf_height st) * 4) w1 = (True, w2)"
      by (auto simp: jxl_first_step_def Let_def split: if_splits prod.splits bool.splits)
    with prepare_buffer_work [OF assms(1)] assms(2) True show ?thesis by blast
  next
    case False
    with work1 have less: "turns_left work lacks w1 < turns_left work lacks w" by blast
    have "turns_left work lacks w2 \<le> turns_left work lacks w1"
      using assms(3) False
      by (auto simp: jxl_first_step_def Let_def dest: progress(5) read_icc_work [OF assms(1)]
          split: jxl_status.splits prod.splits option.splits if_splits)
    with less show ?thesis by linarith
  qed
qed

lemma first_loop_returns:
  assumes "decoder_progress jxl webp work lacks"
  shows "\<exists>r. jxl_first_loop vips jxl st w = Some r"
proof (induction "turns_left work lacks w" arbitrary: st w rule: less_induct)
  case less
  obtain answer w1 where run: "jxl_process jxl w = (answer, w1)" by (metis surj_pair)
  obtain r w2 where step: "jxl_first_step vips jxl st answer w1 = (r, w2)" by (metis surj_pair)
  show ?case
  proof (cases r)
    case (Inl im)
    with run step show ?thesis by (simp add: jxl_first_loop.simps)
  next
    case (Inr st')
    with first_step_work [OF assms run] step have "turns_left work lacks w2 < turns_left work lacks w" by blast
    with less run step Inr show ?thesis by (simp add: jxl_first_loop.simps [of vips jxl st w])
  qed
qed

lemma config_work:
  assumes "decoder_progress jxl webp work lacks" and "initialize_apng_webp_config webp quality w = (r, w')"
  shows "turns_left work lacks w' \<le> turns_left work lacks w"
proof -
  note progress = decoder_progressD [OF assms(1)]
  obtain ok w1 where run: "config_init webp w = (ok, w1)" by (metis surj_pair)
  then have "turns_left work lacks w1 \<le> turns_left work lacks w" by (rule progress(12))
  with assms(2) run progress(13) show ?thesis
    by (fastforce simp: initialize_apng_webp_config_def split: bool.splits prod.splits)
qed

lemma replace_encoder_work:
  assumes "decoder_progress jxl webp work lacks" and "replace_encoder webp quality target st w = (turn, st', w')"
  shows "turns_left work lacks w' \<le> turns_left work lacks w"
proof -
  note progress = decoder_progressD [OF assms(1)]
  obtain ok w1 where run1: "options_init webp w = (ok, w1)" by (metis surj_pair)
  obtain created w2 where run2: "encoder_new webp (sint (dim_width target)) (sint (dim_height target)) w1 = (created, w2)"
    by (metis surj_pair)
  let ?w3 = "if ja_encoder st then encoder_delete webp w2 else w2"
  have "turns_left work lacks w1 \<le> turns_left work lacks w" "turns_left work lacks ?w3 \<le> turns_left work lacks w1"
    using progress(9) [OF run1] progress(10) [OF run2] progress(11) [of w2] by auto
  moreover from assms(2) run1 run2 have "w' = w1 \<or> w' = ?w3 \<or> (\<exists>r. initialize_apng_webp_config webp quality ?w3 = (r, w'))"
    by (auto simp: replace_encoder_def Let_def split: bool.splits prod.splits option.splits if_splits)
  moreover have "turns_left work lacks w' \<le> turns_left work lacks ?w3" if "initialize_apng_webp_config webp quality ?w3 = (r, w')" for r
    by (rule config_work [OF assms(1) that])
  ultimately show ?thesis by fastforce
qed

lemma add_picture_work:
  assumes "decoder_progress jxl webp work lacks" and "add_picture webp config p w = (ok, w')"
  shows "turns_left work lacks w' \<le> turns_left work lacks w"
proof -
  note progress = decoder_progressD [OF assms(1)]
  obtain ok1 w1 where run1: "picture_init webp w = (ok1, w1)" by (metis surj_pair)
  obtain ok2 w2 where run2: "picture_import webp (pic_width p) (pic_height p) (pic_pixels p) (pic_stride p) w1 = (ok2, w2)"
    by (metis surj_pair)
  obtain ok3 w3 where run3: "(case pic_target p of None \<Rightarrow> (True, w2) | Some (tw, th) \<Rightarrow> picture_rescale webp tw th w2) = (ok3, w3)"
    by (rule prod.exhaust)
  obtain ok4 w4 where run4: "encoder_add webp (pic_timestamp p) config w3 = (ok4, w4)" by (metis surj_pair)
  have "turns_left work lacks w1 \<le> turns_left work lacks w" "turns_left work lacks w2 \<le> turns_left work lacks w1" "turns_left work lacks w4 \<le> turns_left work lacks w3"
    using progress(14) [OF run1] progress(16) [OF run2] progress(18) [OF run4] by simp_all
  moreover have "turns_left work lacks w3 \<le> turns_left work lacks w2"
    using run3 progress(17) by (auto split: option.splits)
  moreover from assms(2) run1 run2 run3 run4
  have "w' = w1 \<or> w' = picture_free webp w2 \<or> w' = picture_free webp w3 \<or> w' = picture_free webp w4"
    by (auto simp: add_picture_def split: bool.splits)
  ultimately show ?thesis using progress(15) [of w2] progress(15) [of w3] progress(15) [of w4] by auto
qed

lemma animation_step_work:
  assumes "decoder_progress jxl webp work lacks" and "jxl_process jxl w = (answer, w1)"
    and "jxl_animation_step jxl webp limits quality st answer w1 = (Turn_next, st', w2)"
  shows "turns_left work lacks w2 < turns_left work lacks w"
proof -
  note progress = decoder_progressD [OF assms(1)]
  from assms(3) have "\<not> final_answer answer"
    by (auto simp: jxl_animation_step_def final_answer_def)
  note work1 = progress(1) [OF assms(2) this]
  show ?thesis
  proof (cases "answer = Jxl_need_image_out_buffer")
    case True
    with assms(3) have "prepare_jxl_buffer jxl (ja_pixels_per_frame st * 4) w1 = (True, w2)"
      by (auto simp: jxl_animation_step_def split: if_splits prod.splits bool.splits)
    with prepare_buffer_work [OF assms(1)] assms(2) True show ?thesis by blast
  next
    case False
    with work1 have less: "turns_left work lacks w1 < turns_left work lacks w" by blast
    have info: "turns_left work lacks w2 \<le> turns_left work lacks w1" if run: "jxl_basic_info jxl webp limits quality st w1 = (Turn_next, st', w2)"
    proof -
      obtain i w3 where got: "jxl_get_info jxl w1 = (i, w3)" by (metis surj_pair)
      with run obtain target st3 where "replace_encoder webp quality target st3 w3 = (Turn_next, st', w2)"
        by (auto simp: jxl_basic_info_def Let_def split: option.splits if_splits)
      with replace_encoder_work [OF assms(1)] progress(5) [OF got] show ?thesis by (metis le_trans)
    qed
    have full: "turns_left work lacks w2 \<le> turns_left work lacks w1" if "jxl_full_image jxl webp st w1 = (Turn_next, st', w2)"
      using that by (auto simp: jxl_full_image_def Let_def dest: add_picture_work [OF assms(1)]
          split: if_splits prod.splits bool.splits option.splits)
    have "turns_left work lacks w2 \<le> turns_left work lacks w1"
      using assms(3) False info full
      by (auto simp: jxl_animation_step_def dest: progress(8) read_icc_work [OF assms(1)]
          split: jxl_status.splits prod.splits option.splits if_splits)
    with less show ?thesis by linarith
  qed
qed

lemma animation_loop_returns:
  assumes "decoder_progress jxl webp work lacks"
  shows "\<exists>r. jxl_animation_loop jxl webp limits quality st w = Some r"
proof (induction "turns_left work lacks w" arbitrary: st w rule: less_induct)
  case less
  obtain answer w1 where run: "jxl_process jxl w = (answer, w1)" by (metis surj_pair)
  obtain turn st' w2 where step: "jxl_animation_step jxl webp limits quality st answer w1 = (turn, st', w2)" by (metis surj_pair)
  show ?case
  proof (cases "turn = Turn_next")
    case True
    with animation_step_work [OF assms run] step have "turns_left work lacks w2 < turns_left work lacks w" by blast
    with less run step True show ?thesis by (simp add: jxl_animation_loop.simps [of jxl webp limits quality st w])
  next
    case False
    with run step show ?thesis by (cases turn) (simp_all add: jxl_animation_loop.simps)
  qed
qed

text \<open>Every conversion returns: the only loops without a bound of their own are those that ask the
  JPEG XL decoder for its next event, and they end for every decoder that makes progress on a body it
  has been given whole, whatever all other libraries answer.\<close>

lemma convert_media_returns:
  assumes "decoder_progress (jxl_of A) (webp_of A) work lacks"
  shows "\<exists>result w'. convert_media A content mime force_static preferred limits quality w = Some (result, w')"
proof -
  have loops: "jxl_first_loop (vips_of A) (jxl_of A) st w1 \<noteq> None"
    "jxl_animation_loop (jxl_of A) (webp_of A) limits quality st' w1 \<noteq> None" for st st' w1
    using first_loop_returns [OF assms] animation_loop_returns [OF assms] by blast+
  have "load_jxl_first_frame (vips_of A) (jxl_of A) content w1 \<noteq> None" for w1
    using loops(1) by (simp add: load_jxl_first_frame_def split: prod.splits bool.splits del: not_None_eq)
  then have "load_image A content mime w1 \<noteq> None" for w1
    by (simp add: load_image_def Let_def split: prod.splits option.splits del: not_None_eq)
  then have static: "convert_static_image A content mime out limits quality w1 \<noteq> None" for out w1
    unfolding convert_static_image_def by (simp add: Let_def split_def del: not_None_eq)
  have "convert_animated_jxl (vips_of A) (jxl_of A) (webp_of A) content limits quality w1 \<noteq> None" for w1
    using loops(2) by (simp add: convert_animated_jxl_def split: prod.splits bool.splits del: not_None_eq)
  then have "convert_animated A content mime limits quality w1 \<noteq> None" for w1
    by (simp add: convert_animated_def del: not_None_eq)
  with static have "dispatch_media A content mime force_static preferred limits quality w1 \<noteq> None" for w1
    by (simp add: dispatch_media_def split: prod.splits option.splits del: not_None_eq)
  then have "convert_media A content mime force_static preferred limits quality w \<noteq> None"
    unfolding convert_media_def by (simp add: Let_def split_def del: not_None_eq)
  then show ?thesis by auto
qed

text \<open>A decoder of one image of two pixels: the world is the number of events that are left and
  whether an output buffer is set. It asks for a buffer until it has one, and takes any number of
  buffers.\<close>

definition film_jxl :: "(nat \<times> bool) jxl_api" where
  "film_jxl = \<lparr>jxl_create = (\<lambda>_. (True, (3, False))), jxl_destroy = id, jxl_subscribe = (\<lambda>_. Pair True), jxl_unpremultiply = Pair True,
     jxl_set_input = (\<lambda>_. id), jxl_close_input = id,
     jxl_process = (\<lambda>(n, set). if n = 3 then (Jxl_basic_info, (2, set))
        else if n = 2 then (if set then (Jxl_full_image, (1, False)) else (Jxl_need_image_out_buffer, (2, False)))
        else (Jxl_success, (0, set))),
     jxl_get_info = Pair (Some \<lparr>jxl_xsize = 2, jxl_ysize = 1, jxl_have_animation = False, jxl_tps_numerator = 0, jxl_tps_denominator = 0\<rparr>),
     jxl_icc_size = Pair None, jxl_get_icc = (\<lambda>_. Pair None), jxl_frame_duration = Pair None, jxl_buffer_size = Pair (Some 8),
     jxl_set_buffer = (\<lambda>_ (n, set). (True, (n, True))), jxl_pixels = (\<lambda>_. [1, 2, 3, 4, 5, 6, 7, 8])\<rparr>"

definition film_media :: "(int \<times> int, unit, unit, nat \<times> bool) media_apis" where
  "film_media = \<lparr>vips_of = sample_vips, heif_of = idle_heif, jxl_of = film_jxl,
     resvg_of = \<lparr>resvg_parse = (\<lambda>_ _. Pair (1, None, 0, 0)), resvg_render = (\<lambda>_ _ _ _. Pair None), resvg_destroy = (\<lambda>_. id)\<rparr>,
     webp_of = sample_webp,
     png_of = \<lparr>png_begin = (\<lambda>_. Pair None), png_size = (\<lambda>_. 0), png_finish = (\<lambda>_. Pair None), png_free = id\<rparr>,
     crc32_of = (\<lambda>_. 0), svg_font = []\<rparr>"

lemma film_media_progress: "decoder_progress (jxl_of film_media) (webp_of film_media) fst (\<lambda>w. \<not> snd w)"
  by (auto simp: decoder_progress_def film_media_def film_jxl_def sample_webp_def final_answer_def undisturbed_def
      split: if_splits)

lemma film_conversion:
  "convert_media film_media [0xFF, 0x0A] Image_jxl False Output_webp \<lparr>dim_width = 3200, dim_height = 3200\<rparr> Quality_url_only w =
     Some (Inr (Output_webp, [2, 1, 70]), (1, False))"
proof -
  let ?st = "\<lparr>jf_width = 2, jf_height = 1, jf_buffer = 0, jf_icc = []\<rparr>"
  have vips: "vips_of film_media = sample_vips" "jxl_of film_media = film_jxl" by (simp_all add: film_media_def)
  have "jxl_first_loop sample_vips film_jxl (?st\<lparr>jf_buffer := 8\<rparr>) (2, True) = Some (Some (2, 1), (1, False))"
    by (subst jxl_first_loop.simps) (simp add: film_jxl_def jxl_first_step_def sample_vips_def)
  then have "jxl_first_loop sample_vips film_jxl ?st (2, False) = Some (Some (2, 1), (1, False))"
    by (subst jxl_first_loop.simps) (simp add: film_jxl_def jxl_first_step_def prepare_jxl_buffer_def)
  then have "jxl_first_loop sample_vips film_jxl \<lparr>jf_width = 0, jf_height = 0, jf_buffer = 0, jf_icc = []\<rparr> (3, False) =
      Some (Some (2, 1), (1, False))"
    by (subst jxl_first_loop.simps) (simp add: film_jxl_def jxl_first_step_def validate_dimensions_def int_max_def
        maximum_media_width_def maximum_media_height_def)
  then have "load_jxl_first_frame sample_vips film_jxl [0xFF, 0x0A] w1 = Some (Some (2, 1), (1, False))" for w1
    by (simp add: load_jxl_first_frame_def open_jxl_decoder_def film_jxl_def)
  then have loaded: "load_image film_media [0xFF, 0x0A] Image_jxl w1 = Some (Some (2, 1), (1, False))" for w1
    by (simp add: load_image_def vips)
  have started: "vips_initialize sample_vips w1 = (True, w1)" for w1 :: "nat \<times> bool"
    by (simp add: sample_vips_def)
  have "convert_loaded sample_vips Output_webp \<lparr>dim_width = 3200, dim_height = 3200\<rparr> Quality_url_only (2, 1) w1 = (Inr [2, 1, 70], w1)"
    for w1 :: "nat \<times> bool"
    by (simp add: convert_loaded_def sample_vips_def image_metadata_int_def validate_dimensions_def maximum_media_width_def
        maximum_media_height_def resize_and_encode_def static_resize_scale_def encode_static_def encoding_quality_value_def)
  with loaded started have "convert_static_image film_media [0xFF, 0x0A] Image_jxl Output_webp \<lparr>dim_width = 3200, dim_height = 3200\<rparr>
      Quality_url_only w1 = Some (Inr [2, 1, 70], (1, False))" for w1
    unfolding convert_static_image_def vips Let_def by simp
  moreover have "classify_media film_jxl Image_jxl [0xFF, 0x0A] False Output_webp w1 =
      (Some \<lparr>plan_animated = False, plan_output = Output_webp\<rparr>, (2, False))" for w1
    by (simp add: classify_media_def is_animated_jxl_def film_jxl_def Let_def)
  ultimately have "dispatch_media film_media [0xFF, 0x0A] Image_jxl False Output_webp \<lparr>dim_width = 3200, dim_height = 3200\<rparr>
      Quality_url_only w1 = Some (Inr (Output_webp, [2, 1, 70]), (1, False))" for w1
    by (simp add: dispatch_media_def vips converted_as_def)
  moreover have "request_state_reset sample_vips w1 = w1" for w1 :: "nat \<times> bool"
    by (simp add: request_state_reset_def sample_vips_def)
  ultimately show ?thesis
    using started unfolding convert_media_def vips Let_def by simp
qed

section \<open>What an answer is\<close>
























end
