(* ===== verification/Address_Policy.thy ===== *)
theory Address_Policy
  imports Prelude
begin

text \<open>
  \<^verbatim>\<open>src/http/address_policy.cpp\<close> and
  \<^verbatim>\<open>include/mediaproxy/http/address_policy.hpp\<close>: which network addresses the proxy
  may contact. \<^verbatim>\<open>inet_pton\<close> belongs to the C library: its two address families are
  the parameters \<open>pton4\<close> and \<open>pton6\<close>, which return the address bytes, and
  \<open>ntop\<close> is \<^verbatim>\<open>inet_ntop\<close> on the bytes of one address.
\<close>

datatype address_family = Ipv4 | Ipv6

datatype address_error =
    Parse_failure | Mapped_ipv6 | Loopback | Private_address | Link_local | Multicast
  | Unspecified | Denied_range | Not_global_unicast

text \<open>\<^verbatim>\<open>AddressError::none\<close> is \<open>None\<close> of \<open>address_error
  option\<close>, or \<open>Inr\<close> of a result.\<close>

record validated_address =
  family :: address_family
  addr_bytes :: bytes

record inet_api =
  pton4 :: "string \<Rightarrow> bytes option"
  pton6 :: "string \<Rightarrow> bytes option"
  ntop :: "address_family \<Rightarrow> bytes \<Rightarrow> string option"

text \<open>
  \<^verbatim>\<open>AddressBytes\<close> is a 16-byte array that \<^verbatim>\<open>inet_pton\<close> fills
  from the front, the rest staying zero.
\<close>

definition fill16 :: "bytes \<Rightarrow> bytes" where
  "fill16 bs = take 16 (bs @ replicate 16 0)"

definition has_prefix :: "bytes \<Rightarrow> bytes \<Rightarrow> nat \<Rightarrow> bool" where
  "has_prefix address prefix prefix_bits =
     (let full_bytes = prefix_bits div 8; remaining_bits = prefix_bits mod 8
      in if take full_bytes prefix \<noteq> take full_bytes address then False
         else if remaining_bits = 0 then True
         else
           let mask = (push_bit (8 - remaining_bits) 255 :: byte)
           in and (address ! full_bytes) mask = and (prefix ! full_bytes) mask)"

text \<open>An IPv6 prefix array is written with its leading bytes only, the rest being zero.\<close>

definition ipv4_prefix :: "bytes \<Rightarrow> bytes \<Rightarrow> nat \<Rightarrow> bool" where
  "ipv4_prefix address prefix prefix_bits = has_prefix address prefix prefix_bits"

definition ipv6_prefix :: "bytes \<Rightarrow> bytes \<Rightarrow> nat \<Rightarrow> bool" where
  "ipv6_prefix address prefix prefix_bits = has_prefix address (fill16 prefix) prefix_bits"

definition classify_ipv4 :: "bytes \<Rightarrow> address_error option" where
  "classify_ipv4 address =
     (if ipv4_prefix address [0, 0, 0, 0] 32 then Some Unspecified
      else if ipv4_prefix address [127, 0, 0, 0] 8 then Some Loopback
      else if ipv4_prefix address [10, 0, 0, 0] 8 \<or> ipv4_prefix address [172, 16, 0, 0] 12
        \<or> ipv4_prefix address [192, 168, 0, 0] 16 then Some Private_address
      else if ipv4_prefix address [169, 254, 0, 0] 16 then Some Link_local
      else if ipv4_prefix address [224, 0, 0, 0] 4 then Some Multicast
      else if ipv4_prefix address [0, 0, 0, 0] 8 \<or> ipv4_prefix address [100, 64, 0, 0] 10
        then Some Denied_range
      else if ipv4_prefix address [192, 0, 0, 0] 24 \<or> ipv4_prefix address [192, 0, 2, 0] 24
        \<or> ipv4_prefix address [192, 88, 99, 0] 24 \<or> ipv4_prefix address [198, 18, 0, 0] 15
        \<or> ipv4_prefix address [198, 51, 100, 0] 24 \<or> ipv4_prefix address [203, 0, 113, 0] 24
        \<or> ipv4_prefix address [240, 0, 0, 0] 4 then Some Not_global_unicast
      else None)"

definition classify_ipv6 :: "bytes \<Rightarrow> address_error option" where
  "classify_ipv6 address =
     (if address = replicate 16 0 then Some Unspecified
      else if address = replicate 15 0 @ [1] then Some Loopback
      else if ipv6_prefix address [0, 0, 0, 0, 0, 0, 0, 0, 0, 0, 0xff, 0xff, 0, 0, 0, 0] 96
        then Some Mapped_ipv6
      else if ipv6_prefix address [0xfc] 7 then Some Private_address
      else if ipv6_prefix address [0xfe, 0x80] 10 then Some Link_local
      else if ipv6_prefix address [0xff] 8 then Some Multicast
      else if ipv6_prefix address [] 96 \<or> ipv6_prefix address [0x00, 0x64, 0xff, 0x9b] 96
        \<or> ipv6_prefix address [0x00, 0x64, 0xff, 0x9b, 0x00, 0x01] 48
        \<or> ipv6_prefix address [0x20, 0x01, 0x00, 0x10] 28
        \<or> ipv6_prefix address [0x20, 0x01, 0x0d, 0xb8] 32 then Some Denied_range
      else if ipv6_prefix address [0x01, 0x00] 64 \<or> ipv6_prefix address [0x20, 0x01] 23
        \<or> ipv6_prefix address [0x20, 0x02] 16 \<or> ipv6_prefix address [0x3f, 0xff] 20
        \<or> \<not> ipv6_prefix address [0x20] 3 then Some Not_global_unicast
      else None)"

text \<open>\<^verbatim>\<open>INET6_ADDRSTRLEN\<close> is 46 on the targets of the program.\<close>

definition validate_public_address ::
    "inet_api \<Rightarrow> string \<Rightarrow> address_error + validated_address" where
  "validate_public_address api txt =
     (if txt = [] \<or> 46 \<le> length txt \<or> NUL \<in> set txt then Inl Parse_failure
      else if starts_with txt ''::ffff:'' \<or> starts_with txt ''::ffff:0:'' then Inl Mapped_ipv6
      else case pton4 api txt of
        Some b \<Rightarrow>
          (case classify_ipv4 (fill16 b) of
             None \<Rightarrow> Inr \<lparr>family = Ipv4, addr_bytes = fill16 b\<rparr>
           | Some e \<Rightarrow> Inl e)
      | None \<Rightarrow>
          (case pton6 api txt of
             Some b \<Rightarrow>
               (case classify_ipv6 (fill16 b) of
                  None \<Rightarrow> Inr \<lparr>family = Ipv6, addr_bytes = fill16 b\<rparr>
                | Some e \<Rightarrow> Inl e)
           | None \<Rightarrow> Inl Parse_failure))"

section \<open>CIDR blocks on the bits of an address\<close>

definition byte_bits :: "byte \<Rightarrow> bool list" where
  "byte_bits b = map (bit b) [7, 6, 5, 4, 3, 2, 1, 0]"

definition to_bits :: "bytes \<Rightarrow> bool list" where
  "to_bits bs = concat (map byte_bits bs)"

text \<open>\<open>in_cidr a p n\<close>: the first \<open>n\<close> bits of the address are those of the
  prefix.\<close>

definition in_cidr :: "bytes \<Rightarrow> bytes \<Rightarrow> nat \<Rightarrow> bool" where
  "in_cidr a p n \<longleftrightarrow> take n (to_bits a) = take n (to_bits p)"

lemma length_byte_bits [simp]: "length (byte_bits b) = 8"
  by (simp add: byte_bits_def)

lemma to_bits_Nil [simp]: "to_bits [] = []"
  and to_bits_Cons: "to_bits (b # bs) = byte_bits b @ to_bits bs"
  by (simp_all add: to_bits_def)

lemma length_to_bits [simp]: "length (to_bits bs) = 8 * length bs"
  by (induction bs) (auto simp: to_bits_Cons)

lemma less_8_cases: "i < (8::nat) \<Longrightarrow> i = 0 \<or> i = 1 \<or> i = 2 \<or> i = 3 \<or> i = 4 \<or> i = 5 \<or> i = 6 \<or> i = 7"
  by presburger

lemma bit_byte_bound: "bit (b :: byte) i \<Longrightarrow> i < 8"
  using bit_imp_le_length [of b i] by simp

lemma byte_bits_inject [simp]: "byte_bits a = byte_bits b \<longleftrightarrow> a = b"
proof
  assume *: "byte_bits a = byte_bits b"
  show "a = b"
  proof (rule bit_word_eqI)
    fix n assume "n < LENGTH(8)"
    then have "n < 8" by simp
    from less_8_cases [OF this] * show "bit a n = bit b n"
      by (auto simp: byte_bits_def)
  qed
qed simp

lemma to_bits_inject: "length a = length b \<Longrightarrow> to_bits a = to_bits b \<longleftrightarrow> a = b"
  by (induction a b rule: list_induct2) (auto simp: to_bits_Cons)

lemma take_to_bits:
  assumes "k < length bs" and "r \<le> 8"
  shows "take (8 * k + r) (to_bits bs) = to_bits (take k bs) @ take r (byte_bits (bs ! k))"
proof -
  have "to_bits bs = to_bits (take k bs) @ byte_bits (bs ! k) @ to_bits (drop (Suc k) bs)"
    using assms id_take_nth_drop [OF assms(1)]
    by (metis concat_append list.simps(9) map_append to_bits_Cons to_bits_def)
  with assms show ?thesis by simp
qed

lemma masked_bytes_eq_iff:
  assumes "r < 8" and "0 < r"
  shows "and (a :: byte) (push_bit (8 - r) 255) = and b (push_bit (8 - r) 255)
    \<longleftrightarrow> take r (byte_bits a) = take r (byte_bits b)"
proof -
  have mask: "bit (push_bit (8 - r) 255 :: byte) i \<longleftrightarrow> 8 - r \<le> i \<and> i < 8" for i
  proof -
    have "(255 :: byte) = mask 8" by (simp add: mask_eq_exp_minus_1)
    then have "bit (push_bit (8 - r) 255 :: byte) i = bit (push_bit (8 - r) (mask 8) :: byte) i"
      by (simp only:)
    then show ?thesis by (auto simp: bit_push_bit_iff bit_mask_iff)
  qed
  have "and a (push_bit (8 - r) 255) = and b (push_bit (8 - r) 255)
      \<longleftrightarrow> (\<forall>i. 8 - r \<le> i \<and> i < 8 \<longrightarrow> bit a i = bit b i)"
    unfolding bit_eq_iff bit_and_iff mask by auto
  also have "\<dots> \<longleftrightarrow> take r (byte_bits a) = take r (byte_bits b)"
  proof -
    from assms have "r = 1 \<or> r = 2 \<or> r = 3 \<or> r = 4 \<or> r = 5 \<or> r = 6 \<or> r = 7" by presburger
    moreover have "i < (8::nat) \<Longrightarrow> i \<in> {0, 1, 2, 3, 4, 5, 6, 7}" for i by auto
    ultimately show ?thesis
      by (elim disjE) (auto simp: byte_bits_def less_Suc_eq numeral_eq_Suc le_Suc_eq)
  qed
  finally show ?thesis .
qed

lemma has_prefix_iff_in_cidr:
  assumes "n \<le> 8 * length p" and "length p \<le> length a"
  shows "has_prefix a p n \<longleftrightarrow> in_cidr a p n"
proof -
  let ?k = "n div 8" and ?r = "n mod 8"
  have n: "n = 8 * ?k + ?r" by simp
  have "?k \<le> length p" and "?k \<le> length a" using assms by linarith+
  then have lens: "length (take ?k p) = length (take ?k a)" by simp
  show ?thesis
  proof (cases "?r = 0")
    case True
    have "take n (to_bits bs) = to_bits (take ?k bs)" if "n \<le> 8 * length bs" for bs
    proof -
      have "to_bits bs = to_bits (take ?k bs) @ to_bits (drop ?k bs)"
        by (metis append_take_drop_id concat_append map_append to_bits_def)
      moreover have "length (to_bits (take ?k bs)) = n" using True that n by simp
      ultimately show ?thesis by (metis append_eq_conv_conj)
    qed
    with assms have "in_cidr a p n \<longleftrightarrow> take ?k a = take ?k p"
      using lens by (simp add: in_cidr_def to_bits_inject)
    with True show ?thesis by (auto simp: has_prefix_def)
  next
    case False
    with assms n have k: "?k < length p" "?k < length a" by linarith+
    have "in_cidr a p n \<longleftrightarrow> to_bits (take ?k a) = to_bits (take ?k p)
        \<and> take ?r (byte_bits (a ! ?k)) = take ?r (byte_bits (p ! ?k))"
      unfolding in_cidr_def
      using take_to_bits [OF k(1), of ?r] take_to_bits [OF k(2), of ?r] n lens by simp
    with False lens masked_bytes_eq_iff [of ?r "a ! ?k" "p ! ?k"] show ?thesis
      by (auto simp: has_prefix_def Let_def to_bits_inject)
  qed
qed

lemma in_cidr_mono: "in_cidr a p n \<Longrightarrow> m \<le> n \<Longrightarrow> in_cidr a p m"
  unfolding in_cidr_def by (metis min.absorb1 take_take)

lemma length_fill16 [simp]: "length (fill16 bs) = 16"
  by (simp add: fill16_def)

section \<open>The public addresses\<close>

text \<open>
  The abstract policy: an IPv4 address is public when no block of the list holds it, an IPv6
  address when it is in 2000::/3 and in none of four blocks of it.
\<close>

definition forbidden_ipv4 :: "(bytes \<times> nat) list" where
  "forbidden_ipv4 =
     [([0, 0, 0, 0], 8), ([10, 0, 0, 0], 8), ([100, 64, 0, 0], 10), ([127, 0, 0, 0], 8),
      ([169, 254, 0, 0], 16), ([172, 16, 0, 0], 12), ([192, 0, 0, 0], 24), ([192, 0, 2, 0], 24),
      ([192, 88, 99, 0], 24), ([192, 168, 0, 0], 16), ([198, 18, 0, 0], 15),
      ([198, 51, 100, 0], 24), ([203, 0, 113, 0], 24), ([224, 0, 0, 0], 4), ([240, 0, 0, 0], 4)]"

definition public_ipv4 :: "bytes \<Rightarrow> bool" where
  "public_ipv4 a \<longleftrightarrow> list_all (\<lambda>(p, n). \<not> in_cidr a p n) forbidden_ipv4"

definition public_ipv6 :: "bytes \<Rightarrow> bool" where
  "public_ipv6 a \<longleftrightarrow> in_cidr a (fill16 [0x20]) 3
     \<and> list_all (\<lambda>(p, n). \<not> in_cidr a (fill16 p) n)
         [([0x20, 0x01], 23), ([0x20, 0x01, 0x0d, 0xb8], 32), ([0x20, 0x02], 16), ([0x3f, 0xff], 20)]"

definition public_address :: "validated_address \<Rightarrow> bool" where
  "public_address a \<longleftrightarrow> length (addr_bytes a) = 16 \<and>
     (case family a of Ipv4 \<Rightarrow> public_ipv4 (addr_bytes a) | Ipv6 \<Rightarrow> public_ipv6 (addr_bytes a))"

lemma ipv4_prefix_cidr [simp]:
  "length a = 16 \<Longrightarrow> length p = 4 \<Longrightarrow> n \<le> 32 \<Longrightarrow> ipv4_prefix a p n = in_cidr a p n"
  by (simp add: ipv4_prefix_def has_prefix_iff_in_cidr)

lemma ipv6_prefix_cidr [simp]:
  "length a = 16 \<Longrightarrow> n \<le> 128 \<Longrightarrow> ipv6_prefix a p n = in_cidr a (fill16 p) n"
  by (simp add: ipv6_prefix_def has_prefix_iff_in_cidr)

lemma classify_ipv4_public:
  assumes "length a = 16"
  shows "classify_ipv4 a = None \<longleftrightarrow> public_ipv4 a"
proof -
  have "in_cidr a [0, 0, 0, 0] 32 \<Longrightarrow> in_cidr a [0, 0, 0, 0] 8"
    by (erule in_cidr_mono) simp
  with assms show ?thesis
    by (auto simp: classify_ipv4_def public_ipv4_def forbidden_ipv4_def)
qed

lemma in_cidr_top3:
  assumes "in_cidr a q n" and "3 \<le> n"
  shows "take 3 (to_bits a) = take 3 (to_bits q)"
  using in_cidr_mono [OF assms] by (simp add: in_cidr_def)

lemma take3_to_bits [simp]: "take 3 (to_bits (b # bs)) = [bit b 7, bit b 6, bit b 5]"
  by (simp add: to_bits_Cons byte_bits_def)

lemma fill16_Cons [simp]: "length bs < 16 \<Longrightarrow> fill16 (b # bs) = b # take 15 (bs @ replicate 15 0)"
  by (simp add: fill16_def take_Cons' eval_nat_numeral replicate_append_same)

lemma outside_2000:
  assumes "in_cidr a (fill16 (b # bs)) n" and "3 \<le> n" and "length bs < 16"
    and "bit b 7 \<or> bit b 6 \<or> \<not> bit b 5"
  shows "\<not> in_cidr a (fill16 [0x20]) 3"
  using in_cidr_top3 [OF assms(1,2)] assms(3,4) by (auto simp: in_cidr_def)

lemma classify_ipv6_public:
  assumes "length a = 16"
  shows "classify_ipv6 a = None \<longleftrightarrow> public_ipv6 a"
proof -
  let ?c = "\<lambda>p n. in_cidr a (fill16 p) n"
  have out: "?c [0, 0, 0, 0, 0, 0, 0, 0, 0, 0, 0xff, 0xff, 0, 0, 0, 0] 96 \<Longrightarrow> \<not> ?c [0x20] 3"
    "?c [0xfc] 7 \<Longrightarrow> \<not> ?c [0x20] 3" "?c [0xfe, 0x80] 10 \<Longrightarrow> \<not> ?c [0x20] 3"
    "?c [0xff] 8 \<Longrightarrow> \<not> ?c [0x20] 3" "?c [0x00, 0x64, 0xff, 0x9b] 96 \<Longrightarrow> \<not> ?c [0x20] 3"
    "?c [0x00, 0x64, 0xff, 0x9b, 0x00, 0x01] 48 \<Longrightarrow> \<not> ?c [0x20] 3"
    "?c [0x01, 0x00] 64 \<Longrightarrow> \<not> ?c [0x20] 3"
    by (erule outside_2000; simp)+
  have zero: "?c [] 96 \<Longrightarrow> \<not> ?c [0x20] 3"
  proof -
    have "fill16 [] = fill16 [0]" by (simp add: fill16_def numeral_eq_Suc)
    then show "?c [] 96 \<Longrightarrow> \<not> ?c [0x20] 3" using outside_2000 [of a 0 "[]" 96] by simp
  qed
  have "\<not> ?c [0x20] 3" if "a = replicate 16 0 \<or> a = replicate 15 0 @ [1]"
  proof -
    have "replicate 16 (0::byte) = 0 # replicate 15 0"
      and "replicate 15 (0::byte) @ [1] = 0 # replicate 14 0 @ [1]"
      by (simp_all add: numeral_eq_Suc)
    with that show ?thesis by (auto simp: in_cidr_def)
  qed
  moreover have "?c [0x20, 0x01, 0x00, 0x10] 28 \<Longrightarrow> ?c [0x20, 0x01] 23"
  proof -
    have "take 7 (to_bits (replicate 14 0)) = [False, False, False, False, False, False, False]"
      by (simp add: numeral_eq_Suc to_bits_Cons byte_bits_def)
    then show "?c [0x20, 0x01, 0x00, 0x10] 28 \<Longrightarrow> ?c [0x20, 0x01] 23"
      by (drule_tac m = 23 in in_cidr_mono) (auto simp: in_cidr_def to_bits_Cons byte_bits_def)
  qed
  ultimately show ?thesis
    using assms out zero
    by (auto simp: classify_ipv6_def public_ipv6_def simp del: fill16_Cons)
qed

lemma validate_public_address_sound:
  assumes "validate_public_address api t = Inr a"
  shows "public_address a" and "t \<noteq> []" and "NUL \<notin> set t"
  using assms
  by (auto simp: validate_public_address_def public_address_def classify_ipv4_public
      classify_ipv6_public split: result_splits)

section \<open>The interface the resolvers use\<close>

text \<open>
  The resolvers see the policy as a function from text to an address or an error and rely on
  two laws: an accepted address is public, and the empty text is never an address.
\<close>

locale address_policy =
  fixes validate :: "string \<Rightarrow> address_error + validated_address"
    and public :: "validated_address \<Rightarrow> bool"
  assumes validate_sound: "validate t = Inr a \<Longrightarrow> public a"
    and validate_empty: "validate [] = Inl Parse_failure"

interpretation ap: address_policy "validate_public_address api" public_address for api
proof unfold_locales
  show "validate_public_address api t = Inr a \<Longrightarrow> public_address a" for t a
    by (rule validate_public_address_sound(1))
  show "validate_public_address api [] = Inl Parse_failure"
    by (simp add: validate_public_address_def)
qed

section \<open>Properties\<close>

text \<open>C36. An address text is accepted exactly when it is short, holds no NUL, is not spelled with
  the IPv4-mapped prefix, and its bytes form a public address: for IPv4 outside all fifteen
  forbidden blocks, for IPv6 inside 2000::/3 and outside its four special blocks. The bytes
  returned are the parsed ones.\<close>

theorem validate_public_address_iff:
  "validate_public_address api t = Inr a \<longleftrightarrow>
     t \<noteq> [] \<and> length t < 46 \<and> NUL \<notin> set t \<and> \<not> starts_with t ''::ffff:'' \<and>
     ((\<exists>b. pton4 api t = Some b \<and> a = \<lparr>family = Ipv4, addr_bytes = fill16 b\<rparr> \<and> public_ipv4 (fill16 b))
      \<or> (\<exists>b. pton4 api t = None \<and> pton6 api t = Some b \<and> a = \<lparr>family = Ipv6, addr_bytes = fill16 b\<rparr>
           \<and> public_ipv6 (fill16 b)))"
proof -
  have "starts_with t ''::ffff:0:'' \<Longrightarrow> starts_with t ''::ffff:''"
    by (auto simp: starts_with_iff)
  then show ?thesis
    by (auto simp: validate_public_address_def not_le classify_ipv4_public [symmetric]
        classify_ipv6_public [symmetric] split: option.splits)
qed

text \<open>A concrete reader of two IPv4 texts, for the witnesses.\<close>

definition sample_inet :: inet_api where
  "sample_inet = \<lparr>pton4 = (\<lambda>t. if t = ''8.8.8.8'' then Some [8, 8, 8, 8]
                            else if t = ''10.0.0.1'' then Some [10, 0, 0, 1] else None),
                  pton6 = (\<lambda>_. None),
                  ntop = (\<lambda>_ b. if b = [8, 8, 8, 8] then Some ''8.8.8.8''
                          else if b = [10, 0, 0, 1] then Some ''10.0.0.1'' else None)\<rparr>"

lemma sample_inet_accepts:
  "validate_public_address sample_inet ''8.8.8.8'' =
     Inr \<lparr>family = Ipv4, addr_bytes = fill16 [8, 8, 8, 8]\<rparr>"
proof -
  have "public_ipv4 (fill16 [8, 8, 8, 8])"
    by (simp add: public_ipv4_def forbidden_ipv4_def in_cidr_def to_bits_Cons byte_bits_def)
  then show ?thesis
    by (simp add: validate_public_address_def sample_inet_def NUL_def starts_with_def
        iffD2 [OF classify_ipv4_public] del: fill16_Cons)
qed

lemma sample_inet_private:
  "validate_public_address sample_inet ''10.0.0.1'' = Inl Private_address"
  by (simp add: validate_public_address_def sample_inet_def NUL_def starts_with_def
      classify_ipv4_def in_cidr_def to_bits_Cons byte_bits_def numeral_eq_Suc)

lemma sample_inet_names:
  "t \<noteq> ''8.8.8.8'' \<Longrightarrow> t \<noteq> ''10.0.0.1'' \<Longrightarrow> \<not> starts_with t ''::ffff:'' \<Longrightarrow>
   validate_public_address sample_inet t = Inl Parse_failure"
  by (auto simp: validate_public_address_def sample_inet_def starts_with_iff)

end
