(* ===== verification/Dns_Policy.thy ===== *)
theory Dns_Policy
  imports Address_Policy
begin

text \<open>
  \<^verbatim>\<open>src/http/dns_policy.cpp\<close>: the address policy over a whole DNS answer. Either every
  candidate is accepted, in order, or the first rejected one is reported.
\<close>

datatype resolution_error = Empty_answer | Forbidden_address

record resolution_rejection =
  rejection_error :: resolution_error
  rejected_index :: "nat option"
  rejection_address_error :: address_error

text \<open>The loop from \<^verbatim>\<open>index\<close> on, with the addresses validated so far.\<close>

fun validate_candidates ::
    "(string \<Rightarrow> address_error + validated_address) \<Rightarrow> nat \<Rightarrow> validated_address list \<Rightarrow>
     string list \<Rightarrow> resolution_rejection + validated_address list" where
  "validate_candidates validate index validated [] = Inr validated"
| "validate_candidates validate index validated (c # cs) =
     (case validate c of
        Inl e \<Rightarrow> Inl \<lparr>rejection_error = Forbidden_address, rejected_index = Some index,
                      rejection_address_error = e\<rparr>
      | Inr a \<Rightarrow> validate_candidates validate (Suc index) (validated @ [a]) cs)"

definition validate_resolved_addresses ::
    "(string \<Rightarrow> address_error + validated_address) \<Rightarrow> string list \<Rightarrow>
     resolution_rejection + validated_address list" where
  "validate_resolved_addresses validate candidates =
     (if candidates = [] then
        Inl \<lparr>rejection_error = Empty_answer, rejected_index = None,
             rejection_address_error = Parse_failure\<rparr>
      else validate_candidates validate 0 [] candidates)"

lemma validate_candidates_Inr:
  "validate_candidates validate i acc cs = Inr as \<longleftrightarrow>
   (\<exists>bs. as = acc @ bs \<and> map validate cs = map Inr bs)"
proof (induction cs arbitrary: i acc)
  case (Cons c cs)
  then show ?case
    by (auto split: sum.splits simp: Cons_eq_map_conv intro: exI [of _ "_ # _"])
qed auto

lemma validate_candidates_rejects:
  assumes "validate c = Inl e" and "list_all (\<lambda>t. \<exists>a. validate t = Inr a) before"
  shows "validate_candidates validate i acc (before @ c # behind) =
     Inl \<lparr>rejection_error = Forbidden_address, rejected_index = Some (i + length before),
          rejection_address_error = e\<rparr>"
  using assms by (induction before arbitrary: i acc) auto

section \<open>What the client of the address policy gets\<close>

context address_policy
begin

lemma resolved_all_public:
  "validate_resolved_addresses validate cs = Inr as \<Longrightarrow> list_all public as"
  by (auto simp: validate_resolved_addresses_def validate_candidates_Inr list_all_iff
      dest: validate_sound split: if_splits)
    (metis (no_types, lifting) image_iff image_set validate_sound)

lemma resolved_length:
  "validate_resolved_addresses validate cs = Inr as \<Longrightarrow> length as = length cs \<and> as \<noteq> []"
  by (auto simp: validate_resolved_addresses_def validate_candidates_Inr
      dest: map_eq_imp_length_eq split: if_splits)

end

text \<open>A DNS answer is accepted only as a whole: the result lists exactly the validated
  addresses of all the candidates in order, each of them public and at least one of them.\<close>

lemma resolved_addresses_all_public:
  assumes "validate_resolved_addresses (validate_public_address api) cs = Inr as"
  shows "map (validate_public_address api) cs = map Inr as \<and> list_all public_address as \<and> as \<noteq> []"
  using assms ap.resolved_all_public [OF assms] ap.resolved_length [OF assms]
  by (auto simp: validate_resolved_addresses_def validate_candidates_Inr split: if_splits)

text \<open>One forbidden candidate rejects the whole answer, whatever the candidates around it:
  the rejection names the first forbidden position and the reason of the address policy.\<close>

lemma forbidden_candidate_rejects:
  assumes "validate_public_address api c = Inl e"
    and "list_all (\<lambda>t. \<exists>a. validate_public_address api t = Inr a) before"
  shows "validate_resolved_addresses (validate_public_address api) (before @ c # behind) =
    Inl \<lparr>rejection_error = Forbidden_address, rejected_index = Some (length before),
         rejection_address_error = e\<rparr>"
  using validate_candidates_rejects [OF assms, of 0 "[]" behind]
  by (simp add: validate_resolved_addresses_def)

end
