(* ===== verification/Idna.thy ===== *)
theory Idna
  imports Prelude
begin

text \<open>
  \<^verbatim>\<open>src/http/idna.cpp\<close>: the hostname normaliser. The Unicode conversion and the
  forbidden code point test of the ada library are the parameters \<open>to_ascii\<close> (an empty result
  is a failure) and \<open>forbidden_domain\<close>; everything checked on their result is modelled.
\<close>

record idna_api =
  to_ascii :: "string \<Rightarrow> string"
  forbidden_domain :: "string \<Rightarrow> bool"

datatype hostname_error =
    Hostname_empty | Input_too_long | Idna_conversion | Forbidden_code_point | Empty_label
  | Invalid_ascii_label | Invalid_hyphen | Label_too_long | Hostname_too_long

definition is_ascii_letter_or_digit :: "char \<Rightarrow> bool" where
  "is_ascii_letter_or_digit c \<longleftrightarrow>
     char_in (CHR ''a'') (CHR ''z'') c \<or> char_in (CHR ''0'') (CHR ''9'') c"

text \<open>The checks on one non-empty label, in the order of the loop body.\<close>

definition check_label :: "string \<Rightarrow> hostname_error option" where
  "check_label label =
     (if 63 < length label then Some Label_too_long
      else if list_ex (\<lambda>c. \<not> is_ascii_letter_or_digit c \<and> c \<noteq> CHR ''-'') label
        then Some Invalid_ascii_label
      else if hd label = CHR ''-'' \<or> last label = CHR ''-'' then Some Invalid_hyphen
      else if 4 \<le> length label \<and> label ! 2 = CHR ''-'' \<and> label ! 3 = CHR ''-''
          \<and> \<not> starts_with label ''xn--'' then Some Invalid_hyphen
      else None)"

text \<open>The label loop on the text from \<^verbatim>\<open>label_start\<close> to
  \<^verbatim>\<open>labels_end\<close>.\<close>

function check_labels :: "string \<Rightarrow> hostname_error option" where
  "check_labels rest =
     (if rest = [] then None
      else
        let label_end = find_char (CHR ''.'') rest;
            label = (case label_end of None \<Rightarrow> rest | Some i \<Rightarrow> take i rest)
        in if label = [] then Some Empty_label
           else case check_label label of
             Some e \<Rightarrow> Some e
           | None \<Rightarrow> (case label_end of None \<Rightarrow> None | Some i \<Rightarrow> check_labels (drop (Suc i) rest)))"
  by pat_completeness auto
termination
  by (relation "measure length") (auto dest!: find_char_SomeD(1))

declare check_labels.simps [simp del]

definition normalize_hostname :: "idna_api \<Rightarrow> string \<Rightarrow> hostname_error + string" where
  "normalize_hostname api hostname =
     (if hostname = [] then Inl Hostname_empty
      else if 4096 < length hostname then Inl Input_too_long
      else
        let ascii = to_ascii api hostname
        in if ascii = [] then Inl Idna_conversion
           else if forbidden_domain api ascii then Inl Forbidden_code_point
           else
             let has_trailing_dot = ends_with ascii ''.'';
                 maximum_size = (if has_trailing_dot then 254 else 253);
                 labels_end = (if has_trailing_dot then length ascii - 1 else length ascii)
             in if maximum_size < length ascii then Inl Hostname_too_long
                else if labels_end = 0 then Inl Empty_label
                else if has_trailing_dot \<and> ascii ! (labels_end - 1) = CHR ''.'' then Inl Empty_label
                else case check_labels (take labels_end ascii) of
                       Some e \<Rightarrow> Inl e
                     | None \<Rightarrow> Inr ascii)"

section \<open>What a normalised hostname is\<close>

definition valid_label :: "string \<Rightarrow> bool" where
  "valid_label l \<longleftrightarrow>
     l \<noteq> [] \<and> length l \<le> 63 \<and> (\<forall>c\<in>set l. is_ascii_letter_or_digit c \<or> c = CHR ''-'')
     \<and> hd l \<noteq> CHR ''-'' \<and> last l \<noteq> CHR ''-''
     \<and> (starts_with (drop 2 l) ''--'' \<longrightarrow> starts_with l ''xn--'')"

definition valid_hostname :: "string \<Rightarrow> bool" where
  "valid_hostname name \<longleftrightarrow> length name \<le> 253 \<and> list_all valid_label (split_on (CHR ''.'') name)"

lemma drop2_hyphens:
  "starts_with (drop 2 l) ''--'' \<longleftrightarrow> 4 \<le> length l \<and> l ! 2 = CHR ''-'' \<and> l ! 3 = CHR ''-''"
proof -
  consider "length l < 4" | a b c d r where "l = a # b # c # d # r"
    by (cases l; cases "tl l"; cases "tl (tl l)"; cases "tl (tl (tl l))") auto
  then show ?thesis
  proof cases
    case 1
    then have "\<not> starts_with (drop 2 l) ''--''" by (auto dest!: starts_with_length)
    with 1 show ?thesis by simp
  next
    case 2
    then show ?thesis by (auto simp: starts_with_def)
  qed
qed

lemma check_label_valid: "l \<noteq> [] \<Longrightarrow> check_label l = None \<longleftrightarrow> valid_label l"
  by (auto simp: check_label_def valid_label_def drop2_hyphens list_ex_iff not_less)

lemma check_labels_Nil [simp]: "check_labels [] = None"
  by (simp add: check_labels.simps)

lemma check_labels_last:
  "CHR ''.'' \<notin> set l \<Longrightarrow> l \<noteq> [] \<Longrightarrow> check_labels l = check_label l"
  by (subst check_labels.simps) (simp add: Let_def split: option.splits)

lemma check_labels_step:
  "CHR ''.'' \<notin> set l \<Longrightarrow> check_labels (l @ CHR ''.'' # r) =
     (if l = [] then Some Empty_label
      else case check_label l of Some e \<Rightarrow> Some e | None \<Rightarrow> check_labels r)"
  by (subst check_labels.simps) (simp add: Let_def split: option.splits)

lemma check_labels_valid:
  "rest \<noteq> [] \<Longrightarrow> last rest \<noteq> CHR ''.'' \<Longrightarrow>
   check_labels rest = None \<longleftrightarrow> list_all valid_label (split_on (CHR ''.'') rest)"
proof (induction "length rest" arbitrary: rest rule: less_induct)
  case less
  show ?case
  proof (cases "CHR ''.'' \<in> set rest")
    case False
    with less.prems show ?thesis
      by (simp add: check_labels_last split_on_notin check_label_valid)
  next
    case True
    then obtain l r where rest: "rest = l @ CHR ''.'' # r" and l: "CHR ''.'' \<notin> set l"
      by (metis split_list_first)
    with less have IH: "check_labels r = None \<longleftrightarrow> list_all valid_label (split_on (CHR ''.'') r)"
      by (auto split: if_splits)
    have "\<not> valid_label []" by (simp add: valid_label_def)
    with IH l show ?thesis
      by (auto simp: rest check_labels_step split_on_append split_on_notin check_label_valid
          split: option.splits) (metis check_label_valid option.distinct(1))+
  qed
qed

text \<open>A single trailing dot is kept in the result and not part of the name.\<close>

definition strip_root_dot :: "string \<Rightarrow> string" where
  "strip_root_dot s = (if ends_with s ''.'' then butlast s else s)"

lemma normalize_hostname_Inr_iff:
  "normalize_hostname api h = Inr a \<longleftrightarrow>
     h \<noteq> [] \<and> length h \<le> 4096 \<and> a = to_ascii api h \<and> a \<noteq> [] \<and> \<not> forbidden_domain api a
     \<and> valid_hostname (strip_root_dot a)"
proof -
  have dot: "ends_with s ''.'' \<longleftrightarrow> s \<noteq> [] \<and> last s = CHR ''.''" for s
    by (cases s rule: rev_cases) (auto simp: ends_with_def)
  have nil: "\<not> valid_hostname []" by (simp add: valid_hostname_def valid_label_def)
  have bad: "\<not> valid_hostname (s @ ''.'')" for s
    by (simp add: valid_hostname_def split_on_append valid_label_def)
  have nodot: "last s \<noteq> CHR ''.'' \<Longrightarrow> s \<noteq> [] \<Longrightarrow>
      valid_hostname s \<longleftrightarrow> length s \<le> 253 \<and> check_labels s = None" for s
    by (simp add: valid_hostname_def check_labels_valid)
  show ?thesis
  proof (cases "to_ascii api h" rule: rev_cases)
    case Nil
    then show ?thesis by (auto simp: normalize_hostname_def)
  next
    case (snoc s c)
    show ?thesis
    proof (cases "c = CHR ''.''")
      case False
      with snoc show ?thesis
        by (auto simp: normalize_hostname_def Let_def dot strip_root_dot_def nodot split: option.splits)
    next
      case True
      show ?thesis
      proof (cases "s = [] \<or> last s = CHR ''.''")
        case True
        then have "\<not> valid_hostname s"
          using nil bad [of "butlast s"] by (metis append_butlast_last_id)
        moreover have "s \<noteq> [] \<Longrightarrow> s ! (length s - 1) = last s" by (simp add: last_conv_nth)
        ultimately show ?thesis
          using True snoc \<open>c = CHR ''.''\<close>
          by (auto simp: normalize_hostname_def Let_def dot strip_root_dot_def nth_append
              split: option.splits)
      next
        case False
        then have "s ! (length s - 1) \<noteq> CHR ''.''" using last_conv_nth [of s] by auto
        with False snoc \<open>c = CHR ''.''\<close> show ?thesis
          by (auto simp: normalize_hostname_def Let_def dot strip_root_dot_def nodot nth_append
              split: option.splits)
      qed
    qed
  qed
qed

lemma valid_label_chars: "valid_label l \<Longrightarrow> c \<in> set l \<Longrightarrow> is_ascii_letter_or_digit c \<or> c = CHR ''-''"
  by (auto simp: valid_label_def)

lemma split_on_chars: "c \<in> set s \<Longrightarrow> c = x \<or> (\<exists>f\<in>set (split_on x s). c \<in> set f)"
  by (induction s) (auto split: list.splits)

lemma valid_hostname_chars:
  assumes "valid_hostname s" and "c \<in> set s"
  shows "is_ascii_letter_or_digit c \<or> c = CHR ''-'' \<or> c = CHR ''.''"
  using split_on_chars [OF assms(2), of "CHR ''.''"] assms(1)
  by (auto simp: valid_hostname_def list_all_iff dest: valid_label_chars)

lemma normalized_chars:
  assumes "normalize_hostname api h = Inr a" and "c \<in> set a"
  shows "is_ascii_letter_or_digit c \<or> c = CHR ''-'' \<or> c = CHR ''.''"
proof -
  from assms have v: "valid_hostname (strip_root_dot a)" and "a \<noteq> []"
    by (auto simp: normalize_hostname_Inr_iff)
  show ?thesis
  proof (cases "ends_with a ''.''")
    case True
    then have "a = butlast a @ ''.''" using ends_with_iff [of a "''.''"] by auto
    with assms(2) have "c \<in> set (butlast a) \<or> c = CHR ''.''" by (metis Un_iff empty_set
          insert_iff list.simps(15) set_append empty_iff)
    with v True valid_hostname_chars [of "butlast a" c] show ?thesis
      by (auto simp: strip_root_dot_def)
  next
    case False
    with v assms(2) valid_hostname_chars [of a c] show ?thesis by (auto simp: strip_root_dot_def)
  qed
qed

section \<open>Properties\<close>

text \<open>C39. A hostname is accepted exactly when it is non-empty and at most 4096 bytes long, its
  conversion is non-empty and free of forbidden code points, and the conversion, less one
  trailing root dot, is a DNS name of at most 253 bytes whose every label is valid; the result is
  the conversion itself, and it uses only lower-case letters, digits, hyphens and dots.\<close>

theorem normalize_hostname_iff:
  "(normalize_hostname api h = Inr a) =
     (h \<noteq> [] \<and> length h \<le> 4096 \<and> a = to_ascii api h \<and> a \<noteq> [] \<and> \<not> forbidden_domain api a
      \<and> valid_hostname (strip_root_dot a)
      \<and> set a \<subseteq> {c. is_ascii_letter_or_digit c} \<union> {CHR ''-'', CHR ''.''})"
  using normalize_hostname_Inr_iff [of api h a] normalized_chars [of api h a] by blast

end
