(* ===== verification/Url_Policy.thy ===== *)
theory Url_Policy
  imports Address_Policy Idna
begin

text \<open>
  \<^verbatim>\<open>src/http/url_policy.cpp\<close> and
  \<^verbatim>\<open>include/mediaproxy/http/url_policy.hpp\<close>: which origin URLs are accepted and
  their canonical form. The URL parser of libcurl is the parameter \<open>curl_url_api\<close> over an
  abstract handle: \<open>url_new\<close> is \<^verbatim>\<open>curl_url()\<close>, \<open>url_set\<close>
  sets \<^verbatim>\<open>CURLUPART_URL\<close> (a relative text after an absolute one),
  \<open>url_get\<close> is \<^verbatim>\<open>curl_url_get\<close>.
\<close>

datatype url_part = Part_url | Part_user | Part_password | Part_host | Part_port | Part_path | Part_query

datatype url_code = Code_no_user | Code_no_password | Code_other

record 'u curl_url_api =
  url_new :: "'u option"
  url_set :: "'u \<Rightarrow> string \<Rightarrow> 'u option"
  url_get :: "'u \<Rightarrow> url_part \<Rightarrow> url_code + string"

record 'u url_env =
  curl_url :: "'u curl_url_api"
  idna :: idna_api
  inet :: inet_api

datatype url_error =
  Invalid_syntax | Invalid_scheme | User_information | Invalid_hostname | Invalid_port | Forbidden_literal

record origin_url =
  canonical_url :: string
  hostname :: string
  port :: u16
  request_target :: string
  literal_address :: "validated_address option"

section \<open>The parts of a parsed URL\<close>

definition get_part :: "'u curl_url_api \<Rightarrow> 'u \<Rightarrow> url_part \<Rightarrow> string option" where
  "get_part api handle part =
     (case url_get api handle part of Inl _ \<Rightarrow> None | Inr raw \<Rightarrow> Some (c_str raw))"

definition has_user_information :: "'u curl_url_api \<Rightarrow> 'u \<Rightarrow> bool" where
  "has_user_information api handle \<longleftrightarrow>
     url_get api handle Part_user \<noteq> Inl Code_no_user
     \<or> url_get api handle Part_password \<noteq> Inl Code_no_password"

definition parse_port :: "'u curl_url_api \<Rightarrow> 'u \<Rightarrow> u16 option" where
  "parse_port api handle =
     (case get_part api handle Part_port of
        None \<Rightarrow> Some 443
      | Some value \<Rightarrow>
          (case from_chars_unsigned 32 value of
             None \<Rightarrow> None
           | Some parsed \<Rightarrow> if parsed \<noteq> 80 \<and> parsed \<noteq> 443 then None else Some (of_nat parsed)))"

section \<open>The policy\<close>

definition validate_origin_url :: "'u url_env \<Rightarrow> string \<Rightarrow> url_error + origin_url" where
  "validate_origin_url env source =
     (if NUL \<in> set source then Inl Invalid_syntax
      else if \<not> starts_with source ''https://'' then Inl Invalid_scheme
      else if drop 8 source \<noteq> [] \<and> source ! 8 \<in> set ''/?#'' then Inl Invalid_hostname
      else case url_new (curl_url env) of
        None \<Rightarrow> Inl Invalid_syntax
      | Some fresh \<Rightarrow>
      (case url_set (curl_url env) fresh (c_str source) of
        None \<Rightarrow> Inl Invalid_syntax
      | Some handle \<Rightarrow>
      if has_user_information (curl_url env) handle then Inl User_information
      else case get_part (curl_url env) handle Part_host of
        None \<Rightarrow> Inl Invalid_hostname
      | Some raw_hostname \<Rightarrow>
      if raw_hostname = [] \<or> CHR '':'' \<in> set raw_hostname then Inl Invalid_hostname
      else case normalize_hostname (idna env) raw_hostname of
        Inl _ \<Rightarrow> Inl Invalid_hostname
      | Inr name \<Rightarrow>
      if CHR ''.'' \<notin> set name then Inl Invalid_hostname
      else case parse_port (curl_url env) handle of
        None \<Rightarrow> Inl Invalid_port
      | Some prt \<Rightarrow>
      (case get_part (curl_url env) handle Part_path of
        None \<Rightarrow> Inl Invalid_syntax
      | Some path \<Rightarrow>
      let target = (if path = [] then ''/'' else path) @
            (case get_part (curl_url env) handle Part_query of
               Some q \<Rightarrow> CHR ''?'' # q | None \<Rightarrow> []);
          address = validate_public_address (inet env) name;
          canonical = ''https://'' @ name @ (if prt \<noteq> 443 then '':80'' else []) @ target;
          accepted = (\<lambda>literal. Inr \<lparr>canonical_url = canonical, hostname = name, port = prt,
                        request_target = target, literal_address = literal\<rparr>)
      in case address of
           Inr a \<Rightarrow> accepted (Some a)
         | Inl e \<Rightarrow> if e \<noteq> Parse_failure then Inl Forbidden_literal else accepted None)))"

section \<open>What an accepted URL satisfies\<close>

definition host_char :: "char \<Rightarrow> bool" where
  "host_char c \<longleftrightarrow> is_ascii_letter_or_digit c \<or> c = CHR ''-'' \<or> c = CHR ''.''"

definition well_formed_origin :: "(validated_address \<Rightarrow> bool) \<Rightarrow> origin_url \<Rightarrow> bool" where
  "well_formed_origin public u \<longleftrightarrow>
     port u \<in> {80, 443}
     \<and> CHR ''.'' \<in> set (hostname u) \<and> list_all host_char (hostname u)
     \<and> request_target u \<noteq> []
     \<and> canonical_url u =
         ''https://'' @ hostname u @ (if port u = 443 then [] else '':80'') @ request_target u
     \<and> (\<forall>a. literal_address u = Some a \<longrightarrow> public a)"

lemma parse_port_values: "parse_port api h = Some p \<Longrightarrow> p \<in> {80, 443}"
  by (auto simp: parse_port_def split: result_splits)

lemma parse_port_text:
  "parse_port api h = Some p \<Longrightarrow>
   (case get_part api h Part_port of None \<Rightarrow> p = 443 | Some value \<Rightarrow> from_chars_unsigned 32 value = Some (unat p))"
  by (auto simp: parse_port_def split: result_splits)

lemma validate_origin_url_InrD:
  assumes "validate_origin_url env s = Inr u"
  obtains fresh handle raw path where
    "url_new (curl_url env) = Some fresh" "url_set (curl_url env) fresh s = Some handle"
    "starts_with s ''https://''" "NUL \<notin> set s"
    "\<not> has_user_information (curl_url env) handle"
    "get_part (curl_url env) handle Part_host = Some raw" "CHR '':'' \<notin> set raw"
    "normalize_hostname (idna env) raw = Inr (hostname u)" "CHR ''.'' \<in> set (hostname u)"
    "parse_port (curl_url env) handle = Some (port u)"
    "get_part (curl_url env) handle Part_path = Some path"
    "request_target u = (if path = [] then ''/'' else path) @
        (case get_part (curl_url env) handle Part_query of Some q \<Rightarrow> CHR ''?'' # q | None \<Rightarrow> [])"
    "canonical_url u = ''https://'' @ hostname u @ (if port u \<noteq> 443 then '':80'' else []) @
        request_target u"
    "validate_public_address (inet env) (hostname u) =
       (case literal_address u of None \<Rightarrow> Inl Parse_failure | Some a \<Rightarrow> Inr a)"
  using assms
  by (auto simp: validate_origin_url_def Let_def simp del: append.simps append_Cons
      split: sum.splits option.splits if_splits)

lemma host_charI: "normalize_hostname api raw = Inr n \<Longrightarrow> list_all host_char n"
  by (auto simp: list_all_iff host_char_def dest: normalized_chars)

lemma validate_origin_url_well_formed:
  assumes "validate_origin_url env s = Inr u"
  shows "well_formed_origin public_address u"
  using assms
proof (rule validate_origin_url_InrD)
  fix fresh handle raw path
  assume "normalize_hostname (idna env) raw = Inr (hostname u)" "CHR ''.'' \<in> set (hostname u)"
    and port: "parse_port (curl_url env) handle = Some (port u)"
    and "request_target u = (if path = [] then ''/'' else path) @
        (case get_part (curl_url env) handle Part_query of Some q \<Rightarrow> CHR ''?'' # q | None \<Rightarrow> [])"
    and "canonical_url u = ''https://'' @ hostname u @ (if port u \<noteq> 443 then '':80'' else []) @
        request_target u"
    and addr: "validate_public_address (inet env) (hostname u) =
       (case literal_address u of None \<Rightarrow> Inl Parse_failure | Some a \<Rightarrow> Inr a)"
  moreover have "\<forall>a. literal_address u = Some a \<longrightarrow> public_address a"
    using addr by (auto dest: validate_public_address_sound)
  ultimately show ?thesis
    using parse_port_values [OF port] by (auto simp: well_formed_origin_def dest: host_charI)
qed

section \<open>The interface the redirect tracker, the resolver and the pin use\<close>

locale url_policy =
  fixes validate :: "string \<Rightarrow> url_error + origin_url"
    and public :: "validated_address \<Rightarrow> bool"
  assumes accepted_well_formed: "validate s = Inr u \<Longrightarrow> well_formed_origin public u"
begin

lemma accepted_https: "validate s = Inr u \<Longrightarrow> starts_with (canonical_url u) ''https://''"
  by (drule accepted_well_formed) (auto simp: well_formed_origin_def starts_with_iff)

lemma accepted_port: "validate s = Inr u \<Longrightarrow> port u \<in> {80, 443}"
  by (drule accepted_well_formed) (simp add: well_formed_origin_def)

lemma accepted_literal: "validate s = Inr u \<Longrightarrow> literal_address u = Some a \<Longrightarrow> public a"
  by (drule accepted_well_formed) (simp add: well_formed_origin_def)

lemma accepted_hostname:
  "validate s = Inr u \<Longrightarrow> hostname u \<noteq> [] \<and> CHR '':'' \<notin> set (hostname u) \<and> NUL \<notin> set (hostname u)"
  by (drule accepted_well_formed)
    (auto simp: well_formed_origin_def list_all_iff host_char_def is_ascii_letter_or_digit_def
      char_in_def NUL_def)

end

interpretation up: url_policy "validate_origin_url env" public_address for env
  by unfold_locales (rule validate_origin_url_well_formed)

section \<open>A sample environment for the witnesses\<close>

text \<open>
  A small URL reader on absolute https texts without user, port and query: the handle is the
  text itself, and a text that begins with a slash replaces the path of the handle.
\<close>

definition sample_host :: "string \<Rightarrow> string" where
  "sample_host s = takeWhile (\<lambda>c. c \<noteq> CHR ''/'') (drop 8 s)"

definition sample_curl :: "string curl_url_api" where
  "sample_curl =
     \<lparr>url_new = Some [],
      url_set = (\<lambda>h s. if starts_with s ''https://'' then Some s
                      else if starts_with s ''/'' then Some (''https://'' @ sample_host h @ s)
                      else None),
      url_get = (\<lambda>h p. case p of
           Part_url \<Rightarrow> Inr h
         | Part_user \<Rightarrow> Inl Code_no_user
         | Part_password \<Rightarrow> Inl Code_no_password
         | Part_host \<Rightarrow> Inr (sample_host h)
         | Part_path \<Rightarrow> Inr (drop (8 + length (sample_host h)) h)
         | _ \<Rightarrow> Inl Code_other)\<rparr>"

definition sample_env :: "string url_env" where
  "sample_env = \<lparr>curl_url = sample_curl,
     idna = \<lparr>to_ascii = (\<lambda>h. h), forbidden_domain = (\<lambda>_. False)\<rparr>, inet = sample_inet\<rparr>"

definition sample_origin :: "string \<Rightarrow> string \<Rightarrow> origin_url" where
  "sample_origin h p = \<lparr>canonical_url = ''https://'' @ h @ p, hostname = h, port = 443,
     request_target = p, literal_address = None\<rparr>"

lemma sample_validate:
  assumes "h \<in> {''a.example'', ''b.example'', ''localhost.''}"
    and "p \<noteq> []" and "hd p = CHR ''/''" and "NUL \<notin> set p"
  shows "validate_origin_url sample_env (''https://'' @ h @ p) = Inr (sample_origin h p)"
proof -
  have host: "sample_host (''https://'' @ h @ p) = h"
    using assms by (cases p) (auto simp: sample_host_def)
  have norm: "normalize_hostname (idna sample_env) h = Inr h"
    using assms(1)
    by (auto simp: normalize_hostname_Inr_iff sample_env_def valid_hostname_def valid_label_def
        strip_root_dot_def ends_with_def starts_with_def is_ascii_letter_or_digit_def char_in_def)
  have addr: "validate_public_address sample_inet h = Inl Parse_failure"
    using assms(1) by (intro sample_inet_names) (auto simp: starts_with_def)
  have nul: "NUL \<notin> set h" "h \<noteq> []" "CHR '':'' \<notin> set h" "CHR ''.'' \<in> set h" "hd h \<notin> set ''/?#''"
    using assms(1) by (auto simp: NUL_def)
  have nth8: "(''https://'' @ h @ p) ! 8 = hd h"
    using nul(2) by (cases h) auto
  have "NUL \<notin> set ''https://''" by (simp add: NUL_def)
  with assms nul have "NUL \<notin> set (''https://'' @ h @ p)" by (simp only: set_append Un_iff) simp
  moreover have rest: "drop (8 + length h) (''https://'' @ h @ p) = p"
    by (simp del: append.simps append_Cons)
  moreover have "get_part sample_curl (''https://'' @ h @ p) Part_host = Some h"
    and "get_part sample_curl (''https://'' @ h @ p) Part_path = Some p"
    and "get_part sample_curl s Part_query = None" for s
    using host rest nul(1) assms(4)
    by (simp_all add: get_part_def sample_curl_def del: append.simps append_Cons)
  moreover have "parse_port sample_curl s = Some 443" "\<not> has_user_information sample_curl s"
    and "url_new sample_curl = Some []" for s
    by (simp_all add: parse_port_def get_part_def sample_curl_def has_user_information_def)
  moreover have "url_set sample_curl [] (''https://'' @ t) = Some (''https://'' @ t)" for t
    by (simp add: sample_curl_def starts_with_def)
  ultimately show ?thesis
    using norm addr nul assms(2) nth8
    by (simp add: validate_origin_url_def sample_env_def sample_origin_def Let_def
        del: append.simps append_Cons)
qed

section \<open>Properties\<close>

text \<open>C35. Every accepted URL is a text that begins with \<^verbatim>\<open>https://\<close>, goes on
  with neither a slash nor a question mark nor a number sign, holds no null character, and carries no user
  information; its port is the one of the text, 443 or 80, and 443 when the text has none. The canonical
  form is assembled from the normalised host name, the port only when it is not 443, and the path and the
  query of the text; and when the host name is an address text, that address is public.\<close>

theorem validate_origin_url_safe:
  assumes "validate_origin_url env s = Inr u"
  shows "starts_with s ''https://'' \<and> (length s \<le> 8 \<or> s ! 8 \<notin> set ''/?#'') \<and> NUL \<notin> set s
    \<and> well_formed_origin public_address u
    \<and> (\<exists>fresh handle raw path. url_new (curl_url env) = Some fresh \<and> url_set (curl_url env) fresh s = Some handle
        \<and> url_get (curl_url env) handle Part_user = Inl Code_no_user
        \<and> url_get (curl_url env) handle Part_password = Inl Code_no_password
        \<and> get_part (curl_url env) handle Part_host = Some raw \<and> CHR '':'' \<notin> set raw
        \<and> normalize_hostname (idna env) raw = Inr (hostname u)
        \<and> (case get_part (curl_url env) handle Part_port of
             None \<Rightarrow> port u = 443 | Some value \<Rightarrow> from_chars_unsigned 32 value = Some (unat (port u)))
        \<and> get_part (curl_url env) handle Part_path = Some path
        \<and> request_target u = (if path = [] then ''/'' else path) @
            (case get_part (curl_url env) handle Part_query of Some q \<Rightarrow> CHR ''?'' # q | None \<Rightarrow> []))
    \<and> validate_public_address (inet env) (hostname u) =
        (case literal_address u of None \<Rightarrow> Inl Parse_failure | Some a \<Rightarrow> Inr a)"
proof -
  have authority: "length s \<le> 8 \<or> s ! 8 \<notin> set ''/?#''"
    using assms by (auto simp: validate_origin_url_def split: if_splits)
  from assms show ?thesis
  proof (rule validate_origin_url_InrD)
    fix fresh handle raw path
    assume "url_new (curl_url env) = Some fresh" "url_set (curl_url env) fresh s = Some handle"
      "starts_with s ''https://''" "NUL \<notin> set s" "\<not> has_user_information (curl_url env) handle"
      "get_part (curl_url env) handle Part_host = Some raw" "CHR '':'' \<notin> set raw"
      "normalize_hostname (idna env) raw = Inr (hostname u)"
      "get_part (curl_url env) handle Part_path = Some path"
      "request_target u = (if path = [] then ''/'' else path) @
        (case get_part (curl_url env) handle Part_query of Some q \<Rightarrow> CHR ''?'' # q | None \<Rightarrow> [])"
      "validate_public_address (inet env) (hostname u) =
       (case literal_address u of None \<Rightarrow> Inl Parse_failure | Some a \<Rightarrow> Inr a)"
      and port: "parse_port (curl_url env) handle = Some (port u)"
    then show ?thesis
      using up.accepted_well_formed [OF assms] authority parse_port_text [OF port]
      unfolding has_user_information_def by (intro conjI exI [of _ fresh] exI [of _ handle] exI [of _ raw] exI [of _ path]) simp_all
  qed
qed

theorem validate_origin_url_safe_witness:
  "well_formed_origin public_address (sample_origin ''a.example'' ''/i.png'')"
  using validate_origin_url_safe [OF sample_validate [of "''a.example''" "''/i.png''"]]
  by (simp add: NUL_def)

text \<open>The canonical text identifies the origin: two well-formed origins with request targets
  that start with a slash and the same canonical text have the same host, port and target. The
  redirect loop check and the resolve pin compare canonical texts only.\<close>

lemma canonical_url_identifies:
  assumes "well_formed_origin public u" and "well_formed_origin public v"
    and "hd (request_target u) = CHR ''/''" and "hd (request_target v) = CHR ''/''"
    and "canonical_url u = canonical_url v"
  shows "hostname u = hostname v \<and> port u = port v \<and> request_target u = request_target v"
proof -
  let ?tail = "\<lambda>w. (if port w = 443 then [] else '':80'') @ request_target w"
  have split: "hostname w = takeWhile host_char (drop 8 (canonical_url w))
      \<and> ?tail w = dropWhile host_char (drop 8 (canonical_url w))"
    if w: "well_formed_origin public w" "hd (request_target w) = CHR ''/''" for w
  proof -
    have "\<not> host_char (CHR ''/'')" "\<not> host_char (CHR '':'')"
      by (simp_all add: host_char_def is_ascii_letter_or_digit_def char_in_def)
    with w have "?tail w \<noteq> [] \<and> \<not> host_char (hd (?tail w))"
      by (cases "request_target w") (auto simp: well_formed_origin_def)
    then obtain c t where ct: "?tail w = c # t" and "\<not> host_char c" by (cases "?tail w") auto
    have eq: "drop 8 (canonical_url w) = hostname w @ c # t"
      using w ct by (auto simp: well_formed_origin_def)
    have "list_all host_char (hostname w)" using w by (simp add: well_formed_origin_def)
    with \<open>\<not> host_char c\<close> have "takeWhile host_char (hostname w @ c # t) = hostname w"
      and "dropWhile host_char (hostname w @ c # t) = c # t"
      by (auto simp: list_all_iff takeWhile_append2 dropWhile_append2)
    with eq ct show ?thesis by simp
  qed
  from split [OF assms(1,3)] split [OF assms(2,4)] assms(5)
  have host: "hostname u = hostname v" and tail: "?tail u = ?tail v" by simp_all
  have "request_target u \<noteq> []" "request_target v \<noteq> []"
    using assms(1,2) by (simp_all add: well_formed_origin_def)
  then obtain a b where targets: "request_target u = CHR ''/'' # a" "request_target v = CHR ''/'' # b"
    using assms(3,4) by (cases "request_target u"; cases "request_target v") auto
  with tail have "(port u = 443) = (port v = 443)" by (auto split: if_splits)
  moreover from this targets tail have "a = b" by (auto split: if_splits)
  ultimately show ?thesis
    using host targets assms(1,2) by (auto simp: well_formed_origin_def)
qed

text \<open>The test for a dot in the host name does not exclude single-label names: with the root
  dot of \<^verbatim>\<open>localhost.\<close>, one label passes the policy.\<close>

lemma single_label_with_root_dot_accepted:
  "validate_origin_url sample_env ''https://localhost./'' = Inr (sample_origin ''localhost.'' ''/'')"
  using sample_validate [of "''localhost.''" "''/''"] by (simp add: NUL_def)

end
