(* ===== verification/Dns_Resolver.thy ===== *)
theory Dns_Resolver
  imports Dns_Policy Url_Policy
begin

text \<open>
  \<^verbatim>\<open>src/http/dns_resolver.cpp\<close>: from an origin to the addresses the transfer may
  use. The system resolver \<^verbatim>\<open>getaddrinfo\<close> is a parameter that reads and changes a
  world of type \<open>'w\<close>; its answer is a return code and the chain of
  \<^verbatim>\<open>addrinfo\<close> entries as a list.
\<close>

definition maximum_dns_candidates :: nat where
  "maximum_dns_candidates = 64"

datatype af = Af_inet | Af_inet6 | Af_other

record sockaddr =
  sa_family :: af
  sa_addr :: bytes

record addrinfo =
  ai_family :: af
  ai_addrlen :: nat
  ai_addr :: "sockaddr option"

record 'w resolver_api =
  lookup :: "(string \<Rightarrow> string \<Rightarrow> 'w \<Rightarrow> (int \<times> addrinfo list) \<times> 'w) option"
  release_present :: bool

datatype origin_resolution_error =
    Res_invalid_origin | Res_lookup_failure int | Res_empty_answer | Res_malformed_answer
  | Res_too_many_answers | Res_address_policy resolution_rejection

text \<open>\<^verbatim>\<open>EAI_SYSTEM\<close> of the C library of the targets.\<close>

definition eai_system :: int where
  "eai_system = -11"

definition revalidate_origin ::
    "(string \<Rightarrow> url_error + origin_url) \<Rightarrow> origin_url \<Rightarrow> origin_url option" where
  "revalidate_origin validate origin =
     (case validate (canonical_url origin) of
        Inl _ \<Rightarrow> None
      | Inr u \<Rightarrow>
          if canonical_url u \<noteq> canonical_url origin \<or> hostname u \<noteq> hostname origin
            \<or> port u \<noteq> port origin \<or> request_target u \<noteq> request_target origin
            \<or> literal_address u \<noteq> literal_address origin
          then None else Some u)"

text \<open>16 and 28 are the sizes of \<^verbatim>\<open>sockaddr_in\<close> and
  \<^verbatim>\<open>sockaddr_in6\<close>.\<close>

definition format_candidate :: "inet_api \<Rightarrow> addrinfo \<Rightarrow> string option" where
  "format_candidate api candidate =
     (case ai_addr candidate of
        None \<Rightarrow> None
      | Some sa \<Rightarrow>
          (case ai_family candidate of
             Af_inet \<Rightarrow>
               if ai_addrlen candidate < 16 \<or> sa_family sa \<noteq> Af_inet then None
               else map_option c_str (ntop api Ipv4 (take 4 (sa_addr sa)))
           | Af_inet6 \<Rightarrow>
               if ai_addrlen candidate < 28 \<or> sa_family sa \<noteq> Af_inet6 then None
               else map_option c_str (ntop api Ipv6 (take 16 (sa_addr sa)))
           | Af_other \<Rightarrow> None))"

fun collect_candidates ::
    "inet_api \<Rightarrow> string list \<Rightarrow> addrinfo list \<Rightarrow> origin_resolution_error + string list" where
  "collect_candidates api candidates [] = Inr candidates"
| "collect_candidates api candidates (a # as) =
     (if length candidates = maximum_dns_candidates then Inl Res_too_many_answers
      else case format_candidate api a of
             None \<Rightarrow> Inl Res_malformed_answer
           | Some t \<Rightarrow> collect_candidates api (candidates @ [t]) as)"

definition resolve_origin_addresses ::
    "(string \<Rightarrow> url_error + origin_url) \<Rightarrow> (string \<Rightarrow> address_error + validated_address) \<Rightarrow> inet_api \<Rightarrow>
     'w resolver_api \<Rightarrow> origin_url \<Rightarrow> 'w \<Rightarrow>
     (origin_resolution_error + validated_address list) \<times> 'w" where
  "resolve_origin_addresses validate validate_address ia api origin w =
     (case revalidate_origin validate origin of
        None \<Rightarrow> (Inl Res_invalid_origin, w)
      | Some validated \<Rightarrow>
      (case literal_address validated of
        Some a \<Rightarrow> (Inr [a], w)
      | None \<Rightarrow>
      (case lookup api of
        None \<Rightarrow> (Inl (Res_lookup_failure eai_system), w)
      | Some look \<Rightarrow>
      if \<not> release_present api then (Inl (Res_lookup_failure eai_system), w)
      else
        let service = nat_to_string (unat (port validated));
            ((lookup_result, results), w') = look (c_str (hostname validated)) service w
        in if lookup_result \<noteq> 0 then (Inl (Res_lookup_failure lookup_result), w')
           else if results = [] then (Inl Res_empty_answer, w')
           else case collect_candidates ia [] results of
                  Inl e \<Rightarrow> (Inl e, w')
                | Inr candidates \<Rightarrow>
                    if candidates = [] then (Inl Res_empty_answer, w')
                    else case validate_resolved_addresses validate_address candidates of
                           Inl rejection \<Rightarrow> (Inl (Res_address_policy rejection), w')
                         | Inr addresses \<Rightarrow> (Inr addresses, w'))))"

lemma collect_candidates_Inr:
  "collect_candidates api acc as = Inr cs \<Longrightarrow> length acc \<le> maximum_dns_candidates \<Longrightarrow>
   length cs \<le> maximum_dns_candidates \<and> map Some cs = map Some acc @ map (format_candidate api) as"
  by (induction as arbitrary: acc) (auto split: result_splits)

lemma collect_candidates_too_many:
  "maximum_dns_candidates < length acc + length as \<Longrightarrow> length acc \<le> maximum_dns_candidates \<Longrightarrow>
   collect_candidates api acc as \<in> {Inl Res_too_many_answers, Inl Res_malformed_answer}"
  by (induction as arbitrary: acc) (auto split: result_splits)

lemma revalidate_origin_SomeD:
  "revalidate_origin validate origin = Some u \<Longrightarrow> u = origin \<and> validate (canonical_url origin) = Inr origin"
  by (auto simp: revalidate_origin_def split: result_splits)

section \<open>The resolver as a client of both policies\<close>

locale origin_resolver = url_policy validate public + address_policy validate_address public
  for validate :: "string \<Rightarrow> url_error + origin_url"
    and public :: "validated_address \<Rightarrow> bool"
    and validate_address :: "string \<Rightarrow> address_error + validated_address"
begin

lemma resolved_addresses:
  assumes "resolve_origin_addresses validate validate_address ia api origin w = (Inr as, w')"
  shows "as \<noteq> [] \<and> length as \<le> maximum_dns_candidates \<and> list_all public as
    \<and> validate (canonical_url origin) = Inr origin"
proof -
  from assms obtain u where r: "revalidate_origin validate origin = Some u"
    by (auto simp: resolve_origin_addresses_def split: option.splits)
  from revalidate_origin_SomeD [OF r] have u: "u = origin" and v: "validate (canonical_url origin) = Inr origin"
    by auto
  show ?thesis
  proof (cases "literal_address origin")
    case (Some a)
    with assms r u have "as = [a]" by (simp add: resolve_origin_addresses_def)
    with accepted_literal [OF v Some] v show ?thesis by (simp add: maximum_dns_candidates_def)
  next
    case None
    with assms r u obtain results cs where c: "collect_candidates ia [] results = Inr cs"
      and p: "validate_resolved_addresses validate_address cs = Inr as"
      by (auto simp: resolve_origin_addresses_def Let_def split: result_splits)
    from collect_candidates_Inr [OF c] have "length cs \<le> maximum_dns_candidates" by simp
    with resolved_length [OF p] resolved_all_public [OF p] v show ?thesis by simp
  qed
qed

end

interpretation res: origin_resolver "validate_origin_url env" public_address
    "validate_public_address (inet env)" for env
  by unfold_locales

abbreviation resolve_in_env ::
    "'u url_env \<Rightarrow> 'w resolver_api \<Rightarrow> origin_url \<Rightarrow> 'w \<Rightarrow>
     (origin_resolution_error + validated_address list) \<times> 'w" where
  "resolve_in_env env \<equiv>
     resolve_origin_addresses (validate_origin_url env) (validate_public_address (inet env)) (inet env)"

section \<open>Properties\<close>

text \<open>C34. Whatever the system resolver answers, a successful resolution returns between one and
  64 addresses, all of them public, and the origin it was asked for is exactly what the URL policy
  makes of its canonical text; an address literal is returned without any lookup.\<close>

theorem resolve_origin_addresses_public:
  assumes "resolve_in_env env api origin w = (Inr as, w')"
  shows "as \<noteq> [] \<and> length as \<le> 64 \<and> list_all public_address as
    \<and> validate_origin_url env (canonical_url origin) = Inr origin
    \<and> (literal_address origin = None \<or> (as = [the (literal_address origin)] \<and> w' = w))"
proof -
  have "literal_address origin = None \<or> (as = [the (literal_address origin)] \<and> w' = w)"
    using assms
    by (auto simp: resolve_origin_addresses_def dest!: revalidate_origin_SomeD split: option.splits)
  with res.resolved_addresses [OF assms] show ?thesis
    by (simp add: maximum_dns_candidates_def)
qed

definition sample_addrinfo :: "bytes \<Rightarrow> addrinfo" where
  "sample_addrinfo b = \<lparr>ai_family = Af_inet, ai_addrlen = 16,
     ai_addr = Some \<lparr>sa_family = Af_inet, sa_addr = b\<rparr>\<rparr>"

definition sample_resolver :: "bytes list \<Rightarrow> 'w resolver_api" where
  "sample_resolver bs = \<lparr>lookup = Some (\<lambda>h s w. ((0, map sample_addrinfo bs), w)), release_present = True\<rparr>"

lemma sample_resolve:
  assumes "p \<noteq> []" "hd p = CHR ''/''" "NUL \<notin> set p"
  shows "resolve_in_env sample_env (sample_resolver [[8, 8, 8, 8]]) (sample_origin ''a.example'' p) w =
    (Inr [\<lparr>family = Ipv4, addr_bytes = fill16 [8, 8, 8, 8]\<rparr>], w)"
proof -
  have "validate_origin_url sample_env (canonical_url (sample_origin ''a.example'' p)) =
      Inr (sample_origin ''a.example'' p)"
    using sample_validate [of "''a.example''" p] assms by (simp add: sample_origin_def)
  then have "revalidate_origin (validate_origin_url sample_env) (sample_origin ''a.example'' p) =
      Some (sample_origin ''a.example'' p)"
    by (simp add: revalidate_origin_def)
  moreover have "ntop sample_inet Ipv4 [8, 8, 8, 8] = Some ''8.8.8.8''"
    by (simp add: sample_inet_def)
  moreover have "inet sample_env = sample_inet" by (simp add: sample_env_def)
  moreover have "c_str ''8.8.8.8'' = ''8.8.8.8''" by (simp add: NUL_def)
  ultimately show ?thesis
    by (simp add: resolve_origin_addresses_def sample_resolver_def format_candidate_def
        sample_addrinfo_def validate_resolved_addresses_def sample_inet_accepts sample_origin_def
        maximum_dns_candidates_def del: fill16_Cons)
qed

theorem resolve_origin_addresses_public_witness:
  "list_all public_address [\<lparr>family = Ipv4, addr_bytes = fill16 [8, 8, 8, 8]\<rparr>]"
  using resolve_origin_addresses_public [OF sample_resolve [of "''/x''" "()"]] by (simp add: NUL_def)

text \<open>An answer with a single forbidden address among well-formed entries fails the whole
  resolution, wherever the address stands, and no address of the answer is returned.\<close>

lemma mixed_answer_rejected:
  assumes "validate_origin_url env (canonical_url origin) = Inr origin"
    and "literal_address origin = None"
    and "lookup api = Some look" and "release_present api"
    and "look (c_str (hostname origin)) (nat_to_string (unat (port origin))) w = ((0, answer), w')"
    and "collect_candidates (inet env) [] answer = Inr (before @ c # behind)"
    and "validate_public_address (inet env) c = Inl e"
    and "list_all (\<lambda>t. \<exists>a. validate_public_address (inet env) t = Inr a) before"
  shows "resolve_in_env env api origin w =
    (Inl (Res_address_policy \<lparr>rejection_error = Forbidden_address, rejected_index = Some (length before),
       rejection_address_error = e\<rparr>), w')"
proof -
  have "answer \<noteq> []" using assms(6) by auto
  moreover have "validate_resolved_addresses (validate_public_address (inet env)) (before @ c # behind) =
      Inl \<lparr>rejection_error = Forbidden_address, rejected_index = Some (length before),
           rejection_address_error = e\<rparr>"
    using validate_candidates_rejects [OF assms(7,8), of 0 "[]" behind]
    by (simp add: validate_resolved_addresses_def)
  ultimately show ?thesis
    using assms by (simp add: resolve_origin_addresses_def revalidate_origin_def Let_def)
qed

end
