(* ===== verification/Curl_Resolve_Pin.thy ===== *)
theory Curl_Resolve_Pin
  imports Dns_Resolver
begin

text \<open>
  \<^verbatim>\<open>src/http/curl_resolve_pin.cpp\<close>: the \<^verbatim>\<open>CURLOPT_RESOLVE\<close>
  entry that ties the host and port of one hop to its validated addresses. Whether libcurl can allocate the
  list node is the parameter \<open>slist_ok\<close>.
\<close>

datatype resolve_pin_error =
  Pin_invalid_origin | Pin_empty_addresses | Pin_address_format | Pin_allocation

record resolve_pin =
  pin_error :: "resolve_pin_error option"
  pin_canonical_url :: string
  pin_hostname :: string
  pin_port :: u16
  pin_entry :: string
  pin_list :: "string option"

definition failed_pin :: "resolve_pin_error \<Rightarrow> resolve_pin" where
  "failed_pin e = \<lparr>pin_error = Some e, pin_canonical_url = [], pin_hostname = [], pin_port = 0,
     pin_entry = [], pin_list = None\<rparr>"

definition address_memory :: "validated_address \<Rightarrow> bytes" where
  "address_memory a = take (if family a = Ipv4 then 4 else 16) (addr_bytes a)"

definition format_address :: "inet_api \<Rightarrow> validated_address \<Rightarrow> string" where
  "format_address api a =
     (case ntop api (family a) (address_memory a) of None \<Rightarrow> [] | Some t \<Rightarrow> c_str t)"

text \<open>The loop over the addresses: \<open>None\<close> when one of them cannot be formatted.\<close>

fun append_addresses ::
    "inet_api \<Rightarrow> nat \<Rightarrow> string \<Rightarrow> validated_address list \<Rightarrow> string option" where
  "append_addresses api index entry [] = Some entry"
| "append_addresses api index entry (a # as) =
     (let formatted = format_address api a
      in if formatted = [] then None
         else
           let entry1 = (if index \<noteq> 0 then entry @ '','' else entry);
               entry2 = (if family a = Ipv6 then entry1 @ ''['' @ formatted @ '']''
                         else entry1 @ formatted)
           in append_addresses api (Suc index) entry2 as)"

definition create_pin ::
    "(string \<Rightarrow> url_error + origin_url) \<Rightarrow> inet_api \<Rightarrow> (string \<Rightarrow> bool) \<Rightarrow> origin_url \<Rightarrow>
     validated_address list \<Rightarrow> resolve_pin" where
  "create_pin validate api slist_ok origin addresses =
     (case validate (canonical_url origin) of
        Inl _ \<Rightarrow> failed_pin Pin_invalid_origin
      | Inr u \<Rightarrow>
          if canonical_url u \<noteq> canonical_url origin \<or> hostname u \<noteq> hostname origin
            \<or> port u \<noteq> port origin \<or> request_target u \<noteq> request_target origin
            \<or> hostname origin = [] \<or> CHR '':'' \<in> set (hostname origin)
            \<or> (port origin \<noteq> 80 \<and> port origin \<noteq> 443)
          then failed_pin Pin_invalid_origin
          else if addresses = [] then failed_pin Pin_empty_addresses
          else case append_addresses api 0
                 (hostname origin @ '':'' @ nat_to_string (unat (port origin)) @ '':'') addresses of
                 None \<Rightarrow> failed_pin Pin_address_format
               | Some entry \<Rightarrow>
                   let ok = slist_ok (c_str entry)
                   in \<lparr>pin_error = (if ok then None else Some Pin_allocation),
                       pin_canonical_url = canonical_url origin, pin_hostname = hostname origin,
                       pin_port = port origin, pin_entry = (if ok then entry else []),
                       pin_list = (if ok then Some (c_str entry) else None)\<rparr>)"

definition pin_ok :: "resolve_pin \<Rightarrow> bool" where
  "pin_ok pin \<longleftrightarrow> pin_error pin = None \<and> pin_list pin \<noteq> None"

definition pin_matches :: "resolve_pin \<Rightarrow> origin_url \<Rightarrow> bool" where
  "pin_matches pin origin \<longleftrightarrow>
     pin_ok pin \<and> pin_canonical_url pin = canonical_url origin \<and> pin_hostname pin = hostname origin
     \<and> pin_port pin = port origin"

section \<open>The entry text\<close>

definition pin_address_text :: "inet_api \<Rightarrow> validated_address \<Rightarrow> string" where
  "pin_address_text api a =
     (if family a = Ipv6 then ''['' @ format_address api a @ '']'' else format_address api a)"

fun comma_separated :: "string list \<Rightarrow> string" where
  "comma_separated [] = []"
| "comma_separated [t] = t"
| "comma_separated (t # u # ts) = t @ CHR '','' # comma_separated (u # ts)"

definition pin_text :: "inet_api \<Rightarrow> origin_url \<Rightarrow> validated_address list \<Rightarrow> string" where
  "pin_text api origin addresses =
     hostname origin @ '':'' @ nat_to_string (unat (port origin)) @ '':'' @
     comma_separated (map (pin_address_text api) addresses)"

lemma append_addresses_tail:
  "append_addresses api (Suc i) entry as =
     (if list_all (\<lambda>a. format_address api a \<noteq> []) as
      then Some (entry @ concat (map (\<lambda>a. CHR '','' # pin_address_text api a) as)) else None)"
  by (induction as arbitrary: i entry) (auto simp: Let_def pin_address_text_def)

lemma comma_separated_Cons:
  "comma_separated (t # ts) = t @ concat (map (Cons (CHR '','')) ts)"
  by (induction "t # ts" arbitrary: t ts rule: comma_separated.induct) auto

lemma append_addresses_text:
  "as \<noteq> [] \<Longrightarrow> append_addresses api 0 entry as =
     (if list_all (\<lambda>a. format_address api a \<noteq> []) as
      then Some (entry @ comma_separated (map (pin_address_text api) as)) else None)"
  by (cases as)
    (auto simp: Let_def append_addresses_tail comma_separated_Cons pin_address_text_def o_def)

lemma create_pin_okD:
  assumes "pin_ok (create_pin validate api slist_ok origin as)"
  shows "pin_matches (create_pin validate api slist_ok origin as) origin"
    and "pin_entry (create_pin validate api slist_ok origin as) = pin_text api origin as"
    and "pin_list (create_pin validate api slist_ok origin as) = Some (c_str (pin_text api origin as))"
    and "list_all (\<lambda>a. format_address api a \<noteq> []) as" and "as \<noteq> []"
    and "\<exists>u. validate (canonical_url origin) = Inr u \<and> canonical_url u = canonical_url origin
        \<and> hostname u = hostname origin \<and> port u = port origin \<and> request_target u = request_target origin"
  using assms
  by (auto simp: create_pin_def pin_ok_def failed_pin_def pin_matches_def append_addresses_text
      pin_text_def Let_def split: result_splits)

section \<open>Properties\<close>

text \<open>A pin that reports success carries exactly one entry, the host and port of its origin
  followed by every given address in order, IPv6 in brackets, none left out; it matches its origin
  and no origin with another canonical text, host or port.\<close>

lemma pin_entry_complete:
  assumes "pin_ok (create_pin (validate_origin_url env) (inet env) slist_ok origin as)"
  shows "pin_entry (create_pin (validate_origin_url env) (inet env) slist_ok origin as) =
      hostname origin @ '':'' @ nat_to_string (unat (port origin)) @ '':'' @
      comma_separated (map (pin_address_text (inet env)) as)
    \<and> list_all (\<lambda>a. format_address (inet env) a \<noteq> []) as \<and> as \<noteq> []
    \<and> (pin_matches (create_pin (validate_origin_url env) (inet env) slist_ok origin as) other \<longleftrightarrow>
        canonical_url other = canonical_url origin \<and> hostname other = hostname origin
        \<and> port other = port origin)"
  using create_pin_okD [OF assms] assms by (auto simp: pin_text_def pin_matches_def)

lemma sample_pin_ok:
  "p \<noteq> [] \<Longrightarrow> hd p = CHR ''/'' \<Longrightarrow> NUL \<notin> set p \<Longrightarrow>
   pin_ok (create_pin (validate_origin_url sample_env) (inet sample_env) (\<lambda>_. True)
     (sample_origin ''a.example'' p) [\<lparr>family = Ipv4, addr_bytes = fill16 [8, 8, 8, 8]\<rparr>])"
  using sample_validate [of "''a.example''" p]
  by (simp add: create_pin_def sample_origin_def append_addresses_text format_address_def
      address_memory_def sample_env_def sample_inet_def pin_ok_def NUL_def)

end
