(* ===== verification/Origin_Response.thy ===== *)
theory Origin_Response
  imports Prelude
begin

text \<open>
  \<^verbatim>\<open>src/http/origin_response.cpp\<close>: the accumulator that the transfer callbacks fill.
  The allocations that may throw are decided by the parameter \<open>alloc\<close>, which says whether a
  request for that many bytes succeeds.
\<close>

definition maximum_origin_body_bytes :: nat where
  "maximum_origin_body_bytes = 10 * 1024 * 1024"

datatype origin_response_error =
    Invalid_content_length | Content_length_too_large | Blocked_by_nextdns | Allocation_failure
  | Non_200_status

record accumulator =
  acc_error :: "origin_response_error option"
  content_length :: "int option"
  location :: "string option"
  acc_body :: bytes

definition empty_accumulator :: accumulator where
  "empty_accumulator = \<lparr>acc_error = None, content_length = None, location = None, acc_body = []\<rparr>"

definition remove_line_ending :: "string \<Rightarrow> string" where
  "remove_line_ending line =
     (if ends_with line CRLF then take (length line - 2) line
      else if ends_with line [LF] then take (length line - 1) line
      else line)"

text \<open>
  \<^verbatim>\<open>from_chars\<close> into \<^verbatim>\<open>std::int64_t\<close> consuming the whole
  text: an optional minus sign, digits, and no overflow.
\<close>

definition from_chars_int64 :: "string \<Rightarrow> int option" where
  "from_chars_int64 s =
     (let negative = (s \<noteq> [] \<and> hd s = CHR ''-''); digits = (if negative then tl s else s)
      in if digits = [] \<or> \<not> list_all is_digit digits then None
         else
           let v = (if negative then - int (digits_value digits) else int (digits_value digits))
           in if - (2 ^ 63) \<le> v \<and> v < 2 ^ 63 then Some v else None)"

definition set_content_length :: "(nat \<Rightarrow> bool) \<Rightarrow> string \<Rightarrow> accumulator \<Rightarrow> accumulator" where
  "set_content_length alloc value acc =
     (if value = [] then acc\<lparr>acc_error := Some Invalid_content_length\<rparr>
      else
        let unsigned_value = (if hd value = CHR ''+'' then tl value else value)
        in if unsigned_value = [] then acc\<lparr>acc_error := Some Invalid_content_length\<rparr>
           else case from_chars_int64 unsigned_value of
                  None \<Rightarrow> acc\<lparr>acc_error := Some Invalid_content_length\<rparr>
                | Some parsed \<Rightarrow>
                    if int maximum_origin_body_bytes < parsed
                    then acc\<lparr>acc_error := Some Content_length_too_large\<rparr>
                    else
                      let acc1 = acc\<lparr>content_length := Some parsed\<rparr>
                      in if parsed \<le> 0 then acc1
                         else if alloc (nat parsed) then acc1
                         else acc1\<lparr>acc_error := Some Allocation_failure\<rparr>)"

definition consume_header_line :: "(nat \<Rightarrow> bool) \<Rightarrow> string \<Rightarrow> accumulator \<Rightarrow> accumulator" where
  "consume_header_line alloc raw_line acc =
     (if acc_error acc \<noteq> None then acc
      else
        let line = remove_line_ending raw_line
        in if line = ''Blocked-By: NextDNS'' then acc\<lparr>acc_error := Some Blocked_by_nextdns\<rparr>
           else case find_char (CHR '':'') line of
                  None \<Rightarrow> acc
                | Some separator \<Rightarrow>
                    let name = take separator line; value = trim (drop (Suc separator) line)
                    in if ascii_equal name ''Content-Length'' then set_content_length alloc value acc
                       else if ascii_equal name ''Location'' then
                         (if alloc (length value) then acc\<lparr>location := Some value\<rparr>
                          else acc\<lparr>acc_error := Some Allocation_failure\<rparr>)
                       else acc)"

text \<open>The number is the count of bytes reported back to the transfer.\<close>

definition append_body :: "(nat \<Rightarrow> bool) \<Rightarrow> bytes \<Rightarrow> accumulator \<Rightarrow> nat \<times> accumulator" where
  "append_body alloc data acc =
     (if acc_error acc \<noteq> None \<or> data = [] \<or> length (acc_body acc) = maximum_origin_body_bytes
      then (0, acc)
      else
        let remaining = maximum_origin_body_bytes - length (acc_body acc);
            accepted = min remaining (length data)
        in if alloc accepted
           then (accepted, acc\<lparr>acc_body := acc_body acc @ take accepted data\<rparr>)
           else (0, acc\<lparr>acc_error := Some Allocation_failure\<rparr>))"

definition finish :: "int \<Rightarrow> accumulator \<Rightarrow> bool \<times> accumulator" where
  "finish code acc =
     (if acc_error acc \<noteq> None then (False, acc)
      else if code \<noteq> 200 then (False, acc\<lparr>acc_error := Some Non_200_status\<rparr>)
      else (True, acc))"

definition at_body_limit :: "accumulator \<Rightarrow> bool" where
  "at_body_limit acc \<longleftrightarrow> length (acc_body acc) = maximum_origin_body_bytes"

section \<open>The invariant\<close>

definition accumulator_inv :: "accumulator \<Rightarrow> bool" where
  "accumulator_inv acc \<longleftrightarrow>
     length (acc_body acc) \<le> maximum_origin_body_bytes
     \<and> (\<forall>n. content_length acc = Some n \<longrightarrow> n \<le> int maximum_origin_body_bytes)"

lemma empty_accumulator_inv [simp]: "accumulator_inv empty_accumulator"
  by (simp add: accumulator_inv_def empty_accumulator_def)

lemma set_content_length_inv: "accumulator_inv acc \<Longrightarrow> accumulator_inv (set_content_length alloc v acc)"
  by (auto simp: set_content_length_def accumulator_inv_def Let_def split: option.splits)

lemma consume_header_line_inv:
  "accumulator_inv acc \<Longrightarrow> accumulator_inv (consume_header_line alloc line acc)"
  using set_content_length_inv [of acc]
  by (auto simp: consume_header_line_def Let_def split: option.splits)
    (auto simp: accumulator_inv_def)

lemma append_body_inv: "accumulator_inv acc \<Longrightarrow> accumulator_inv (snd (append_body alloc d acc))"
  by (auto simp: append_body_def accumulator_inv_def Let_def)

lemma finish_inv: "accumulator_inv acc \<Longrightarrow> accumulator_inv (snd (finish code acc))"
  by (auto simp: finish_def accumulator_inv_def)

lemma set_content_length_body [simp]: "acc_body (set_content_length alloc v acc) = acc_body acc"
  by (auto simp: set_content_length_def Let_def split: option.splits)

lemma consume_header_line_body [simp]: "acc_body (consume_header_line alloc l acc) = acc_body acc"
  by (auto simp: consume_header_line_def Let_def split: option.splits)

lemma error_sticky:
  assumes "acc_error acc = Some e"
  shows "consume_header_line alloc l acc = acc" and "append_body alloc d acc = (0, acc)"
    and "finish code acc = (False, acc)"
  using assms by (auto simp: consume_header_line_def append_body_def finish_def)

section \<open>A whole response\<close>

datatype transfer_event = Header_data string | Body_data bytes

fun receive :: "(nat \<Rightarrow> bool) \<Rightarrow> transfer_event \<Rightarrow> accumulator \<Rightarrow> accumulator" where
  "receive alloc (Header_data l) acc = consume_header_line alloc l acc"
| "receive alloc (Body_data d) acc = snd (append_body alloc d acc)"

fun body_data :: "transfer_event \<Rightarrow> bytes" where
  "body_data (Header_data l) = []"
| "body_data (Body_data d) = d"

lemma receive_inv: "accumulator_inv acc \<Longrightarrow> accumulator_inv (receive alloc e acc)"
  by (cases e) (auto intro: consume_header_line_inv append_body_inv)

lemma receive_all_inv: "accumulator_inv acc \<Longrightarrow> accumulator_inv (fold (receive alloc) es acc)"
  by (induction es arbitrary: acc) (auto intro: receive_inv)

lemma receive_all_error: "acc_error acc = Some e \<Longrightarrow> fold (receive alloc) es acc = acc"
proof (induction es)
  case (Cons x es)
  then show ?case by (cases x) (auto simp: error_sticky)
qed simp

lemma receive_error_back:
  assumes "acc_error (fold (receive alloc) es acc) = None"
  shows "acc_error acc = None"
  using assms receive_all_error [of acc] by (cases "acc_error acc") auto

lemma receive_body:
  assumes "acc_error (receive alloc e acc) = None" and "accumulator_inv acc"
  shows "acc_body (receive alloc e acc) = take maximum_origin_body_bytes (acc_body acc @ body_data e)"
  using assms
  by (cases e) (auto simp: append_body_def Let_def accumulator_inv_def min_def split: if_splits)

lemma receive_all_body:
  assumes "acc_error (fold (receive alloc) es acc) = None" and "accumulator_inv acc"
  shows "acc_body (fold (receive alloc) es acc) =
    take maximum_origin_body_bytes (acc_body acc @ concat (map body_data es))"
  using assms
proof (induction es arbitrary: acc)
  case Nil
  then show ?case by (simp add: accumulator_inv_def)
next
  case (Cons e es)
  from Cons.prems(1) have 1: "acc_error (receive alloc e acc) = None"
    by (auto dest: receive_error_back)
  have "acc_body (fold (receive alloc) es (receive alloc e acc)) =
      take maximum_origin_body_bytes (acc_body (receive alloc e acc) @ concat (map body_data es))"
    using Cons receive_inv by simp
  then show ?case
    unfolding receive_body [OF 1 Cons.prems(2)] by (simp add: min_def)
qed

section \<open>Properties\<close>

text \<open>C38. Over any sequence of header lines and body pieces, if no error was recorded then the
  retained body is exactly the first ten mebibytes of the concatenated pieces, however they were
  cut; the body never exceeds that size and the stored length never exceeds it either.\<close>

theorem retained_body_is_prefix:
  assumes "acc_error (fold (receive alloc) es empty_accumulator) = None"
  shows "acc_body (fold (receive alloc) es empty_accumulator) =
      take (10 * 1024 * 1024) (concat (map body_data es))
    \<and> accumulator_inv (fold (receive alloc) es empty_accumulator)"
  using receive_all_body [OF assms] receive_all_inv [of empty_accumulator]
  by (simp add: empty_accumulator_def [THEN arg_cong [where f = acc_body]] maximum_origin_body_bytes_def)

theorem retained_body_is_prefix_witness:
  "acc_body (fold (receive (\<lambda>_. True)) [Header_data (''Location: /x'' @ CRLF), Body_data [1, 2],
      Body_data [3]] empty_accumulator) = [1, 2, 3]"
proof -
  have "acc_error (fold (receive (\<lambda>_. True)) [Header_data (''Location: /x'' @ CRLF), Body_data [1, 2],
      Body_data [3]] empty_accumulator) = None"
    by (simp add: consume_header_line_def remove_line_ending_def ends_with_def CRLF_def CR_def LF_def
        ascii_equal_def empty_accumulator_def append_body_def Let_def maximum_origin_body_bytes_def)
  from retained_body_is_prefix [OF this] show ?thesis by simp
qed

text \<open>A plus sign is removed before the number is read, and the number reader takes a minus
  sign: the length text +-5 is stored as the length -5 instead of being refused.\<close>

lemma plus_minus_length_accepted:
  "let acc = consume_header_line alloc ''Content-Length: +-5'' empty_accumulator
   in acc_error acc = None \<and> content_length acc = Some (-5)"
  by (simp add: consume_header_line_def remove_line_ending_def ends_with_def CRLF_def CR_def LF_def
      ascii_equal_def empty_accumulator_def Let_def trim_def is_ows_def set_content_length_def
      from_chars_int64_def is_digit_def char_in_def digits_value_def digit_value_def
      maximum_origin_body_bytes_def HT_def)

end
