(* ===== verification/Origin_Curl.thy ===== *)
theory Origin_Curl
  imports Curl_Resolve_Pin Origin_Response
begin

text \<open>
  \<^verbatim>\<open>src/http/origin_curl.cpp\<close>: the options of one transfer and the callbacks that
  feed the accumulator. A transfer handle is represented by the options applied to it so far, in order;
  whether libcurl takes an option on such a handle is the parameter \<open>setopt_ok\<close>. The embedded
  certificate bundle is the parameter \<open>ca\<close>.
\<close>


datatype origin_curl_config_error = Config_invalid_argument | Config_curl_option

datatype http_version = Http_version_2tls

datatype curl_setting =
    Set_url string | Set_resolve "string option" | Set_httpget int | Set_useragent string
  | Set_accept_encoding string | Set_http_version http_version | Set_protocols string
  | Set_redir_protocols string | Set_followlocation int | Set_ssl_verifypeer int
  | Set_ssl_verifyhost int | Set_cainfo_blob bytes | Set_nosignal int
  | Set_connecttimeout_ms int | Set_timeout_ms int | Set_failonerror int
  | Set_headerfunction | Set_headerdata | Set_writefunction | Set_writedata

definition origin_user_agent :: string where
  "origin_user_agent = ''Misskey-Media-Proxy-Go v0.10''"

text \<open>\<^verbatim>\<open>CURLE_OK\<close> and \<^verbatim>\<open>CURLE_WRITE_ERROR\<close>.\<close>

definition curle_ok :: int where
  "curle_ok = 0"

definition curle_write_error :: int where
  "curle_write_error = 23"

definition set_option ::
    "(curl_setting list \<Rightarrow> curl_setting \<Rightarrow> bool) \<Rightarrow> curl_setting \<Rightarrow> curl_setting list \<Rightarrow> bool \<times> curl_setting list" where
  "set_option setopt_ok s easy = (if setopt_ok easy s then (True, easy @ [s]) else (False, easy))"

text \<open>The chain of conjunctions: the first option that is refused stops it.\<close>

fun set_options ::
    "(curl_setting list \<Rightarrow> curl_setting \<Rightarrow> bool) \<Rightarrow> curl_setting list \<Rightarrow> curl_setting list \<Rightarrow>
     bool \<times> curl_setting list" where
  "set_options setopt_ok [] easy = (True, easy)"
| "set_options setopt_ok (s # ss) easy =
     (case set_option setopt_ok s easy of
        (False, easy') \<Rightarrow> (False, easy')
      | (True, easy') \<Rightarrow> set_options setopt_ok ss easy')"

definition origin_settings :: "bytes \<Rightarrow> origin_url \<Rightarrow> resolve_pin \<Rightarrow> int \<Rightarrow> curl_setting list" where
  "origin_settings ca origin pin timeout_milliseconds =
     [Set_url (c_str (canonical_url origin)), Set_resolve (pin_list pin), Set_httpget 1,
      Set_useragent origin_user_agent, Set_accept_encoding [],
      Set_http_version Http_version_2tls, Set_protocols ''https'', Set_redir_protocols ''https'',
      Set_followlocation 0, Set_ssl_verifypeer 1,
      Set_ssl_verifyhost 2, Set_cainfo_blob ca, Set_nosignal 1,
      Set_connecttimeout_ms timeout_milliseconds, Set_timeout_ms timeout_milliseconds,
      Set_failonerror 0, Set_headerfunction, Set_headerdata, Set_writefunction, Set_writedata]"

text \<open>
  The handle is \<open>None\<close> for a null pointer. The result is the error, if any, and the handle with
  the options that were applied.
\<close>

definition configure_origin_curl ::
    "(curl_setting list \<Rightarrow> curl_setting \<Rightarrow> bool) \<Rightarrow> bytes \<Rightarrow> curl_setting list option \<Rightarrow> origin_url \<Rightarrow>
     resolve_pin \<Rightarrow> int \<Rightarrow> origin_curl_config_error option \<times> curl_setting list option" where
  "configure_origin_curl setopt_ok ca easy origin pin timeout_milliseconds =
     (case easy of
        None \<Rightarrow> (Some Config_invalid_argument, None)
      | Some h \<Rightarrow>
          if \<not> pin_matches pin origin \<or> timeout_milliseconds \<le> 0 then (Some Config_invalid_argument, easy)
          else if ca = [] then (Some Config_invalid_argument, easy)
          else case set_options setopt_ok (origin_settings ca origin pin timeout_milliseconds) h of
                 (configured, h') \<Rightarrow> (if configured then None else Some Config_curl_option, Some h'))"

section \<open>The callbacks\<close>

text \<open>\<open>None\<close> when the product of the two sizes does not fit
  \<^verbatim>\<open>std::size_t\<close>.\<close>

definition callback_size :: "u64 \<Rightarrow> u64 \<Rightarrow> u64 option" where
  "callback_size sz count =
     (if sz \<noteq> 0 \<and> count > (-1) div sz then None else Some (sz * count))"

text \<open>
  A callback gets the memory behind its data pointer, the two sizes and the accumulator behind the user
  pointer; \<open>None\<close> stands for a null pointer. It returns the count it reports and the
  accumulator.
\<close>

definition origin_header_callback ::
    "(nat \<Rightarrow> bool) \<Rightarrow> string option \<Rightarrow> u64 \<Rightarrow> u64 \<Rightarrow> accumulator option \<Rightarrow> u64 \<times> accumulator option" where
  "origin_header_callback alloc data sz count user_data =
     (case (data, user_data, callback_size sz count) of
        (Some d, Some acc, Some tot) \<Rightarrow>
          let acc' = consume_header_line alloc (take (unat tot) d) acc
          in (if acc_error acc' = None then tot else 0, Some acc')
      | _ \<Rightarrow> (0, user_data))"

definition origin_body_callback ::
    "(nat \<Rightarrow> bool) \<Rightarrow> bytes option \<Rightarrow> u64 \<Rightarrow> u64 \<Rightarrow> accumulator option \<Rightarrow> u64 \<times> accumulator option" where
  "origin_body_callback alloc data sz count user_data =
     (case (data, user_data, callback_size sz count) of
        (Some d, Some acc, Some tot) \<Rightarrow>
          let (accepted, acc') = append_body alloc (take (unat tot) d) acc
          in (of_nat accepted, Some acc')
      | _ \<Rightarrow> (0, user_data))"

definition is_body_limit_completion :: "int \<Rightarrow> accumulator \<Rightarrow> bool" where
  "is_body_limit_completion code acc \<longleftrightarrow>
     code = curle_write_error \<and> acc_error acc = None \<and> at_body_limit acc"

section \<open>The options of a successful configuration\<close>

lemma set_options_accept:
  "set_options setopt_ok ss easy = (True, easy') \<Longrightarrow> easy' = easy @ ss"
  by (induction ss arbitrary: easy) (fastforce simp: set_option_def split: if_splits)+

lemma set_options_refused:
  "set_options setopt_ok ss easy = (False, easy') \<Longrightarrow> \<exists>n < length ss. easy' = easy @ take n ss"
proof (induction ss arbitrary: easy)
  case (Cons s ss)
  show ?case
  proof (cases "setopt_ok easy s")
    case True
    with Cons.prems have "set_options setopt_ok ss (easy @ [s]) = (False, easy')"
      by (simp add: set_option_def)
    from Cons.IH [OF this] obtain n where "n < length ss" "easy' = easy @ take (Suc n) (s # ss)" by auto
    then show ?thesis by (intro exI [of _ "Suc n"]) simp
  next
    case False
    with Cons.prems show ?thesis by (intro exI [of _ 0]) (simp add: set_option_def)
  qed
qed simp

lemma configure_None:
  assumes "configure_origin_curl setopt_ok ca easy origin pin t = (None, easy')"
  obtains h where "easy = Some h" "easy' = Some (h @ origin_settings ca origin pin t)"
    "pin_matches pin origin" "0 < t" "ca \<noteq> []"
  using assms
  by (auto simp: configure_origin_curl_def dest: set_options_accept split: result_splits)

lemma callback_size_Some_iff:
  "callback_size s c = Some t \<longleftrightarrow> unat s * unat c < 2 ^ 64 \<and> t = s * c"
proof (cases "s = 0")
  case True
  then show ?thesis by (auto simp: callback_size_def)
next
  case False
  then have pos: "0 < unat s" by (simp add: unat_gt_0)
  have max: "unat (-1 :: u64) = 2 ^ 64 - 1" by (simp add: unsigned_minus_1_eq_mask mask_eq_exp_minus_1)
  have "c > (-1) div s \<longleftrightarrow> \<not> unat c * unat s \<le> 2 ^ 64 - 1"
    unfolding word_less_nat_alt unat_div max not_le [symmetric] less_eq_div_iff_mult_less_eq [OF pos] ..
  with False show ?thesis by (auto simp: callback_size_def mult.commute)
qed

lemma append_body_short:
  assumes "accumulator_inv acc" and "append_body alloc d acc = (k, acc')"
  shows "k = length d \<or> acc_error acc' \<noteq> None \<or> at_body_limit acc'"
  using assms
  by (auto simp: append_body_def at_body_limit_def accumulator_inv_def Let_def min_def split: if_splits)

section \<open>Properties\<close>

text \<open>A configuration that reports success has applied, to a new handle, exactly the options of
  the transfer contract: the URL and the pin of the given origin, https for the request and for
  redirects, no redirect following, peer and host verification with the embedded bundle, and a
  positive connect and whole-transfer limit; a failed one has applied a proper prefix of them.\<close>

lemma configured_options_complete:
  assumes "configure_origin_curl setopt_ok ca (Some []) origin pin t = (e, Some h)"
  shows "if e = None
    then h = origin_settings ca origin pin t \<and> pin_matches pin origin \<and> 0 < t \<and> ca \<noteq> []
      \<and> {Set_protocols ''https'', Set_redir_protocols ''https'', Set_followlocation 0,
          Set_ssl_verifypeer 1, Set_ssl_verifyhost 2, Set_cainfo_blob ca, Set_timeout_ms t} \<subseteq> set h
    else \<exists>n < 20. h = take n (origin_settings ca origin pin t)"
proof (cases e)
  case None
  from assms [unfolded None] show ?thesis
    by (elim configure_None) (simp add: None origin_settings_def)
next
  case (Some e')
  let ?ss = "origin_settings ca origin pin t"
  have len: "length ?ss = 20" by (simp add: origin_settings_def)
  consider "h = []" | "set_options setopt_ok ?ss [] = (False, h)"
    using assms Some by (auto simp: configure_origin_curl_def split: result_splits)
  then have "\<exists>n < 20. h = take n ?ss"
  proof cases
    case 1
    then have "h = take 0 ?ss" by simp
    then show ?thesis by (intro exI [of _ 0]) simp
  next
    case 2
    from set_options_refused [OF 2] len show ?thesis by auto
  qed
  with Some show ?thesis by simp
qed

definition sample_pin :: resolve_pin where
  "sample_pin = \<lparr>pin_error = None, pin_canonical_url = ''https://a.example/x'', pin_hostname = ''a.example'',
     pin_port = 443, pin_entry = ''a.example:443:8.8.8.8'', pin_list = Some ''a.example:443:8.8.8.8''\<rparr>"

text \<open>The body callback never reports fewer bytes than it was given unless the accumulator
  has recorded an error or is full, which is the one write error the download takes for a
  completed body.\<close>

lemma short_write_is_error_or_limit:
  assumes "origin_body_callback alloc (Some d) s c (Some acc) = (n, Some acc')"
    and "unat s * unat c < 2 ^ 64" and "unat s * unat c \<le> length d" and "accumulator_inv acc"
    and "n \<noteq> s * c"
  shows "acc_error acc' \<noteq> None \<or> is_body_limit_completion curle_write_error acc'"
proof -
  from callback_size_Some_iff [of s c "s * c"] assms(2) have "callback_size s c = Some (s * c)" by simp
  moreover have "unat (s * c) \<le> length d"
    using assms(2,3) by (simp add: unat_word_ariths)
  ultimately obtain k where k: "append_body alloc (take (unat (s * c)) d) acc = (k, acc')"
    and "n = of_nat k" "length (take (unat (s * c)) d) = unat (s * c)"
    using assms(1) by (auto simp: origin_body_callback_def Let_def split: prod.splits)
  with append_body_short [OF assms(4) k] assms(5) show ?thesis
    by (auto simp: is_body_limit_completion_def)
qed

end
