(* ===== verification/Redirect_Policy.thy ===== *)
theory Redirect_Policy
  imports Url_Policy
begin

text \<open>
  \<^verbatim>\<open>src/http/redirect_policy.cpp\<close>: the tracker of the redirects of one download. The
  array \<^verbatim>\<open>visited_\<close> has eleven slots, of which the first
  \<open>visited_count\<close> are in use. The URL policy is the argument \<open>validate\<close>, the
  relative resolution the argument \<open>resolve\<close>; both are instantiated below.
\<close>

definition maximum_origin_redirects :: nat where
  "maximum_origin_redirects = 10"

datatype redirect_error =
  Invalid_location | Redirect_url_policy url_error | Redirect_loop | Too_many_redirects

record redirect_tracker =
  current :: origin_url
  visited :: "string list"
  visited_count :: nat
  redirect_count :: nat

definition is_ascii_alpha :: "char \<Rightarrow> bool" where
  "is_ascii_alpha c \<longleftrightarrow> char_in (CHR ''a'') (CHR ''z'') c \<or> char_in (CHR ''A'') (CHR ''Z'') c"

fun scheme_tail :: "string \<Rightarrow> bool" where
  "scheme_tail [] = False"
| "scheme_tail (c # cs) =
     (if c = CHR '':'' then True
      else if \<not> is_ascii_alpha c \<and> \<not> is_digit c \<and> c \<noteq> CHR ''+'' \<and> c \<noteq> CHR ''-'' \<and> c \<noteq> CHR ''.''
        then False
      else scheme_tail cs)"

definition has_scheme :: "string \<Rightarrow> bool" where
  "has_scheme s = (case s of [] \<Rightarrow> False | c # cs \<Rightarrow> if \<not> is_ascii_alpha c then False else scheme_tail cs)"

definition resolve_relative_location ::
    "'u curl_url_api \<Rightarrow> origin_url \<Rightarrow> string \<Rightarrow> string option" where
  "resolve_relative_location api cur location =
     (case url_new api of
        None \<Rightarrow> None
      | Some fresh \<Rightarrow>
          (case url_set api fresh (c_str (canonical_url cur)) of
             None \<Rightarrow> None
           | Some based \<Rightarrow>
               (case url_set api based (c_str location) of
                  None \<Rightarrow> None
                | Some resolved \<Rightarrow>
                    (case url_get api resolved Part_url of Inl _ \<Rightarrow> None | Inr raw \<Rightarrow> Some (c_str raw)))))"

definition initial_tracker :: "origin_url \<Rightarrow> redirect_tracker" where
  "initial_tracker u = \<lparr>current = u, visited = (replicate (Suc maximum_origin_redirects) [])[0 := canonical_url u],
     visited_count = 1, redirect_count = 0\<rparr>"

definition create_tracker ::
    "(string \<Rightarrow> url_error + origin_url) \<Rightarrow> origin_url \<Rightarrow> redirect_tracker option" where
  "create_tracker validate initial =
     (case validate (canonical_url initial) of
        Inl _ \<Rightarrow> None
      | Inr u \<Rightarrow>
          if canonical_url u \<noteq> canonical_url initial \<or> hostname u \<noteq> hostname initial
            \<or> port u \<noteq> port initial \<or> request_target u \<noteq> request_target initial
            \<or> literal_address u \<noteq> literal_address initial
          then None else Some (initial_tracker u))"

definition follow ::
    "(string \<Rightarrow> url_error + origin_url) \<Rightarrow> (origin_url \<Rightarrow> string \<Rightarrow> string option) \<Rightarrow>
     redirect_tracker \<Rightarrow> string \<Rightarrow> (redirect_error + origin_url) \<times> redirect_tracker" where
  "follow validate resolve t location =
     (if maximum_origin_redirects \<le> redirect_count t then (Inl Too_many_redirects, t)
      else if NUL \<in> set location then (Inl Invalid_location, t)
      else
        let resolved = (if has_scheme location then Some location else resolve (current t) location)
        in case resolved of
             None \<Rightarrow> (Inl Invalid_location, t)
           | Some r \<Rightarrow>
               (case validate r of
                  Inl e \<Rightarrow> (Inl (Redirect_url_policy e), t)
                | Inr u \<Rightarrow>
                    if canonical_url u \<in> set (take (visited_count t) (visited t))
                    then (Inl Redirect_loop, t)
                    else (Inr u, t\<lparr>current := u,
                           visited := (visited t)[visited_count t := canonical_url u],
                           visited_count := Suc (visited_count t),
                           redirect_count := Suc (redirect_count t)\<rparr>)))"

section \<open>The invariant of the tracker\<close>

definition history :: "redirect_tracker \<Rightarrow> string list" where
  "history t = take (visited_count t) (visited t)"

definition tracker_inv :: "(string \<Rightarrow> url_error + origin_url) \<Rightarrow> redirect_tracker \<Rightarrow> bool" where
  "tracker_inv validate t \<longleftrightarrow>
     length (visited t) = Suc maximum_origin_redirects
     \<and> visited_count t = Suc (redirect_count t) \<and> redirect_count t \<le> maximum_origin_redirects
     \<and> distinct (history t) \<and> last (history t) = canonical_url (current t)
     \<and> (\<exists>s. validate s = Inr (current t))"

lemma create_tracker_inv:
  "create_tracker validate u = Some t \<Longrightarrow>
   tracker_inv validate t \<and> redirect_count t = 0 \<and> history t = [canonical_url u] \<and> current t = u"
  by (auto simp: create_tracker_def initial_tracker_def tracker_inv_def history_def
      maximum_origin_redirects_def numeral_eq_Suc split: result_splits)

lemma follow_Inl: "follow validate resolve t loc = (Inl e, t') \<Longrightarrow> t' = t"
  by (auto simp: follow_def Let_def split: result_splits)

lemma follow_Inr:
  assumes "follow validate resolve t loc = (Inr u, t')" and "tracker_inv validate t"
  shows "tracker_inv validate t'" and "redirect_count t' = Suc (redirect_count t)"
    and "history t' = history t @ [canonical_url u]" and "current t' = u"
    and "canonical_url u \<notin> set (history t)" and "\<exists>s. validate s = Inr u"
proof -
  from assms(1) obtain r where
    lt: "redirect_count t < maximum_origin_redirects" and v: "validate r = Inr u"
    and new: "canonical_url u \<notin> set (history t)"
    and t': "t' = t\<lparr>current := u, visited := (visited t)[visited_count t := canonical_url u],
       visited_count := Suc (visited_count t), redirect_count := Suc (redirect_count t)\<rparr>"
    by (auto simp: follow_def Let_def history_def split: result_splits)
  have slot: "visited_count t < length (visited t)"
    using lt assms(2) by (simp add: tracker_inv_def)
  then have hist: "history t' = history t @ [canonical_url u]"
    by (simp add: t' history_def take_Suc_conv_app_nth)
  show "tracker_inv validate t'"
    using assms(2) lt new v hist by (auto simp: tracker_inv_def t' simp del: history_def)
  show "redirect_count t' = Suc (redirect_count t)" "current t' = u" by (simp_all add: t')
  show "history t' = history t @ [canonical_url u]" by (rule hist)
  show "canonical_url u \<notin> set (history t)" by (rule new)
  show "\<exists>s. validate s = Inr u" using v by blast
qed

text \<open>A run of the tracker over a list of locations, all of them followed.\<close>

fun follow_all ::
    "(string \<Rightarrow> url_error + origin_url) \<Rightarrow> (origin_url \<Rightarrow> string \<Rightarrow> string option) \<Rightarrow>
     redirect_tracker \<Rightarrow> string list \<Rightarrow> redirect_tracker option" where
  "follow_all validate resolve t [] = Some t"
| "follow_all validate resolve t (l # ls) =
     (case follow validate resolve t l of
        (Inl _, _) \<Rightarrow> None
      | (Inr _, t') \<Rightarrow> follow_all validate resolve t' ls)"

lemma follow_all_inv:
  "follow_all validate resolve t ls = Some t' \<Longrightarrow> tracker_inv validate t \<Longrightarrow>
   tracker_inv validate t' \<and> redirect_count t' = redirect_count t + length ls"
proof (induction ls arbitrary: t)
  case (Cons l ls)
  from Cons.prems(1) obtain u t1 where step: "follow validate resolve t l = (Inr u, t1)"
    and rest: "follow_all validate resolve t1 ls = Some t'"
    by (auto split: result_splits)
  from follow_Inr(1,2) [OF step Cons.prems(2)] Cons.IH [OF rest] show ?case by simp
qed simp

context url_policy
begin

lemma tracker_origin_well_formed:
  "tracker_inv validate t \<Longrightarrow> well_formed_origin public (current t)"
  by (auto simp: tracker_inv_def dest: accepted_well_formed)

end

section \<open>Properties\<close>

text \<open>C37. Along any run of accepted redirects the tracker stays inside its eleven-slot history,
  never visits a canonical URL twice, follows at most ten redirects, and its current URL is one
  the URL policy accepted.\<close>

theorem tracker_run_bounded:
  assumes "create_tracker (validate_origin_url env) u = Some t"
    and "follow_all (validate_origin_url env) (resolve_relative_location (curl_url env)) t ls = Some t'"
  shows "length ls \<le> 10 \<and> redirect_count t' = length ls \<and> visited_count t' = length ls + 1
    \<and> visited_count t' \<le> length (visited t') \<and> distinct (take (visited_count t') (visited t'))
    \<and> well_formed_origin public_address (current t')"
proof -
  from create_tracker_inv [OF assms(1)] follow_all_inv [OF assms(2)]
  have inv: "tracker_inv (validate_origin_url env) t'" and n: "redirect_count t' = length ls" by auto
  from up.tracker_origin_well_formed [OF inv] have "well_formed_origin public_address (current t')" .
  with inv n show ?thesis
    by (auto simp: tracker_inv_def history_def maximum_origin_redirects_def)
qed

definition sample_tracker :: "string \<Rightarrow> redirect_tracker" where
  "sample_tracker p = initial_tracker (sample_origin ''a.example'' p)"

lemma sample_create:
  "p \<noteq> [] \<Longrightarrow> hd p = CHR ''/'' \<Longrightarrow> NUL \<notin> set p \<Longrightarrow>
   create_tracker (validate_origin_url sample_env) (sample_origin ''a.example'' p) = Some (sample_tracker p)"
  using sample_validate [of "''a.example''" p]
  by (simp add: create_tracker_def sample_tracker_def sample_origin_def)

theorem tracker_run_bounded_witness:
  "\<exists>t'. follow_all (validate_origin_url sample_env) (resolve_relative_location (curl_url sample_env))
      (sample_tracker ''/x'') [''https://b.example/y''] = Some t' \<and> redirect_count t' = 1"
proof -
  have c: "create_tracker (validate_origin_url sample_env) (sample_origin ''a.example'' ''/x'') =
      Some (sample_tracker ''/x'')"
    by (rule sample_create) (simp_all add: NUL_def)
  have v: "validate_origin_url sample_env ''https://b.example/y'' = Inr (sample_origin ''b.example'' ''/y'')"
    using sample_validate [of "''b.example''" "''/y''"] by (simp add: NUL_def)
  have "\<exists>t'. follow_all (validate_origin_url sample_env) (resolve_relative_location (curl_url sample_env))
      (sample_tracker ''/x'') [''https://b.example/y''] = Some t'"
    by (simp add: follow_def v has_scheme_def is_ascii_alpha_def char_in_def NUL_def Let_def
        sample_tracker_def initial_tracker_def sample_origin_def maximum_origin_redirects_def
        take_Suc nth_append hd_conv_nth)
  with tracker_run_bounded [OF c] show ?thesis by fastforce
qed

end
