(* ===== verification/Origin_Download.thy ===== *)
theory Origin_Download
  imports Origin_Curl Redirect_Policy
begin

text \<open>
  \<^verbatim>\<open>src/http/origin_download.cpp\<close>: one hop of a download and the loop over
  redirects. The resolver, the clock and the transfer library are parameters over a world of type
  \<open>'w\<close>; a function pointer that may be null is an option. A performed transfer yields the
  pieces it handed to the two callbacks and the code of the library; the callbacks run on them in order.
\<close>

record 'w origin_timeout_api =
  remaining_milliseconds :: "('w \<Rightarrow> int \<times> 'w) option"

record 'w origin_transport_api =
  easy_create :: "('w \<Rightarrow> nat option \<times> 'w) option"
  easy_destroy :: "(nat \<Rightarrow> 'w \<Rightarrow> 'w) option"
  easy_perform :: "(nat \<Rightarrow> curl_setting list \<Rightarrow> 'w \<Rightarrow> (transfer_event list \<times> int) \<times> 'w) option"
  easy_response_code :: "(nat \<Rightarrow> 'w \<Rightarrow> (int \<times> int) \<times> 'w) option"

text \<open>The interfaces of one download, with the choices of the libraries behind them.\<close>

record ('u, 'w) origin_apis =
  url_policy_env :: "'u url_env"
  timeout_api :: "'w origin_timeout_api"
  resolver_of :: "'w resolver_api"
  transport_api :: "'w origin_transport_api"
  setopt_accepts :: "curl_setting list \<Rightarrow> curl_setting \<Rightarrow> bool"
  slist_accepts :: "string \<Rightarrow> bool"
  alloc_accepts :: "nat \<Rightarrow> bool"
  ca_bundle :: bytes

datatype origin_download_error =
    Dl_invalid_argument | Dl_resolution | Dl_resolve_pin | Dl_easy_init | Dl_curl_config
  | Dl_transfer | Dl_response_info | Dl_response_policy | Dl_deadline | Dl_redirect

record origin_download_result =
  dl_response :: accumulator
  dl_resolution :: "origin_resolution_error + validated_address list"
  dl_error :: "origin_download_error option"
  dl_pin_error :: "resolve_pin_error option"
  dl_config_error :: "origin_curl_config_error option"
  dl_redirect_error :: "redirect_error option"
  dl_curl_error :: int
  dl_status :: int
  dl_redirect_count :: nat

definition empty_result :: origin_download_result where
  "empty_result = \<lparr>dl_response = empty_accumulator, dl_resolution = Inr [], dl_error = None,
     dl_pin_error = None, dl_config_error = None, dl_redirect_error = None, dl_curl_error = curle_ok,
     dl_status = 0, dl_redirect_count = 0\<rparr>"

definition valid_transport :: "'w origin_transport_api \<Rightarrow> bool" where
  "valid_transport tr \<longleftrightarrow> easy_create tr \<noteq> None \<and> easy_destroy tr \<noteq> None \<and> easy_perform tr \<noteq> None
     \<and> easy_response_code tr \<noteq> None"

definition valid_timeout :: "'w origin_timeout_api \<Rightarrow> bool" where
  "valid_timeout t \<longleftrightarrow> remaining_milliseconds t \<noteq> None"

definition is_redirect_status :: "int \<Rightarrow> bool" where
  "is_redirect_status s \<longleftrightarrow> s = 301 \<or> s = 302 \<or> s = 303 \<or> s = 307 \<or> s = 308"

abbreviation validate_by :: "('u, 'w) origin_apis \<Rightarrow> string \<Rightarrow> url_error + origin_url" where
  "validate_by A \<equiv> validate_origin_url (url_policy_env A)"

abbreviation resolve_by ::
    "('u, 'w) origin_apis \<Rightarrow> origin_url \<Rightarrow> 'w \<Rightarrow> (origin_resolution_error + validated_address list) \<times> 'w" where
  "resolve_by A \<equiv> resolve_in_env (url_policy_env A) (resolver_of A)"

abbreviation pin_by :: "('u, 'w) origin_apis \<Rightarrow> origin_url \<Rightarrow> validated_address list \<Rightarrow> resolve_pin" where
  "pin_by A \<equiv> create_pin (validate_by A) (inet (url_policy_env A)) (slist_accepts A)"

abbreviation follow_by ::
    "('u, 'w) origin_apis \<Rightarrow> redirect_tracker \<Rightarrow> string \<Rightarrow> (redirect_error + origin_url) \<times> redirect_tracker" where
  "follow_by A \<equiv> follow (validate_by A) (resolve_relative_location (curl_url (url_policy_env A)))"

text \<open>The part of a hop that works on a created handle, up to the destruction of the handle.\<close>

definition transfer_on_handle ::
    "('u, 'w) origin_apis \<Rightarrow> origin_url \<Rightarrow> resolve_pin \<Rightarrow> int \<Rightarrow> nat \<Rightarrow> origin_download_result \<Rightarrow> 'w \<Rightarrow>
     origin_download_result \<times> 'w" where
  "transfer_on_handle A origin pin timeout_ms h result w =
     (let (config, easy) = configure_origin_curl (setopt_accepts A) (ca_bundle A) (Some []) origin pin timeout_ms;
          result1 = result\<lparr>dl_config_error := config\<rparr>
      in if config \<noteq> None then (result1\<lparr>dl_error := Some Dl_curl_config\<rparr>, w)
         else
           let ((events, code), w1) = the (easy_perform (transport_api A)) h (the easy) w;
               response = fold (receive (alloc_accepts A)) events (dl_response result1);
               result2 = result1\<lparr>dl_response := response, dl_curl_error := code\<rparr>
           in if code \<noteq> curle_ok \<and> \<not> is_body_limit_completion code response
              then (result2\<lparr>dl_error := Some (if acc_error response = None then Dl_transfer
                                            else Dl_response_policy)\<rparr>, w1)
              else
                let ((info_code, status_value), w2) = the (easy_response_code (transport_api A)) h w1;
                    result3 = result2\<lparr>dl_curl_error := info_code, dl_status := status_value\<rparr>
                in if info_code \<noteq> curle_ok then (result3\<lparr>dl_error := Some Dl_response_info\<rparr>, w2)
                   else if acc_error response \<noteq> None
                     then (result3\<lparr>dl_error := Some Dl_response_policy\<rparr>, w2)
                   else (result3, w2))"

text \<open>The part of a hop behind the address policy: the pin, the second look at the clock, and the
  handle, which is destroyed on every path once it exists.\<close>

definition request_with_addresses ::
    "('u, 'w) origin_apis \<Rightarrow> origin_url \<Rightarrow> validated_address list \<Rightarrow> origin_download_result \<Rightarrow> 'w \<Rightarrow>
     origin_download_result \<times> 'w" where
  "request_with_addresses A origin addresses result w =
     (let pin = pin_by A origin addresses;
          result1 = result\<lparr>dl_pin_error := pin_error pin\<rparr>
      in if \<not> pin_ok pin then (result1\<lparr>dl_error := Some Dl_resolve_pin\<rparr>, w)
         else
           let (timeout_ms, w1) = the (remaining_milliseconds (timeout_api A)) w
           in if timeout_ms \<le> 0 then (result1\<lparr>dl_error := Some Dl_deadline\<rparr>, w1)
              else
                let (easy, w2) = the (easy_create (transport_api A)) w1
                in case easy of
                     None \<Rightarrow> (result1\<lparr>dl_error := Some Dl_easy_init\<rparr>, w2)
                   | Some h \<Rightarrow>
                       let (result2, w3) = transfer_on_handle A origin pin timeout_ms h result1 w2
                       in (result2, the (easy_destroy (transport_api A)) h w3))"

definition perform_origin_request ::
    "('u, 'w) origin_apis \<Rightarrow> origin_url \<Rightarrow> 'w \<Rightarrow> origin_download_result \<times> 'w" where
  "perform_origin_request A origin w =
     (if \<not> valid_transport (transport_api A) \<or> \<not> valid_timeout (timeout_api A)
      then (empty_result\<lparr>dl_error := Some Dl_invalid_argument\<rparr>, w)
      else
        let (remaining, w1) = the (remaining_milliseconds (timeout_api A)) w
        in if remaining \<le> 0 then (empty_result\<lparr>dl_error := Some Dl_deadline\<rparr>, w1)
           else
             let (resolution, w2) = resolve_by A origin w1;
                 result = empty_result\<lparr>dl_resolution := resolution\<rparr>
             in case resolution of
                  Inl _ \<Rightarrow> (result\<lparr>dl_error := Some Dl_resolution\<rparr>, w2)
                | Inr addresses \<Rightarrow> request_with_addresses A origin addresses result w2)"

text \<open>The call of \<^verbatim>\<open>finish\<close> at the end of a download, and its effect on the
  result.\<close>

definition finish_result :: "origin_download_result \<Rightarrow> origin_download_result" where
  "finish_result result =
     (let (accepted, response) = finish (dl_status result) (dl_response result);
          result1 = result\<lparr>dl_response := response\<rparr>
      in if \<not> accepted then result1\<lparr>dl_error := Some Dl_response_policy\<rparr> else result1)"

definition fixed_timeout :: "int \<Rightarrow> 'w origin_timeout_api" where
  "fixed_timeout ms = \<lparr>remaining_milliseconds = Some (\<lambda>w. (ms, w))\<rparr>"

definition download_origin_once ::
    "('u, 'w) origin_apis \<Rightarrow> origin_url \<Rightarrow> int \<Rightarrow> 'w \<Rightarrow> origin_download_result \<times> 'w" where
  "download_origin_once A origin timeout_ms w =
     (if timeout_ms \<le> 0 then (empty_result\<lparr>dl_error := Some Dl_invalid_argument\<rparr>, w)
      else
        let (result, w') = perform_origin_request (A\<lparr>timeout_api := fixed_timeout timeout_ms\<rparr>) origin w
        in if dl_error result \<noteq> None then (result, w') else (finish_result result, w'))"

lemma follow_progress:
  "follow validate resolve t loc = (Inr u, t') \<Longrightarrow>
   redirect_count t < maximum_origin_redirects \<and> redirect_count t' = Suc (redirect_count t)"
  by (auto simp: follow_def Let_def split: result_splits)

text \<open>What a turn of the loop makes of the result of its hop: the final result, or the tracker of
  the next turn.\<close>

definition after_hop ::
    "('u, 'w) origin_apis \<Rightarrow> redirect_tracker \<Rightarrow> origin_download_result \<Rightarrow>
     origin_download_result + redirect_tracker" where
  "after_hop A tracker hop =
     (let result = hop\<lparr>dl_redirect_count := redirect_count tracker\<rparr>
      in if dl_error result \<noteq> None then Inl result
         else if dl_status result = 200 then Inl (finish_result result)
         else if \<not> is_redirect_status (dl_status result) then Inl (finish_result result)
         else case location (dl_response result) of
                None \<Rightarrow> Inl (result\<lparr>dl_error := Some Dl_redirect, dl_redirect_error := Some Invalid_location\<rparr>)
              | Some loc \<Rightarrow>
                  if loc = [] then
                    Inl (result\<lparr>dl_error := Some Dl_redirect, dl_redirect_error := Some Invalid_location\<rparr>)
                  else case follow_by A tracker loc of
                         (Inl e, _) \<Rightarrow>
                           Inl (result\<lparr>dl_error := Some Dl_redirect, dl_redirect_error := Some e\<rparr>)
                       | (Inr _, tracker') \<Rightarrow> Inr tracker')"

lemma after_hop_continues:
  assumes "after_hop A t r = Inr t'"
  obtains loc u where "dl_error r = None" "is_redirect_status (dl_status r)"
    "location (dl_response r) = Some loc" "loc \<noteq> []" "follow_by A t loc = (Inr u, t')"
    "redirect_count t < maximum_origin_redirects" "redirect_count t' = Suc (redirect_count t)"
  using assms by (auto simp: after_hop_def Let_def dest: follow_progress split: result_splits)

text \<open>The loop ends because each turn that continues has counted one more redirect.\<close>

function (sequential) download_loop ::
    "('u, 'w) origin_apis \<Rightarrow> redirect_tracker \<Rightarrow> 'w \<Rightarrow> origin_download_result \<times> 'w" where
  "download_loop A tracker w =
     (let (hop, w') = perform_origin_request A (current tracker) w
      in case after_hop A tracker hop of
           Inl result \<Rightarrow> (result, w')
         | Inr tracker' \<Rightarrow> download_loop A tracker' w')"
  by pat_completeness auto
termination
  by (relation "measure (\<lambda>(A, tracker, w). maximum_origin_redirects - redirect_count tracker)")
    (auto elim!: after_hop_continues [OF sym] after_hop_continues)

definition download_origin ::
    "('u, 'w) origin_apis \<Rightarrow> origin_url \<Rightarrow> 'w \<Rightarrow> origin_download_result \<times> 'w" where
  "download_origin A initial w =
     (if \<not> valid_transport (transport_api A) \<or> \<not> valid_timeout (timeout_api A)
      then (empty_result\<lparr>dl_error := Some Dl_invalid_argument\<rparr>, w)
      else case create_tracker (validate_by A) initial of
             None \<Rightarrow> (empty_result\<lparr>dl_error := Some Dl_resolution, dl_resolution := Inl Res_invalid_origin\<rparr>, w)
           | Some tracker \<Rightarrow> download_loop A tracker w)"

declare download_loop.simps [simp del]

end
