(* ===== verification/Deadline.thy ===== *)
theory Deadline
  imports Origin_Download
begin

text \<open>
  \<^verbatim>\<open>src/runtime/deadline.cpp\<close>: the time an invocation may still spend on its origin.
  The clock is a parameter over the world; \<^verbatim>\<open>long\<close> has 64 bits on the targets.
\<close>

definition response_submission_reserve_ms :: u64 where
  "response_submission_reserve_ms = 1000"

record 'w invocation_deadline =
  deadline_ms :: u64
  clock_now :: "('w \<Rightarrow> u64 \<times> 'w) option"

definition long_max :: u64 where
  "long_max = 0x7FFFFFFFFFFFFFFF"

definition remaining_origin_milliseconds :: "'w invocation_deadline \<Rightarrow> 'w \<Rightarrow> int \<times> 'w" where
  "remaining_origin_milliseconds d w =
     (case clock_now d of
        None \<Rightarrow> (0, w)
      | Some clock \<Rightarrow>
          let (now, w') = clock w
          in if deadline_ms d \<le> now \<or> deadline_ms d - now \<le> response_submission_reserve_ms then (0, w')
             else
               let remaining = deadline_ms d - now - response_submission_reserve_ms
               in (sint (min remaining long_max), w'))"

text \<open>The context pointer is \<open>None\<close> for a null pointer.\<close>

definition deadline_remaining :: "'w invocation_deadline option \<Rightarrow> 'w \<Rightarrow> int \<times> 'w" where
  "deadline_remaining context w =
     (case context of None \<Rightarrow> (0, w) | Some d \<Rightarrow> remaining_origin_milliseconds d w)"

definition origin_timeout :: "'w invocation_deadline \<Rightarrow> 'w origin_timeout_api" where
  "origin_timeout d = \<lparr>remaining_milliseconds = Some (deadline_remaining (Some d))\<rparr>"

text \<open>\<^verbatim>\<open>system_epoch_milliseconds\<close>: the count of the system clock, clipped at
  zero.\<close>

definition epoch_milliseconds :: "int \<Rightarrow> u64" where
  "epoch_milliseconds count = (if 0 < count then of_int count else 0)"

lemma sint_min_long_max: "sint (min x long_max) = min (uint x) (2 ^ 63 - 1)"
proof -
  have m: "uint (min x long_max) = min (uint x) (2 ^ 63 - 1)"
    by (auto simp: min_def word_le_def long_max_def)
  moreover have "signed_take_bit 63 (min (uint x) (2 ^ 63 - 1)) = min (uint x) (2 ^ 63 - 1)"
    by (intro signed_take_bit_int_eq_self)
      (auto simp: min_def intro: order_trans [OF _ uint_ge_0])
  ultimately show ?thesis by (simp add: sint_uint)
qed

text \<open>The remaining time is the distance to the deadline less the reserve of one second, clipped to
  zero and to the largest \<^verbatim>\<open>long\<close>, with no wrap-around of the unsigned
  subtractions.\<close>

lemma remaining_origin_milliseconds_exact:
  assumes "clock_now d = Some clock"
  shows "fst (remaining_origin_milliseconds d w) =
    max 0 (min (uint (deadline_ms d) - uint (fst (clock w)) - 1000) (2 ^ 63 - 1))"
proof -
  obtain now w' where c: "clock w = (now, w')" by fastforce
  let ?d = "deadline_ms d"
  show ?thesis
  proof (cases "?d \<le> now \<or> ?d - now \<le> 1000")
    case True
    then have "uint ?d - uint now \<le> 1000"
      using uint_minus_simple_alt [of now ?d] by (auto simp: word_le_def)
    with True assms c show ?thesis
      by (auto simp: remaining_origin_milliseconds_def response_submission_reserve_ms_def)
  next
    case False
    then have "now \<le> ?d" "1000 \<le> ?d - now" by auto
    then have "uint (?d - now) = uint ?d - uint now" "uint (?d - now - 1000) = uint ?d - uint now - 1000"
      by (simp_all add: uint_minus_simple_alt)
    moreover from this have "0 < uint ?d - uint now - 1000"
      using False by (simp add: word_le_def)
    moreover have "remaining_origin_milliseconds d w = (sint (min (?d - now - 1000) long_max), w')"
      using False assms c by (simp add: remaining_origin_milliseconds_def response_submission_reserve_ms_def)
    ultimately show ?thesis
      using c by (simp add: sint_min_long_max)
  qed
qed

end
