(* ===== verification/Percent_Decode.thy ===== *)
theory Percent_Decode
  imports Prelude
begin

text \<open>
  \<^verbatim>\<open>src/http/percent_decode.hpp\<close>: the percent decoder used for the request path and
  for query keys and values. A reference encoder states its round trip.
\<close>

definition decode_nibble :: "char \<Rightarrow> byte option" where
  "decode_nibble value =
     (if char_in (CHR ''0'') (CHR ''9'') value then Some (byte_of_char value - 48)
      else if char_in (CHR ''a'') (CHR ''f'') value then Some (byte_of_char value - 97 + 10)
      else if char_in (CHR ''A'') (CHR ''F'') value then Some (byte_of_char value - 65 + 10)
      else None)"

definition decode_hex_pair :: "char \<Rightarrow> char \<Rightarrow> byte option" where
  "decode_hex_pair high low =
     (case (decode_nibble high, decode_nibble low) of
        (Some h, Some l) \<Rightarrow> Some (or (push_bit 4 h) l)
      | _ \<Rightarrow> None)"

text \<open>
  The loop over \<^verbatim>\<open>index\<close> is a recursion on the unread suffix; an escape needs two more
  characters (\<^verbatim>\<open>encoded.size() - index < 3\<close>) and consumes three.
\<close>

fun percent_decode :: "string \<Rightarrow> bool \<Rightarrow> string option" where
  "percent_decode [] plus_as_space = Some []"
| "percent_decode (c # cs) plus_as_space =
     (if c = CHR ''+'' \<and> plus_as_space
      then map_option (Cons (CHR '' '')) (percent_decode cs plus_as_space)
      else if c \<noteq> CHR ''%'' then map_option (Cons c) (percent_decode cs plus_as_space)
      else case cs of
          high # low # rest \<Rightarrow>
            (case decode_hex_pair high low of
               None \<Rightarrow> None
             | Some b \<Rightarrow> map_option (Cons (char_of_byte b)) (percent_decode rest plus_as_space))
        | _ \<Rightarrow> None)"

text \<open>The four branches of the loop body as rewrite rules.\<close>

lemma percent_decode_space: "ps \<Longrightarrow>
    percent_decode (CHR ''+'' # cs) ps = map_option (Cons (CHR '' '')) (percent_decode cs ps)"
  and percent_decode_literal: "c \<noteq> CHR ''%'' \<Longrightarrow> c \<noteq> CHR ''+'' \<or> \<not> ps \<Longrightarrow>
    percent_decode (c # cs) ps = map_option (Cons c) (percent_decode cs ps)"
  and percent_decode_escape: "percent_decode (CHR ''%'' # h # l # cs) ps =
    (case decode_hex_pair h l of None \<Rightarrow> None
     | Some b \<Rightarrow> map_option (Cons (char_of_byte b)) (percent_decode cs ps))"
  and percent_decode_truncated: "length cs < 2 \<Longrightarrow> percent_decode (CHR ''%'' # cs) ps = None"
  by (auto split: list.splits)

declare percent_decode.simps(2) [simp del]

lemmas percent_decode_rules [simp] =
  percent_decode_space percent_decode_literal percent_decode_escape percent_decode_truncated

lemma percent_decode_induct [case_names Nil space literal escape truncated]:
  assumes "\<And>ps. P [] ps"
    and "\<And>cs ps. ps \<Longrightarrow> P cs ps \<Longrightarrow> P (CHR ''+'' # cs) ps"
    and "\<And>c cs ps. c \<noteq> CHR ''%'' \<Longrightarrow> c \<noteq> CHR ''+'' \<or> \<not> ps \<Longrightarrow> P cs ps \<Longrightarrow> P (c # cs) ps"
    and "\<And>h l cs ps. P cs ps \<Longrightarrow> P (CHR ''%'' # h # l # cs) ps"
    and "\<And>cs ps. length cs < 2 \<Longrightarrow> P (CHR ''%'' # cs) ps"
  shows "P s ps"
proof (induction "length s" arbitrary: s rule: less_induct)
  case less
  show ?case
  proof (cases s)
    case (Cons c cs)
    show ?thesis
    proof (cases "c = CHR ''%''")
      case True
      show ?thesis
      proof (cases "length cs < 2")
        case False
        then obtain h l rest where "cs = h # l # rest"
          by (cases cs; cases "tl cs") auto
        with less Cons True assms(4) show ?thesis by simp
      qed (use Cons True assms(5) in simp)
    next
      case False
      have "P cs ps" using less Cons by simp
      with Cons False show ?thesis
        by (cases "c = CHR ''+'' \<and> ps") (auto intro: assms(2,3))
    qed
  qed (simp add: assms(1))
qed

section \<open>The reference encoder\<close>

definition upper_hex_digit :: "nat \<Rightarrow> char" where
  "upper_hex_digit n = (if n < 10 then char_of (48 + n) else char_of (55 + n))"

definition percent_escape :: "char \<Rightarrow> string" where
  "percent_escape c =
     [CHR ''%'', upper_hex_digit (of_char c div 16), upper_hex_digit (of_char c mod 16)]"

definition unreserved :: "char \<Rightarrow> bool" where
  "unreserved c \<longleftrightarrow> char_in (CHR ''a'') (CHR ''z'') c \<or> char_in (CHR ''A'') (CHR ''Z'') c
     \<or> char_in (CHR ''0'') (CHR ''9'') c \<or> c \<in> set ''-._~''"

definition percent_encode :: "string \<Rightarrow> string" where
  "percent_encode s = concat (map (\<lambda>c. if unreserved c then [c] else percent_escape c) s)"

lemma nibble_in_set:
  "n < (16::nat) \<Longrightarrow> n \<in> {0, 1, 2, 3, 4, 5, 6, 7} \<union> {8, 9, 10, 11, 12, 13, 14, 15}"
  by (simp, presburger)

lemma decode_nibble_upper_hex: "n < 16 \<Longrightarrow> decode_nibble (upper_hex_digit n) = Some (of_nat n)"
  by (drule nibble_in_set)
    (elim UnE insertE emptyE; simp add: upper_hex_digit_def decode_nibble_def char_in_def byte_of_char_def)

lemma unreserved_upper_hex: "n < 16 \<Longrightarrow> unreserved (upper_hex_digit n)"
  by (drule nibble_in_set)
    (elim UnE insertE emptyE; simp add: upper_hex_digit_def unreserved_def char_in_def)

lemma decode_hex_pair_upper_hex:
  assumes "h < 16" and "l < 16"
  shows "decode_hex_pair (upper_hex_digit h) (upper_hex_digit l) = Some (of_nat (16 * h + l))"
  using assms or_push_bit_of_nat [of l 4 h, where ?'a = 8]
  by (simp add: decode_hex_pair_def decode_nibble_upper_hex)

lemma char_nibbles [simp]: "of_char c div 16 < (16::nat)" and "of_char c mod 16 < (16::nat)"
  using nat_of_char_less_256 [of c] by (simp_all add: less_mult_imp_div_less)

lemma percent_escape_decodes:
  "percent_decode (percent_escape c @ s) ps = map_option (Cons c) (percent_decode s ps)"
proof -
  have "decode_hex_pair (upper_hex_digit (of_char c div 16)) (upper_hex_digit (of_char c mod 16))
     = Some (byte_of_char c)"
    by (simp add: decode_hex_pair_upper_hex byte_of_char_def)
  then show ?thesis by (simp add: percent_escape_def)
qed

lemma percent_encode_Nil [simp]: "percent_encode [] = []"
  and percent_encode_Cons [simp]:
    "percent_encode (c # s) = (if unreserved c then [c] else percent_escape c) @ percent_encode s"
  by (simp_all add: percent_encode_def)

lemma unreserved_not_special: "unreserved c \<Longrightarrow> c \<noteq> CHR ''+'' \<and> c \<noteq> CHR ''%''"
  by (auto simp: unreserved_def char_in_def)

lemma percent_encode_chars:
  "c \<in> set (percent_encode s) \<Longrightarrow> unreserved c \<or> c = CHR ''%''"
proof (induction s)
  case (Cons x s)
  then show ?case
    by (auto simp: percent_escape_def unreserved_upper_hex split: if_splits)
qed simp

lemma percent_decode_encode [simp]: "percent_decode (percent_encode s) ps = Some s"
  by (induction s) (auto simp: percent_escape_decodes dest: unreserved_not_special)

lemma map_option_append_Nil [simp]: "map_option (append []) o' = o'"
  by (cases o') auto

lemma map_option_append_Cons [simp]:
  "map_option (Cons c) (map_option (append s) o') = map_option (append (c # s)) o'"
  by (cases o') auto

lemma percent_decode_append:
  "percent_decode s ps = Some s' \<Longrightarrow>
   percent_decode (s @ t) ps = map_option (append s') (percent_decode t ps)"
  by (induction s ps arbitrary: s' rule: percent_decode_induct)
    (auto split: option.splits)

lemma percent_decode_length: "percent_decode s ps = Some t \<Longrightarrow> length t \<le> length s"
  by (induction s ps arbitrary: t rule: percent_decode_induct)
    (fastforce split: option.splits)+

lemma percent_decode_plain:
  assumes "CHR ''%'' \<notin> set s" and "ps \<longrightarrow> CHR ''+'' \<notin> set s"
  shows "percent_decode s ps = Some s"
  using assms by (induction s) auto

end
