(* ===== verification/Query.thy ===== *)
theory Query
  imports Percent_Decode
begin

text \<open>
  \<^verbatim>\<open>src/http/query.cpp\<close> and
  \<^verbatim>\<open>include/mediaproxy/http/query.hpp\<close>: the query-string parser, the lookup of the
  first value of a key, and the choice of the media options.
\<close>

record query_parameter =
  qp_key :: string
  qp_value :: string

type_synonym query_parameters = "query_parameter list"

datatype media_selector = Avatar | Emoji | Preview | Badge | Thumbnail | Ticker | Default_media

datatype preferred_output = Prefer_avif | Prefer_webp

record media_options =
  selector :: media_selector
  width_limit :: u32
  height_limit :: u32
  preferred :: preferred_output
  force_static :: bool
  url_only :: bool

section \<open>Lookup\<close>

fun query_first :: "query_parameters \<Rightarrow> string \<Rightarrow> string" where
  "query_first [] key = []"
| "query_first (p # ps) key = (if qp_key p = key then qp_value p else query_first ps key)"

definition query_boolean :: "query_parameters \<Rightarrow> string \<Rightarrow> bool" where
  "query_boolean ps key \<longleftrightarrow> query_first ps key = ''1''"

section \<open>Parsing\<close>

text \<open>The body of the loop for one field: \<open>None\<close> when nothing is pushed.\<close>

definition parse_query_field :: "string \<Rightarrow> query_parameter option" where
  "parse_query_field field =
     (if field = [] \<or> CHR '';'' \<in> set field then None
      else
        let equals = find_char (CHR ''='') field;
            encoded_key = (case equals of None \<Rightarrow> field | Some i \<Rightarrow> take i field);
            encoded_value = (case equals of None \<Rightarrow> [] | Some i \<Rightarrow> drop (Suc i) field)
        in case (percent_decode encoded_key True, percent_decode encoded_value True) of
             (Some k, Some v) \<Rightarrow> Some \<lparr>qp_key = k, qp_value = v\<rparr>
           | _ \<Rightarrow> None)"

text \<open>
  The loop, on the suffix of the query that starts at \<^verbatim>\<open>field_start\<close>: it stops after
  the field that ends at the end of the query.
\<close>

function parse_query :: "string \<Rightarrow> query_parameters" where
  "parse_query raw =
     (let field_end = find_char (CHR ''&'') raw;
          field = (case field_end of None \<Rightarrow> raw | Some e \<Rightarrow> take e raw);
          pushed = (case parse_query_field field of None \<Rightarrow> [] | Some p \<Rightarrow> [p])
      in case field_end of
           None \<Rightarrow> pushed
         | Some e \<Rightarrow> pushed @ parse_query (drop (Suc e) raw))"
  by pat_completeness auto
termination
  by (relation "measure length") (auto dest!: sym [of "Some _"] find_char_SomeD(1))

declare parse_query.simps [simp del]

section \<open>Options\<close>

definition default_options :: media_options where
  "default_options = \<lparr>selector = Default_media, width_limit = 3200, height_limit = 3200,
     preferred = Prefer_webp, force_static = False, url_only = False\<rparr>"

definition select_media_options :: "query_parameters \<Rightarrow> media_options" where
  "select_media_options ps =
     (let base =
        (if query_boolean ps ''avatar'' then
           default_options\<lparr>selector := Avatar, width_limit := 320, height_limit := 320,
             preferred := Prefer_avif\<rparr>
         else if query_boolean ps ''emoji'' then
           default_options\<lparr>selector := Emoji, width_limit := 700, height_limit := 128,
             preferred := Prefer_avif\<rparr>
         else if query_boolean ps ''preview'' then
           default_options\<lparr>selector := Preview, width_limit := 200, height_limit := 200,
             preferred := Prefer_webp\<rparr>
         else if query_boolean ps ''badge'' then
           default_options\<lparr>selector := Badge, width_limit := 96, height_limit := 96,
             preferred := Prefer_avif\<rparr>
         else if query_boolean ps ''thumbnail'' then
           default_options\<lparr>selector := Thumbnail, width_limit := 500, height_limit := 400,
             preferred := Prefer_webp\<rparr>
         else if query_boolean ps ''ticker'' then
           default_options\<lparr>selector := Ticker, width_limit := 64, height_limit := 64,
             preferred := Prefer_avif\<rparr>
         else default_options)
      in base\<lparr>force_static := query_boolean ps ''static'',
              url_only := (length ps = 1 \<and> qp_key (hd ps) = ''url'')\<rparr>)"

section \<open>The parser as a map over the fields\<close>

lemma parse_query_step:
  "parse_query (f @ CHR ''&'' # rest) =
     (case parse_query_field f of None \<Rightarrow> [] | Some p \<Rightarrow> [p]) @ parse_query rest"
  if "CHR ''&'' \<notin> set f"
  using that by (subst parse_query.simps) (simp add: find_char_append_notin Let_def)

lemma parse_query_last:
  "parse_query f = (case parse_query_field f of None \<Rightarrow> [] | Some p \<Rightarrow> [p])"
  if "CHR ''&'' \<notin> set f"
  using that find_char_None_iff [of "CHR ''&''" f]
  by (subst parse_query.simps) (simp del: find_char_None_iff add: Let_def)

lemma parse_query_map_filter:
  "parse_query raw = List.map_filter parse_query_field (split_on (CHR ''&'') raw)"
proof (induction raw rule: parse_query.induct)
  case (1 raw)
  show ?case
  proof (cases "find_char (CHR ''&'') raw")
    case None
    then have "CHR ''&'' \<notin> set raw" by simp
    then show ?thesis
      by (simp add: parse_query_last split_on_notin List.map_filter_def split: option.splits)
  next
    case (Some e)
    let ?f = "take e raw" and ?rest = "drop (Suc e) raw"
    from find_char_SomeD [OF Some]
    have raw: "raw = ?f @ CHR ''&'' # ?rest" and f: "CHR ''&'' \<notin> set ?f" by auto
    have IH: "parse_query ?rest = List.map_filter parse_query_field (split_on (CHR ''&'') ?rest)"
      using 1 Some by simp
    have "parse_query raw = parse_query (?f @ CHR ''&'' # ?rest)"
      using raw by simp
    also have "\<dots> = (case parse_query_field ?f of None \<Rightarrow> [] | Some p \<Rightarrow> [p]) @ parse_query ?rest"
      by (rule parse_query_step [OF f])
    also have "\<dots> = List.map_filter parse_query_field (split_on (CHR ''&'') (?f @ CHR ''&'' # ?rest))"
      unfolding split_on_append split_on_notin [OF f] IH
      by (simp add: List.map_filter_def split: option.splits)
    finally show ?thesis using raw by simp
  qed
qed

section \<open>Round trip with an encoder\<close>

definition encode_field :: "query_parameter \<Rightarrow> string" where
  "encode_field p = percent_encode (qp_key p) @ CHR ''='' # percent_encode (qp_value p)"

fun encode_query :: "query_parameters \<Rightarrow> string" where
  "encode_query [] = []"
| "encode_query [p] = encode_field p"
| "encode_query (p # q # ps) = encode_field p @ CHR ''&'' # encode_query (q # ps)"

lemma percent_encode_no_delims:
  "CHR ''='' \<notin> set (percent_encode s)" "CHR ''&'' \<notin> set (percent_encode s)"
  "CHR '';'' \<notin> set (percent_encode s)"
  by (auto dest!: percent_encode_chars simp: unreserved_def char_in_def)

lemma encode_field_no_amp: "CHR ''&'' \<notin> set (encode_field p)"
  by (simp add: encode_field_def percent_encode_no_delims)

lemma parse_encode_field: "parse_query_field (encode_field p) = Some p"
  by (simp add: parse_query_field_def encode_field_def percent_encode_no_delims
      find_char_append_notin)

lemma parse_encode_query_id [simp]: "parse_query (encode_query ps) = ps"
proof (induction ps rule: encode_query.induct)
  case 1
  show ?case by (simp add: parse_query_last parse_query_field_def)
next
  case (2 p)
  show ?case by (simp add: parse_query_last encode_field_no_amp parse_encode_field)
next
  case (3 p q ps)
  then show ?case by (simp add: parse_query_step encode_field_no_amp parse_encode_field)
qed

text \<open>Every list of query parameters, duplicates and arbitrary bytes included, is read back
  unchanged from its percent-encoded query string, whatever malformed field stands in front of
  it.\<close>

lemma parse_encode_query:
  assumes "parse_query_field junk = None" and "CHR ''&'' \<notin> set junk"
  shows "parse_query (junk @ CHR ''&'' # encode_query ps) = ps"
  using assms by (simp add: parse_query_step)

section \<open>Selector precedence\<close>

definition selector_table :: "(string \<times> media_selector \<times> u32 \<times> u32 \<times> preferred_output) list" where
  "selector_table =
    [(''avatar'', Avatar, 320, 320, Prefer_avif), (''emoji'', Emoji, 700, 128, Prefer_avif),
     (''preview'', Preview, 200, 200, Prefer_webp), (''badge'', Badge, 96, 96, Prefer_avif),
     (''thumbnail'', Thumbnail, 500, 400, Prefer_webp), (''ticker'', Ticker, 64, 64, Prefer_avif)]"

text \<open>The selected limits and preferred output are those of the first row of the precedence
  table whose flag has the value 1, and 3200 by 3200 WebP when no flag is set; the static and
  url-only flags do not depend on the row.\<close>

lemma select_media_options_table:
  "select_media_options ps =
     (let (sel, w, h, out) =
        (case find (\<lambda>row. query_first ps (fst row) = ''1'') selector_table of
           Some row \<Rightarrow> snd row
         | None \<Rightarrow> (Default_media, 3200, 3200, Prefer_webp))
      in \<lparr>selector = sel, width_limit = w, height_limit = h, preferred = out,
          force_static = (query_first ps ''static'' = ''1''),
          url_only = (map qp_key ps = [''url''])\<rparr>)"
proof -
  have "(length ps = 1 \<and> qp_key (hd ps) = ''url'') = (map qp_key ps = [''url''])"
    by (cases ps; cases "tl ps") auto
  then show ?thesis
    by (simp add: select_media_options_def selector_table_def query_boolean_def default_options_def)
qed

lemma select_media_options_limits:
  "width_limit (select_media_options ps) \<noteq> 0 \<and> height_limit (select_media_options ps) \<noteq> 0"
  by (simp add: select_media_options_def default_options_def Let_def)

lemma query_first_append:
  "query_first (ps @ qs) key =
     (if key \<in> qp_key ` set ps then query_first ps key else query_first qs key)"
  by (induction ps) auto

end
