(* ===== verification/Event.thy ===== *)
theory Event
  imports Query
begin

text \<open>
  \<^verbatim>\<open>src/http/event.cpp\<close> and
  \<^verbatim>\<open>include/mediaproxy/http/event.hpp\<close>: the Function URL event. The JSON reader
  (yyjson) is not part of the repository: its four functions are the fields of \<open>json_api\<close>, over
  an abstract type of values.
\<close>

record 'v json_api =
  json_read :: "string \<Rightarrow> 'v option"
  json_is_obj :: "'v \<Rightarrow> bool"
  json_get :: "'v \<Rightarrow> string \<Rightarrow> 'v option"
  json_str :: "'v \<Rightarrow> string option"

datatype request_route = Route_status | Route_media

record function_url_request =
  req_method :: string
  decoded_path :: string
  query :: query_parameters
  route :: request_route

datatype event_error = Invalid_json | Invalid_structure | Invalid_path_escape

definition json_string :: "'v json_api \<Rightarrow> 'v \<Rightarrow> string \<Rightarrow> string option" where
  "json_string api object name = Option.bind (json_get api object name) (json_str api)"

definition parse_function_url_event ::
    "'v json_api \<Rightarrow> string \<Rightarrow> event_error + function_url_request" where
  "parse_function_url_event api payload =
     (case json_read api payload of
        None \<Rightarrow> Inl Invalid_json
      | Some root \<Rightarrow>
          if \<not> json_is_obj api root then Inl Invalid_structure
          else
            let version = json_string api root ''version'';
                raw_path = json_string api root ''rawPath'';
                raw_query = json_string api root ''rawQueryString'';
                request_context = json_get api root ''requestContext'';
                http = (case request_context of
                          Some rc \<Rightarrow> if json_is_obj api rc then json_get api rc ''http'' else None
                        | None \<Rightarrow> None);
                req_meth = (case http of
                            Some h \<Rightarrow> if json_is_obj api h then json_string api h ''method'' else None
                          | None \<Rightarrow> None)
            in case (version, raw_path, raw_query, req_meth) of
                 (Some v, Some p, Some q, Some m) \<Rightarrow>
                   if v \<noteq> ''2.0'' then Inl Invalid_structure
                   else (case percent_decode p False of
                           None \<Rightarrow> Inl Invalid_path_escape
                         | Some path \<Rightarrow>
                             Inr \<lparr>req_method = m, decoded_path = path, query = parse_query q,
                                  route = (if path = ''/status'' then Route_status
                                           else Route_media)\<rparr>)
               | _ \<Rightarrow> Inl Invalid_structure)"

text \<open>What a well-formed event supplies: the four strings the parser reads.\<close>

definition event_strings ::
    "'v json_api \<Rightarrow> string \<Rightarrow> (string \<times> string \<times> string \<times> string) option" where
  "event_strings api payload =
     Option.bind (json_read api payload) (\<lambda>root.
     if \<not> json_is_obj api root then None else
     Option.bind (json_string api root ''version'') (\<lambda>v.
     Option.bind (json_string api root ''rawPath'') (\<lambda>p.
     Option.bind (json_string api root ''rawQueryString'') (\<lambda>q.
     Option.bind (json_get api root ''requestContext'') (\<lambda>rc.
     if \<not> json_is_obj api rc then None else
     Option.bind (json_get api rc ''http'') (\<lambda>h.
     if \<not> json_is_obj api h then None else
     Option.bind (json_string api h ''method'') (\<lambda>m. Some (v, p, q, m))))))))"

lemma parse_event_via_strings:
  "parse_function_url_event api payload =
     (if json_read api payload = None then Inl Invalid_json
      else case event_strings api payload of
             None \<Rightarrow> Inl Invalid_structure
           | Some (v, p, q, m) \<Rightarrow>
               if v \<noteq> ''2.0'' then Inl Invalid_structure
               else case percent_decode p False of
                      None \<Rightarrow> Inl Invalid_path_escape
                    | Some path \<Rightarrow>
                        Inr \<lparr>req_method = m, decoded_path = path, query = parse_query q,
                             route = (if path = ''/status'' then Route_status else Route_media)\<rparr>)"
  by (simp add: parse_function_url_event_def event_strings_def Let_def
      split: option.splits bind_split)

lemma parse_event_route:
  "parse_function_url_event api payload = Inr r \<Longrightarrow>
   route r = Route_status \<longleftrightarrow> decoded_path r = ''/status''"
  by (auto simp: parse_event_via_strings split: result_splits)

end
