(* ===== verification/Response.thy ===== *)
theory Response
  imports Query
begin

text \<open>
  \<^verbatim>\<open>src/http/response.cpp\<close> and
  \<^verbatim>\<open>include/mediaproxy/http/response.hpp\<close>: the response value and the four ways the
  program builds one.
\<close>

record http_header =
  header_name :: string
  header_value :: string

record http_response =
  status :: u16
  headers :: "http_header list"
  body :: bytes

datatype error_response = Bad_request | Access_denied | Invalid_image | Internal_error

definition text_response :: "u16 \<Rightarrow> string \<Rightarrow> http_response" where
  "text_response code text =
     \<lparr>status = code,
      headers = [\<lparr>header_name = ''Content-Type'', header_value = ''text/plain; charset=utf-8''\<rparr>],
      body = bytes_of_string text\<rparr>"

definition make_status_response :: http_response where
  "make_status_response =
     \<lparr>status = 200,
      headers = [\<lparr>header_name = ''Content-Type'', header_value = ''application/json''\<rparr>],
      body = bytes_of_string (''{'' @ [CHR 0x22] @ ''status'' @ [CHR 0x22] @ '':'' @ [CHR 0x22]
        @ ''OK'' @ [CHR 0x22] @ ''}'')\<rparr>"

fun make_error_response :: "error_response \<Rightarrow> http_response" where
  "make_error_response Bad_request = text_response 400 (''Bad request'' @ [LF])"
| "make_error_response Access_denied = text_response 403 (''Access denied'' @ [LF])"
| "make_error_response Invalid_image =
     text_response 400 (''Failed to resize image: invalid image?'' @ [LF])"
| "make_error_response Internal_error = text_response 500 (''Internal Server Error'' @ [LF])"

definition make_media_response :: "preferred_output \<Rightarrow> bytes \<Rightarrow> http_response" where
  "make_media_response output content =
     \<lparr>status = 200,
      headers =
        [\<lparr>header_name = ''Content-Type'',
          header_value = (if output = Prefer_avif then ''image/avif'' else ''image/webp'')\<rparr>,
         \<lparr>header_name = ''CDN-Cache-Control'', header_value = ''max-age=604800''\<rparr>,
         \<lparr>header_name = ''Cache-Control'', header_value = ''max-age=432000''\<rparr>],
      body = content\<rparr>"

text \<open>Every response of the program is one of these.\<close>

definition program_response :: "http_response \<Rightarrow> bool" where
  "program_response r \<longleftrightarrow>
     r = make_status_response \<or> r \<in> range make_error_response
     \<or> (\<exists>output content. r = make_media_response output content)"

definition cacheable :: "http_response \<Rightarrow> bool" where
  "cacheable r \<longleftrightarrow> ''Cache-Control'' \<in> header_name ` set (headers r)"

lemma program_response_intros [intro]:
  "program_response make_status_response" "program_response (make_error_response e)"
  "program_response (make_media_response out content)"
  by (auto simp: program_response_def)

lemma make_error_response_status:
  "status (make_error_response e) \<in> {400, 403, 500} \<and> \<not> cacheable (make_error_response e)"
  by (cases e) (auto simp: text_response_def cacheable_def)

lemma make_error_response_inject [simp]: "make_error_response e = make_error_response e' \<longleftrightarrow> e = e'"
  by (cases e; cases e') (auto simp: text_response_def bytes_of_string_def)

lemma program_response_cacheable:
  assumes "program_response r"
  shows "cacheable r \<longleftrightarrow> (\<exists>output content. r = make_media_response output content)"
    and "status r \<in> {200, 400, 403, 500}"
proof -
  have "\<not> cacheable make_status_response"
    by (simp add: make_status_response_def cacheable_def)
  moreover have "cacheable (make_media_response out content)" for out content
    by (simp add: make_media_response_def cacheable_def)
  ultimately show "cacheable r \<longleftrightarrow> (\<exists>output content. r = make_media_response output content)"
    using assms make_error_response_status unfolding program_response_def by blast
  show "status r \<in> {200, 400, 403, 500}"
    using assms make_error_response_status
    by (auto simp: program_response_def make_status_response_def make_media_response_def)
qed

end
