(* ===== verification/Request_Plan.thy ===== *)
theory Request_Plan
  imports Event Response
begin

text \<open>
  \<^verbatim>\<open>src/http/request_plan.cpp\<close>: what a parsed event asks for. The variant
  \<^verbatim>\<open>RequestPlan\<close> is a sum: \<open>Inl\<close> an immediate response,
  \<open>Inr\<close> a media request.
\<close>

record media_request =
  mr_method :: string
  mr_decoded_path :: string
  source_url :: string
  options :: media_options

type_synonym request_plan = "http_response + media_request"

definition plan_request :: "event_error + function_url_request \<Rightarrow> request_plan" where
  "plan_request event =
     (case event of
        Inl _ \<Rightarrow> Inl (make_error_response Bad_request)
      | Inr request \<Rightarrow>
          if route request = Route_status then Inl make_status_response
          else
            let source = query_first (query request) ''url''
            in if source = [] then Inl (make_error_response Bad_request)
               else Inr \<lparr>mr_method = req_method request, mr_decoded_path = decoded_path request,
                         source_url = source, options = select_media_options (query request)\<rparr>)"

lemma plan_request_Inl_cases:
  "plan_request event = Inl r \<Longrightarrow>
   r = make_status_response \<or> r = make_error_response Bad_request"
  by (auto simp: plan_request_def Let_def split: result_splits)

lemma plan_request_Inr:
  "plan_request event = Inr m \<Longrightarrow> source_url m \<noteq> []"
  by (auto simp: plan_request_def Let_def split: result_splits)

text \<open>C40. An event whose four strings are present is planned from the original path and the
  original parameters: with the path percent-encoded and the parameters encoded as a query
  string, the plan is the status response exactly for the path /status, a bad request when the
  first url parameter is missing or empty, and otherwise a media request for that url with the
  options of those parameters. The method is carried along and never decides.\<close>

theorem plan_of_encoded_event:
  assumes "event_strings api payload = Some (''2.0'', percent_encode path, encode_query ps, m)"
  shows "plan_request (parse_function_url_event api payload) =
    (if path = ''/status'' then Inl make_status_response
     else if query_first ps ''url'' = [] then Inl (make_error_response Bad_request)
     else Inr \<lparr>mr_method = m, mr_decoded_path = path, source_url = query_first ps ''url'',
               options = select_media_options ps\<rparr>)"
proof -
  from assms have "json_read api payload \<noteq> None"
    by (cases "json_read api payload") (auto simp: event_strings_def)
  with assms have "parse_function_url_event api payload =
      Inr \<lparr>req_method = m, decoded_path = path, query = ps,
           route = (if path = ''/status'' then Route_status else Route_media)\<rparr>"
    by (simp add: parse_event_via_strings)
  then show ?thesis by (simp add: plan_request_def)
qed

text \<open>A concrete reader for the witness: values are association lists and strings.\<close>

datatype sample_json = Sample_string string | Sample_object "(string \<times> sample_json) list"

definition sample_api :: "sample_json \<Rightarrow> sample_json json_api" where
  "sample_api document =
     \<lparr>json_read = (\<lambda>_. Some document),
      json_is_obj = (\<lambda>v. case v of Sample_object _ \<Rightarrow> True | _ \<Rightarrow> False),
      json_get = (\<lambda>v k. case v of Sample_object kvs \<Rightarrow> map_of kvs k | _ \<Rightarrow> None),
      json_str = (\<lambda>v. case v of Sample_string s \<Rightarrow> Some s | _ \<Rightarrow> None)\<rparr>"

definition sample_event :: "string \<Rightarrow> string \<Rightarrow> string \<Rightarrow> sample_json" where
  "sample_event path q m =
     Sample_object [(''version'', Sample_string ''2.0''), (''rawPath'', Sample_string path),
       (''rawQueryString'', Sample_string q),
       (''requestContext'', Sample_object [(''http'', Sample_object [(''method'', Sample_string m)])])]"

lemma event_strings_sample [simp]:
  "event_strings (sample_api (sample_event path q m)) payload = Some (''2.0'', path, q, m)"
  by (simp add: event_strings_def sample_api_def sample_event_def json_string_def)

theorem plan_of_encoded_event_witness:
  "plan_request (parse_function_url_event
      (sample_api (sample_event (percent_encode ''/p q'')
        (encode_query [\<lparr>qp_key = ''url'', qp_value = ''https://a.b/''\<rparr>]) ''GET'')) ''{}'') =
    Inr \<lparr>mr_method = ''GET'', mr_decoded_path = ''/p q'', source_url = ''https://a.b/'',
         options = select_media_options [\<lparr>qp_key = ''url'', qp_value = ''https://a.b/''\<rparr>]\<rparr>"
  by (subst plan_of_encoded_event [OF event_strings_sample]) simp

end
