(* ===== verification/Download_Protocol.thy ===== *)
theory Download_Protocol
  imports Origin_Download
begin

text \<open>
  What a download does to the outside, as a protocol. The interfaces of a download are wrapped so that every
  call leaves an event; a small automaton says which sequences of events one download may leave, and the
  theorems show that every download, on any interfaces, leaves such a sequence and behaves otherwise as
  without the wrapping.
\<close>

datatype api_event =
    Ev_remaining int | Ev_lookup string string | Ev_create "nat option"
  | Ev_perform nat "curl_setting list" | Ev_response_code nat | Ev_destroy nat

type_synonym 'w logging = "'w \<times> api_event list"

definition logged_timeout :: "'w origin_timeout_api \<Rightarrow> 'w logging origin_timeout_api" where
  "logged_timeout t = \<lparr>remaining_milliseconds =
     map_option (\<lambda>f (w, l). case f w of (ms, w') \<Rightarrow> (ms, (w', l @ [Ev_remaining ms])))
       (remaining_milliseconds t)\<rparr>"

definition logged_resolver :: "'w resolver_api \<Rightarrow> 'w logging resolver_api" where
  "logged_resolver r = \<lparr>lookup =
       map_option (\<lambda>f host service (w, l). case f host service w of
         (answer, w') \<Rightarrow> (answer, (w', l @ [Ev_lookup host service]))) (lookup r),
     release_present = release_present r\<rparr>"

definition logged_transport :: "'w origin_transport_api \<Rightarrow> 'w logging origin_transport_api" where
  "logged_transport tr =
     \<lparr>easy_create = map_option (\<lambda>f (w, l). case f w of (h, w') \<Rightarrow> (h, (w', l @ [Ev_create h]))) (easy_create tr),
      easy_destroy = map_option (\<lambda>f h (w, l). (f h w, l @ [Ev_destroy h])) (easy_destroy tr),
      easy_perform = map_option (\<lambda>f h ss (w, l). case f h ss w of
         (answer, w') \<Rightarrow> (answer, (w', l @ [Ev_perform h ss]))) (easy_perform tr),
      easy_response_code = map_option (\<lambda>f h (w, l). case f h w of
         (answer, w') \<Rightarrow> (answer, (w', l @ [Ev_response_code h]))) (easy_response_code tr)\<rparr>"

definition logged :: "('u, 'w) origin_apis \<Rightarrow> ('u, 'w logging) origin_apis" where
  "logged A = \<lparr>url_policy_env = url_policy_env A, timeout_api = logged_timeout (timeout_api A),
     resolver_of = logged_resolver (resolver_of A), transport_api = logged_transport (transport_api A),
     setopt_accepts = setopt_accepts A, slist_accepts = slist_accepts A,
     alloc_accepts = alloc_accepts A, ca_bundle = ca_bundle A\<rparr>"

section \<open>The protocol\<close>

text \<open>
  A request that may be performed: the options are those of the transfer contract for an origin
  the URL policy accepts and a pin with one to 64 public addresses, with a positive time limit.
\<close>

definition request_safe :: "'u url_env \<Rightarrow> bytes \<Rightarrow> int \<Rightarrow> curl_setting list \<Rightarrow> bool" where
  "request_safe env ca t ss \<longleftrightarrow>
     (\<exists>u addresses pin. validate_origin_url env (canonical_url u) = Inr u
        \<and> addresses \<noteq> [] \<and> length addresses \<le> 64 \<and> list_all public_address addresses
        \<and> pin_list pin = Some (c_str (pin_text (inet env) u addresses))
        \<and> 0 < t \<and> ca \<noteq> [] \<and> ss = origin_settings ca u pin t)"

text \<open>
  The phases of a hop: nothing begun; the first look at the clock was positive; the name was looked up; the
  second look gave that many milliseconds; the handle is open; the transfer ran; its status was asked for;
  and the end after a failure.
\<close>

datatype hop_phase =
    Idle | Checked | Looked_up | Timed int | Opened nat int | Performed nat | Answered nat | Stopped

fun hop_next :: "'u url_env \<Rightarrow> bytes \<Rightarrow> hop_phase \<Rightarrow> api_event \<Rightarrow> hop_phase option" where
  "hop_next env ca Idle (Ev_remaining t) = Some (if 0 < t then Checked else Stopped)"
| "hop_next env ca Checked (Ev_lookup host service) = Some Looked_up"
| "hop_next env ca Checked (Ev_remaining t) = Some (if 0 < t then Timed t else Stopped)"
| "hop_next env ca Looked_up (Ev_remaining t) = Some (if 0 < t then Timed t else Stopped)"
| "hop_next env ca (Timed t) (Ev_create None) = Some Stopped"
| "hop_next env ca (Timed t) (Ev_create (Some h)) = Some (Opened h t)"
| "hop_next env ca (Opened h t) (Ev_perform h' ss) =
     (if h' = h \<and> request_safe env ca t ss then Some (Performed h) else None)"
| "hop_next env ca (Opened h t) (Ev_destroy h') = (if h' = h then Some Stopped else None)"
| "hop_next env ca (Performed h) (Ev_response_code h') = (if h' = h then Some (Answered h) else None)"
| "hop_next env ca (Performed h) (Ev_destroy h') = (if h' = h then Some Stopped else None)"
| "hop_next env ca (Answered h) (Ev_destroy h') = (if h' = h then Some Idle else None)"
| "hop_next env ca ph e = None"

fun hop_run :: "'u url_env \<Rightarrow> bytes \<Rightarrow> hop_phase \<Rightarrow> api_event list \<Rightarrow> hop_phase option" where
  "hop_run env ca ph [] = Some ph"
| "hop_run env ca ph (e # es) =
     (case hop_next env ca ph e of None \<Rightarrow> None | Some ph' \<Rightarrow> hop_run env ca ph' es)"

text \<open>The phases in which no handle is open.\<close>

fun at_rest :: "hop_phase \<Rightarrow> bool" where
  "at_rest Idle = True"
| "at_rest Checked = True"
| "at_rest Looked_up = True"
| "at_rest Stopped = True"
| "at_rest ph = False"

definition accepted_log :: "'u url_env \<Rightarrow> bytes \<Rightarrow> api_event list \<Rightarrow> bool" where
  "accepted_log env ca es \<longleftrightarrow> (case hop_run env ca Idle es of None \<Rightarrow> False | Some ph \<Rightarrow> at_rest ph)"

fun is_perform :: "api_event \<Rightarrow> bool" where
  "is_perform (Ev_perform h ss) = True"
| "is_perform e = False"

definition performs :: "api_event list \<Rightarrow> nat" where
  "performs es = length (filter is_perform es)"

lemma performs_simps [simp]:
  "performs [] = 0" "performs (e # es) = (if is_perform e then 1 else 0) + performs es"
  "performs (es @ fs) = performs es + performs fs"
  by (simp_all add: performs_def)

lemma hop_run_append:
  "hop_run env ca ph (es @ fs) =
     (case hop_run env ca ph es of None \<Rightarrow> None | Some ph' \<Rightarrow> hop_run env ca ph' fs)"
  by (induction es arbitrary: ph) (auto split: option.splits)

section \<open>The wrapped interfaces\<close>

lemma logged_simps [simp]:
  "url_policy_env (logged A) = url_policy_env A" "timeout_api (logged A) = logged_timeout (timeout_api A)"
  "resolver_of (logged A) = logged_resolver (resolver_of A)"
  "transport_api (logged A) = logged_transport (transport_api A)"
  "setopt_accepts (logged A) = setopt_accepts A" "slist_accepts (logged A) = slist_accepts A"
  "alloc_accepts (logged A) = alloc_accepts A" "ca_bundle (logged A) = ca_bundle A"
  by (simp_all add: logged_def)

lemma valid_logged [simp]:
  "valid_transport (logged_transport tr) = valid_transport tr"
  "valid_timeout (logged_timeout t) = valid_timeout t"
  by (simp_all add: valid_transport_def valid_timeout_def logged_transport_def logged_timeout_def)

lemma remaining_logged:
  "valid_timeout t \<Longrightarrow> the (remaining_milliseconds (logged_timeout t)) (w, l) =
     (case the (remaining_milliseconds t) w of (ms, w') \<Rightarrow> (ms, (w', l @ [Ev_remaining ms])))"
  by (auto simp: valid_timeout_def logged_timeout_def)

lemma transport_logged:
  assumes "valid_transport tr"
  shows "the (easy_create (logged_transport tr)) (w, l) =
      (case the (easy_create tr) w of (h, w') \<Rightarrow> (h, (w', l @ [Ev_create h])))"
    and "the (easy_destroy (logged_transport tr)) i (w, l) =
      (the (easy_destroy tr) i w, l @ [Ev_destroy i])"
    and "the (easy_perform (logged_transport tr)) i ss (w, l) =
      (case the (easy_perform tr) i ss w of (answer, w') \<Rightarrow> (answer, (w', l @ [Ev_perform i ss])))"
    and "the (easy_response_code (logged_transport tr)) i (w, l) =
      (case the (easy_response_code tr) i w of (answer, w') \<Rightarrow> (answer, (w', l @ [Ev_response_code i])))"
  using assms by (auto simp: valid_transport_def logged_transport_def)

lemma resolve_logged:
  obtains es where "resolve_by (logged A) u (w, l) =
      (fst (resolve_by A u w), (snd (resolve_by A u w), l @ es))"
    and "es = [] \<or> (\<exists>host service. es = [Ev_lookup host service])"
proof -
  have "\<exists>es. resolve_by (logged A) u (w, l) =
      (fst (resolve_by A u w), (snd (resolve_by A u w), l @ es))
      \<and> (es = [] \<or> (\<exists>host service. es = [Ev_lookup host service]))"
    by (auto simp: resolve_origin_addresses_def logged_resolver_def Let_def
        split: option.splits prod.splits sum.splits if_splits)
  with that show thesis by blast
qed

text \<open>The work on an open handle: what it leaves, and that only a hop without error asks for the
  status.\<close>

lemma transfer_logged:
  assumes "valid_transport (transport_api A)" and "dl_error res = None"
    and "transfer_on_handle A u pin t h res w = (r, w')"
  obtains es where "transfer_on_handle (logged A) u pin t h res (w, l) = (r, (w', l @ es))"
    and "es = [] \<or> (pin_matches pin u \<and> 0 < t \<and> ca_bundle A \<noteq> []
      \<and> (es = [Ev_perform h (origin_settings (ca_bundle A) u pin t)]
         \<or> es = [Ev_perform h (origin_settings (ca_bundle A) u pin t), Ev_response_code h]))"
    and "dl_error r = None \<Longrightarrow>
      es = [Ev_perform h (origin_settings (ca_bundle A) u pin t), Ev_response_code h]"
proof (cases "configure_origin_curl (setopt_accepts A) (ca_bundle A) (Some []) u pin t")
  case (Pair config easy)
  show thesis
  proof (cases config)
    case (Some e)
    with assms Pair show thesis
      by (intro that [of "[]"]) (auto simp: transfer_on_handle_def)
  next
    case None
    from Pair [unfolded None] obtain "easy = Some (origin_settings (ca_bundle A) u pin t)"
      and match: "pin_matches pin u" "0 < t" "ca_bundle A \<noteq> []"
      by (elim configure_None) simp
    note cfg = Pair [unfolded this None]
    let ?ss = "origin_settings (ca_bundle A) u pin t"
    obtain events code w1 where p: "the (easy_perform (transport_api A)) h ?ss w = ((events, code), w1)"
      by (metis prod.collapse)
    obtain info st w2 where q: "the (easy_response_code (transport_api A)) h w1 = ((info, st), w2)"
      by (metis prod.collapse)
    let ?acc = "fold (receive (alloc_accepts A)) events (dl_response res)"
    note defs = transfer_on_handle_def transport_logged [OF assms(1)] Let_def
    show thesis
    proof (cases "code \<noteq> curle_ok \<and> \<not> is_body_limit_completion code ?acc")
      case True
      with assms(3) cfg p match show thesis
        by (intro that [of "[Ev_perform h ?ss]"]) (auto simp: defs)
    next
      case False
      with assms(3) cfg p q match show thesis
        by (intro that [of "[Ev_perform h ?ss, Ev_response_code h]"]) (auto simp: defs)
    qed
  qed
qed

section \<open>One hop\<close>

lemma resolved_request_safe:
  assumes "resolve_by A u w = (Inr addresses, w')" and "pin_matches (pin_by A u addresses) u" and "0 < t"
    and "ca_bundle A \<noteq> []"
  shows "request_safe (url_policy_env A) (ca_bundle A) t
    (origin_settings (ca_bundle A) u (pin_by A u addresses) t)"
proof -
  have "pin_ok (pin_by A u addresses)" using assms(2) by (simp add: pin_matches_def)
  from create_pin_okD(3) [OF this] res.resolved_addresses [OF assms(1)] assms(3,4) show ?thesis
    unfolding request_safe_def by (intro exI conjI) (auto simp: maximum_dns_candidates_def)
qed

definition hop_log :: "('u, 'w) origin_apis \<Rightarrow> hop_phase \<Rightarrow> api_event list \<Rightarrow> bool \<Rightarrow> bool" where
  "hop_log A start es ok \<longleftrightarrow>
     (case hop_run (url_policy_env A) (ca_bundle A) start es of None \<Rightarrow> False
      | Some ph \<Rightarrow> at_rest ph \<and> performs es \<le> 1 \<and> (ok \<longrightarrow> ph = Idle \<and> performs es = 1))"

lemma request_logged:
  assumes valid: "valid_transport (transport_api A)" "valid_timeout (timeout_api A)"
    and addresses: "resolve_by A u w0 = (Inr as, w1)" and ok: "dl_error res = None"
    and run: "request_with_addresses A u as res w = (r, w')"
    and start: "start \<in> {Checked, Looked_up}"
  obtains es where "request_with_addresses (logged A) u as res (w, l) = (r, (w', l @ es))"
    and "hop_log A start es (dl_error r = None)"
proof -
  let ?pin = "pin_by A u as"
  note defs = request_with_addresses_def Let_def remaining_logged [OF valid(2)] valid
    transport_logged [OF valid(1)] hop_log_def
  obtain t w1 where t: "the (remaining_milliseconds (timeout_api A)) w = (t, w1)" by fastforce
  obtain e w2 where e: "the (easy_create (transport_api A)) w1 = (e, w2)" by fastforce
  consider "\<not> pin_ok ?pin" | "pin_ok ?pin" "t \<le> 0" | "pin_ok ?pin" "0 < t" "e = None"
    | h where "pin_ok ?pin" "0 < t" "e = Some h" by fastforce
  then show thesis
  proof cases
    case 1
    with run start show thesis by (intro that [of "[]"]) (auto simp: defs)
  next
    case 2
    with run start t show thesis by (intro that [of "[Ev_remaining t]"]) (auto simp: defs)
  next
    case 3
    with run start t e show thesis
      by (intro that [of "[Ev_remaining t, Ev_create None]"]) (auto simp: defs)
  next
    case 4
    obtain r' w3 where tr: "transfer_on_handle A u ?pin t h (res\<lparr>dl_pin_error := pin_error ?pin\<rparr>) w2 = (r', w3)"
      by fastforce
    with 4 run t e have r: "r' = r" "w' = the (easy_destroy (transport_api A)) h w3"
      by (simp_all add: request_with_addresses_def)
    have "dl_error (res\<lparr>dl_pin_error := pin_error ?pin\<rparr>) = None" using ok by simp
    from transfer_logged [OF valid(1) this tr, of "l @ [Ev_remaining t, Ev_create (Some h)]"]
    obtain es where logs: "transfer_on_handle (logged A) u ?pin t h (res\<lparr>dl_pin_error := pin_error ?pin\<rparr>)
        (w2, l @ [Ev_remaining t, Ev_create (Some h)]) = (r', (w3, (l @ [Ev_remaining t, Ev_create (Some h)]) @ es))"
      and es: "es = [] \<or> (pin_matches ?pin u \<and> 0 < t \<and> ca_bundle A \<noteq> []
        \<and> (es = [Ev_perform h (origin_settings (ca_bundle A) u ?pin t)]
           \<or> es = [Ev_perform h (origin_settings (ca_bundle A) u ?pin t), Ev_response_code h]))"
      and good: "dl_error r' = None \<Longrightarrow>
        es = [Ev_perform h (origin_settings (ca_bundle A) u ?pin t), Ev_response_code h]"
      by blast
    have safe: "request_safe (url_policy_env A) (ca_bundle A) t (origin_settings (ca_bundle A) u ?pin t)"
      if "es \<noteq> []"
      using es that resolved_request_safe [OF addresses] by blast
    have "hop_log A start ([Ev_remaining t, Ev_create (Some h)] @ es @ [Ev_destroy h]) (dl_error r = None)"
      using es safe good start 4(2) r(1) by (cases "dl_error r") (auto simp: hop_log_def)
    moreover have "request_with_addresses (logged A) u as res (w, l) =
        (r, (w', l @ [Ev_remaining t, Ev_create (Some h)] @ es @ [Ev_destroy h]))"
      using 4 t e logs r by (simp add: defs)
    ultimately show thesis by (rule that [rotated])
  qed
qed

lemma hop_logged:
  assumes valid: "valid_transport (transport_api A)" "valid_timeout (timeout_api A)"
    and run: "perform_origin_request A u w = (r, w')"
  obtains es where "perform_origin_request (logged A) u (w, l) = (r, (w', l @ es))"
    and "hop_log A Idle es (dl_error r = None)"
proof -
  note defs = perform_origin_request_def Let_def remaining_logged [OF valid(2)] valid
  obtain t w1 where t: "the (remaining_milliseconds (timeout_api A)) w = (t, w1)" by fastforce
  obtain res w2 where res: "resolve_by A u w1 = (res, w2)" by fastforce
  obtain ls where look: "resolve_by (logged A) u (w1, l @ [Ev_remaining t]) =
      (fst (resolve_by A u w1), (snd (resolve_by A u w1), (l @ [Ev_remaining t]) @ ls))"
    and ls: "ls = [] \<or> (\<exists>host service. ls = [Ev_lookup host service])"
    by (rule resolve_logged)
  note look = look [unfolded res fst_conv snd_conv]
  consider "t \<le> 0" | e where "0 < t" "res = Inl e" | as where "0 < t" "res = Inr as"
    by (cases res) fastforce+
  then show thesis
  proof cases
    case 1
    with run t show thesis
      by (intro that [of "[Ev_remaining t]"]) (auto simp: defs hop_log_def)
  next
    case 2
    with run t res look ls show thesis
      by (intro that [of "Ev_remaining t # ls"]) (auto simp: defs hop_log_def)
  next
    case 3
    with run t res have rest: "request_with_addresses A u as (empty_result\<lparr>dl_resolution := Inr as\<rparr>) w2 = (r, w')"
      by (simp add: defs)
    let ?from = "if ls = [] then Checked else Looked_up"
    have ok: "dl_error (empty_result\<lparr>dl_resolution := Inr as\<rparr>) = None" by (simp add: empty_result_def)
    obtain es where es: "request_with_addresses (logged A) u as (empty_result\<lparr>dl_resolution := Inr as\<rparr>)
        (w2, l @ Ev_remaining t # ls) = (r, (w', (l @ Ev_remaining t # ls) @ es))"
      and log: "hop_log A ?from es (dl_error r = None)"
      by (rule request_logged [OF valid res [unfolded 3] ok rest, where start = ?from and l = "l @ Ev_remaining t # ls"]) auto
    have "hop_log A Idle (Ev_remaining t # ls @ es) (dl_error r = None)"
      using log ls 3(1) by (auto simp: hop_log_def split: option.splits)
    moreover have "perform_origin_request (logged A) u (w, l) = (r, (w', l @ Ev_remaining t # ls @ es))"
      using 3 t look es by (simp add: defs)
    ultimately show thesis by (rule that [rotated])
  qed
qed

section \<open>The loop over redirects\<close>

definition loop_log ::
    "('u, 'w) origin_apis \<Rightarrow> nat \<Rightarrow> api_event list \<Rightarrow> origin_download_result \<Rightarrow> bool" where
  "loop_log A followed es r \<longleftrightarrow>
     accepted_log (url_policy_env A) (ca_bundle A) es \<and> followed \<le> dl_redirect_count r \<and> dl_redirect_count r \<le> 10
     \<and> performs es + followed \<le> Suc (dl_redirect_count r)
     \<and> (dl_error r = None \<longrightarrow> performs es + followed = Suc (dl_redirect_count r))"

lemma loop_log_last:
  assumes "hop_log A Idle es (dl_error hop = None)" and "after_hop A tr hop = Inl r"
    and "redirect_count tr \<le> 10"
  shows "loop_log A (redirect_count tr) es r"
proof -
  have "dl_redirect_count r = redirect_count tr" "dl_error hop = None \<or> dl_error r \<noteq> None"
    using assms(2) by (auto simp: after_hop_def finish_result_def Let_def split: result_splits)
  with assms(1,3) show ?thesis
    by (auto simp: loop_log_def hop_log_def accepted_log_def split: option.splits)
qed

lemma loop_log_step:
  assumes "hop_log A Idle es True" and "loop_log A (Suc n) fs r"
  shows "loop_log A n (es @ fs) r"
  using assms by (auto simp: loop_log_def hop_log_def accepted_log_def hop_run_append split: option.splits)

lemma after_hop_logged [simp]: "after_hop (logged A) = after_hop A"
  by (intro ext) (simp add: after_hop_def Let_def split: option.split)

lemma loop_logged:
  assumes valid: "valid_transport (transport_api A)" "valid_timeout (timeout_api A)"
  shows "redirect_count tr \<le> 10 \<Longrightarrow>
    \<exists>es. download_loop (logged A) tr (w, l) = (fst (download_loop A tr w), (snd (download_loop A tr w), l @ es))
      \<and> loop_log A (redirect_count tr) es (fst (download_loop A tr w))"
proof (induction "10 - redirect_count tr" arbitrary: tr w l rule: less_induct)
  case less
  obtain r w' where run: "perform_origin_request A (current tr) w = (r, w')" by fastforce
  from hop_logged [OF valid run] obtain es
    where logs: "perform_origin_request (logged A) (current tr) (w, l) = (r, (w', l @ es))"
      and log: "hop_log A Idle es (dl_error r = None)" by blast
  note step = download_loop.simps [of A tr w] download_loop.simps [of "logged A" tr "(w, l)"] run logs
  show ?case
  proof (cases "after_hop A tr r")
    case (Inl r')
    then show ?thesis
      using loop_log_last [OF log Inl less.prems] by (intro exI [of _ es]) (simp add: step)
  next
    case (Inr tr')
    then have ok: "dl_error r = None" and up: "redirect_count tr < 10" "redirect_count tr' = Suc (redirect_count tr)"
      by (auto elim!: after_hop_continues simp: maximum_origin_redirects_def)
    from up less.hyps [of tr' w' "l @ es"] obtain fs
      where "download_loop (logged A) tr' (w', l @ es) =
          (fst (download_loop A tr' w'), (snd (download_loop A tr' w'), (l @ es) @ fs))"
        and "loop_log A (Suc (redirect_count tr)) fs (fst (download_loop A tr' w'))"
      by (metis Suc_leI diff_less_mono2 lessI)
    with Inr log ok show ?thesis
      using loop_log_step by (intro exI [of _ "es @ fs"]) (auto simp: step)
  qed
qed

lemma create_tracker_zero: "create_tracker validate u = Some t \<Longrightarrow> redirect_count t = 0"
  using create_tracker_inv by blast

lemma download_logged:
  "\<exists>es. download_origin (logged A) u (w, l) = (fst (download_origin A u w), (snd (download_origin A u w), l @ es))
    \<and> loop_log A 0 es (fst (download_origin A u w))"
proof (cases "valid_transport (transport_api A) \<and> valid_timeout (timeout_api A)")
  case False
  then show ?thesis
    by (intro exI [of _ "[]"]) (auto simp: download_origin_def loop_log_def accepted_log_def empty_result_def)
next
  case True
  show ?thesis
  proof (cases "create_tracker (validate_by A) u")
    case None
    with True show ?thesis
      by (intro exI [of _ "[]"]) (auto simp: download_origin_def loop_log_def accepted_log_def empty_result_def)
  next
    case (Some t)
    with True loop_logged [of A t w l] create_tracker_zero [OF Some] show ?thesis
      by (simp add: download_origin_def)
  qed
qed

section \<open>Success\<close>

definition hop_ok :: "origin_download_result \<Rightarrow> bool" where
  "hop_ok r \<longleftrightarrow> accumulator_inv (dl_response r) \<and> (dl_error r = None \<longrightarrow> acc_error (dl_response r) = None)"

lemma hop_ok_error: "hop_ok r \<Longrightarrow> dl_error r' \<noteq> None \<Longrightarrow> dl_response r' = dl_response r \<Longrightarrow> hop_ok r'"
  by (auto simp: hop_ok_def)

lemma transfer_result: "hop_ok res \<Longrightarrow> hop_ok (fst (transfer_on_handle A u pin t h res w))"
  by (auto simp: transfer_on_handle_def Let_def hop_ok_def intro!: receive_all_inv split: prod.splits)

lemma request_result:
  assumes "hop_ok res"
  shows "hop_ok (fst (request_with_addresses A u as res w))"
proof -
  let ?res = "res\<lparr>dl_pin_error := pin_error (pin_by A u as)\<rparr>"
  have "hop_ok ?res" using assms by (simp add: hop_ok_def)
  then have "hop_ok r" if "transfer_on_handle A u (pin_by A u as) t h ?res w1 = (r, w2)" for t h w1 r w2
    using transfer_result [of ?res A u "pin_by A u as" t h w1] that by simp
  with assms show ?thesis
    by (auto simp: request_with_addresses_def Let_def split: prod.split option.split intro: hop_ok_error)
qed

lemma hop_result: "hop_ok (fst (perform_origin_request A u w))"
proof -
  have e: "hop_ok empty_result" by (simp add: hop_ok_def empty_result_def empty_accumulator_def accumulator_inv_def)
  then have "hop_ok (empty_result\<lparr>dl_resolution := x\<rparr>)" for x by (simp add: hop_ok_def)
  from request_result [OF this] e show ?thesis
    by (auto simp: perform_origin_request_def Let_def split: prod.split sum.split intro: hop_ok_error)
qed

lemma finish_result_ok:
  assumes "accumulator_inv (dl_response r)" and "dl_error r = None"
  shows "dl_error (finish_result r) = None \<Longrightarrow> acc_error (dl_response r) = None \<and> dl_status r = 200
      \<and> dl_response (finish_result r) = dl_response r"
    and "accumulator_inv (dl_response (finish_result r))"
  using assms finish_inv [of "dl_response r" "dl_status r"]
  by (auto simp: finish_result_def finish_def Let_def split: if_splits)

definition success_ok :: "origin_download_result \<Rightarrow> bool" where
  "success_ok r \<longleftrightarrow> accumulator_inv (dl_response r)
     \<and> (dl_error r = None \<longrightarrow> dl_status r = 200 \<and> acc_error (dl_response r) = None)"

lemma after_hop_success:
  assumes "accumulator_inv (dl_response hop)" and "after_hop A tr hop = Inl r"
  shows "success_ok r"
proof -
  let ?hop = "hop\<lparr>dl_redirect_count := redirect_count tr\<rparr>"
  have "(r = finish_result ?hop \<and> dl_error hop = None)
      \<or> (dl_error r \<noteq> None \<and> dl_response r = dl_response hop)"
    using assms(2) unfolding after_hop_def Let_def by (auto split: result_splits)
  then consider "r = finish_result ?hop" "dl_error ?hop = None"
    | "dl_error r \<noteq> None" "dl_response r = dl_response hop" by auto
  then show ?thesis
  proof cases
    case 1
    have "accumulator_inv (dl_response ?hop)" using assms(1) by simp
    note fin = finish_result_ok [OF this 1(2)]
    from fin(1) fin(2) show ?thesis unfolding success_ok_def 1(1) by (simp add: finish_result_def Let_def split: prod.splits)
  next
    case 2
    with assms(1) show ?thesis by (auto simp: success_ok_def)
  qed
qed

lemma loop_success: "success_ok (fst (download_loop A tr w))"
proof (induction A tr w rule: download_loop.induct)
  case (1 A tr w)
  obtain r w' where run: "perform_origin_request A (current tr) w = (r, w')" by fastforce
  from hop_result [of A "current tr" w] run have "accumulator_inv (dl_response r)" by (simp add: hop_ok_def)
  with 1 [OF run [symmetric] refl] run show ?case
    by (subst download_loop.simps) (auto intro: after_hop_success split: sum.splits)
qed

lemma download_success: "success_ok (fst (download_origin A u w))"
proof -
  have "success_ok r" if "dl_response r = empty_accumulator" "dl_error r \<noteq> None" for r
    using that by (auto simp: success_ok_def)
  with loop_success [of A] show ?thesis
    by (auto simp: download_origin_def empty_result_def split: option.split)
qed

section \<open>Sample interfaces for the witnesses\<close>

definition sample_apis :: "bytes \<Rightarrow> (string, 'w) origin_apis" where
  "sample_apis b = \<lparr>url_policy_env = sample_env,
     timeout_api = \<lparr>remaining_milliseconds = Some (\<lambda>w. (50, w))\<rparr>,
     resolver_of = sample_resolver [[8, 8, 8, 8]],
     transport_api = \<lparr>easy_create = Some (\<lambda>w. (Some 7, w)), easy_destroy = Some (\<lambda>h w. w),
       easy_perform = Some (\<lambda>h ss w. (([Body_data b], 0), w)),
       easy_response_code = Some (\<lambda>h w. ((0, 200), w))\<rparr>,
     setopt_accepts = (\<lambda>_ _. True), slist_accepts = (\<lambda>_. True), alloc_accepts = (\<lambda>_. True),
     ca_bundle = [1]\<rparr>"

lemma sample_download:
  fixes w :: 'w
  assumes "length b \<le> 10485760"
  shows "let r = fst (download_origin (sample_apis b) (sample_origin ''a.example'' ''/x'') w)
     in dl_error r = None \<and> acc_body (dl_response r) = b
       \<and> snd (download_origin (sample_apis b) (sample_origin ''a.example'' ''/x'') w) = w"
proof -
  let ?o = "sample_origin ''a.example'' ''/x''"
  let ?as = "[\<lparr>family = Ipv4, addr_bytes = fill16 [8, 8, 8, 8]\<rparr>]"
  have c: "create_tracker (validate_origin_url sample_env) ?o = Some (initial_tracker ?o)"
    using sample_create [of "''/x''"] by (simp add: sample_tracker_def NUL_def)
  have cur: "current (initial_tracker ?o) = ?o" by (simp add: initial_tracker_def)
  have res: "resolve_by (sample_apis b) ?o w = (Inr ?as, w)"
    using sample_resolve [of "''/x''" w] by (simp add: sample_apis_def NUL_def del: fill16_Cons)
  have pin: "pin_ok (pin_by (sample_apis b :: (string, 'w) origin_apis) ?o ?as)"
    using sample_pin_ok [of "''/x''"] by (simp add: sample_apis_def NUL_def del: fill16_Cons)
  have cfg: "configure_origin_curl (\<lambda>_ _. True) [1] (Some []) ?o (pin_by (sample_apis b :: (string, 'w) origin_apis) ?o ?as) 50 =
      (None, Some (origin_settings [1] ?o (pin_by (sample_apis b :: (string, 'w) origin_apis) ?o ?as) 50))"
    using create_pin_okD(1) [OF pin] by (simp add: configure_origin_curl_def origin_settings_def set_option_def)
  have limits: "timeout_api (sample_apis b :: (string, 'w) origin_apis) = \<lparr>remaining_milliseconds = Some (\<lambda>w. (50, w))\<rparr>"
    "transport_api (sample_apis b :: (string, 'w) origin_apis) = \<lparr>easy_create = Some (\<lambda>w. (Some 7, w)), easy_destroy = Some (\<lambda>h w. w),
       easy_perform = Some (\<lambda>h ss w. (([Body_data b], 0), w)),
       easy_response_code = Some (\<lambda>h w. ((0, 200), w))\<rparr>"
    "setopt_accepts (sample_apis b :: (string, 'w) origin_apis) = (\<lambda>_ _. True)"
    "alloc_accepts (sample_apis b :: (string, 'w) origin_apis) = (\<lambda>_. True)"
    "ca_bundle (sample_apis b :: (string, 'w) origin_apis) = [1]" "url_policy_env (sample_apis b :: (string, 'w) origin_apis) = sample_env"
    by (simp_all add: sample_apis_def)
  note go = limits valid_transport_def valid_timeout_def
  have "request_with_addresses (sample_apis b) ?o ?as (empty_result\<lparr>dl_resolution := Inr ?as\<rparr>) w =
      (empty_result\<lparr>dl_resolution := Inr ?as, dl_response := empty_accumulator\<lparr>acc_body := b\<rparr>,
         dl_status := 200\<rparr>, w)"
    using pin cfg assms by (simp add: request_with_addresses_def transfer_on_handle_def go pin_ok_def empty_result_def
        empty_accumulator_def append_body_def maximum_origin_body_bytes_def curle_ok_def Let_def
        del: fill16_Cons)
  with res have "perform_origin_request (sample_apis b) ?o w =
      (empty_result\<lparr>dl_resolution := Inr ?as, dl_response := empty_accumulator\<lparr>acc_body := b\<rparr>,
         dl_status := 200\<rparr>, w)"
    by (simp add: perform_origin_request_def go Let_def del: fill16_Cons)
  with c cur show ?thesis
    unfolding download_origin_def
    by (simp add: go download_loop.simps [of "sample_apis b :: (string, 'w) origin_apis"] after_hop_def
        finish_result_def finish_def empty_result_def empty_accumulator_def Let_def del: fill16_Cons)
qed

section \<open>What an accepted log says of its requests\<close>

lemma hop_next_perform:
  "hop_next env ca ph (Ev_perform h ss) = Some ph' \<Longrightarrow> \<exists>t. request_safe env ca t ss"
  by (cases ph) (auto split: if_splits)

lemma hop_run_perform:
  "hop_run env ca ph es = Some ph' \<Longrightarrow> Ev_perform h ss \<in> set es \<Longrightarrow> \<exists>t. request_safe env ca t ss"
  by (induction es arbitrary: ph) (auto split: option.splits dest: hop_next_perform)

lemma accepted_perform:
  assumes "accepted_log env ca es" and "Ev_perform h ss \<in> set es"
  obtains t where "request_safe env ca t ss"
  using assms hop_run_perform [of env ca Idle es] by (auto simp: accepted_log_def split: option.splits)

lemma performs_pos: "0 < performs es \<Longrightarrow> \<exists>h ss. Ev_perform h ss \<in> set es"
  by (auto simp: performs_def filter_empty_conv elim!: is_perform.elims)

section \<open>Properties\<close>

text \<open>C4. Every request a download performs, on whatever clock, resolver and transfer library, goes
  to a URL the policy accepts, with the connection pinned to one to 64 public addresses, https as
  the only protocol, no redirect following by the library, peer and host verified against the
  embedded bundle, and a positive limit on the whole transfer.\<close>

theorem performed_requests_safe:
  assumes "Ev_perform h ss \<in> set (snd (snd (download_origin (logged A) u (w, []))))"
  shows "\<exists>v addresses t. validate_origin_url (url_policy_env A) (canonical_url v) = Inr v
      \<and> well_formed_origin public_address v
      \<and> addresses \<noteq> [] \<and> length addresses \<le> 64 \<and> list_all public_address addresses \<and> 0 < t
      \<and> length ss = 20
      \<and> {Set_url (c_str (canonical_url v)),
          Set_resolve (Some (c_str (hostname v @ '':'' @ nat_to_string (unat (port v)) @ '':''
            @ comma_separated (map (pin_address_text (inet (url_policy_env A))) addresses)))),
          Set_protocols ''https'', Set_redir_protocols ''https'', Set_followlocation 0,
          Set_ssl_verifypeer 1, Set_ssl_verifyhost 2, Set_cainfo_blob (ca_bundle A),
          Set_connecttimeout_ms t, Set_timeout_ms t} \<subseteq> set ss"
proof -
  obtain es where "download_origin (logged A) u (w, []) =
      (fst (download_origin A u w), (snd (download_origin A u w), es))"
    and "accepted_log (url_policy_env A) (ca_bundle A) es"
    using download_logged [of A u w "[]"] by (auto simp: loop_log_def)
  with assms obtain t where "request_safe (url_policy_env A) (ca_bundle A) t ss"
    by (auto elim: accepted_perform)
  then obtain v addresses pin where "validate_origin_url (url_policy_env A) (canonical_url v) = Inr v"
    "addresses \<noteq> []" "length addresses \<le> 64" "list_all public_address addresses" "0 < t"
    "pin_list pin = Some (c_str (pin_text (inet (url_policy_env A)) v addresses))"
    "ss = origin_settings (ca_bundle A) v pin t"
    by (auto simp: request_safe_def)
  with up.accepted_well_formed show ?thesis
    by (intro exI [of _ v] exI [of _ addresses] exI [of _ t])
      (auto simp: origin_settings_def pin_text_def)
qed

theorem performed_requests_safe_witness:
  "\<exists>ss v. Set_followlocation 0 \<in> set ss \<and> Set_url (c_str (canonical_url v)) \<in> set ss
    \<and> well_formed_origin public_address v"
proof -
  let ?o = "sample_origin ''a.example'' ''/x''"
  obtain es where es: "snd (snd (download_origin (logged (sample_apis [1, 2])) ?o ((), []))) = es"
    and "loop_log (sample_apis [1, 2] :: (string, unit) origin_apis) 0 es (fst (download_origin (sample_apis [1, 2]) ?o ()))"
    using download_logged [of "sample_apis [1, 2]" ?o "()" "[]"] by auto
  with sample_download [of "[1, 2]" "()"] have "0 < performs es" by (simp add: loop_log_def Let_def)
  then obtain h ss where "Ev_perform h ss \<in> set es" using performs_pos by blast
  with performed_requests_safe [of h ss "sample_apis [1, 2]" ?o "()"] es show ?thesis by fastforce
qed

text \<open>C7. Every download, on any interfaces, behaves as without the wrapping and leaves a log the
  protocol accepts: each hop looks at the clock, resolves, looks at the clock again, opens one
  handle, performs at most one request on it and closes it on every path before the next hop, and
  there are at most eleven requests.\<close>

theorem download_follows_protocol:
  "case download_origin (logged A) u (w, []) of (r, (w', es)) \<Rightarrow>
     download_origin A u w = (r, w') \<and> accepted_log (url_policy_env A) (ca_bundle A) es
     \<and> performs es \<le> 11"
  using download_logged [of A u w "[]"] by (auto simp: loop_log_def)

text \<open>C8. A download without error ended on status 200 after at most ten redirects, with no error
  recorded by the accumulator and a body of at most ten mebibytes.\<close>

theorem download_success_result:
  assumes "dl_error (fst (download_origin A u w)) = None"
  shows "dl_status (fst (download_origin A u w)) = 200 \<and> dl_redirect_count (fst (download_origin A u w)) \<le> 10
    \<and> acc_error (dl_response (fst (download_origin A u w))) = None
    \<and> length (acc_body (dl_response (fst (download_origin A u w)))) \<le> 10 * 1024 * 1024"
  using assms download_success [of A u w] download_logged [of A u w "[]"]
  by (auto simp: success_ok_def accumulator_inv_def maximum_origin_body_bytes_def loop_log_def)

theorem download_success_result_witness:
  "dl_status (fst (download_origin (sample_apis [1, 2]) (sample_origin ''a.example'' ''/x'') ())) = 200"
  using download_success_result [of "sample_apis [1, 2]" "sample_origin ''a.example'' ''/x''" "()"] sample_download [of "[1, 2]" "()"]
  by (simp add: Let_def)

end
