(* ===== verification/Handler.thy ===== *)
theory Handler
  imports Conversion Deadline Request_Plan Download_Protocol
begin

text \<open>
  \<^verbatim>\<open>src/handler.cpp\<close>: the way of one event to its response, through the request
  plan, the URL policy, the download and the conversion, with the diagnostics that the caller may ask for.
  The outer \<open>None\<close>
  stands for a conversion that does not return.
\<close>

datatype handler_outcome =
    Outcome_status | Outcome_bad_request | Outcome_access_denied | Outcome_origin_failure
  | Outcome_media_failure | Outcome_media_success

record handler_diagnostics =
  diag_outcome :: handler_outcome
  diag_origin_error :: "origin_download_error option"
  diag_media_error :: "media_conversion_error option"
  diag_origin_bytes :: nat
  diag_fetch_microseconds :: u64
  diag_media_microseconds :: u64

definition empty_diagnostics :: handler_diagnostics where
  "empty_diagnostics = \<lparr>diag_outcome = Outcome_bad_request, diag_origin_error = None, diag_media_error = None,
     diag_origin_bytes = 0, diag_fetch_microseconds = 0, diag_media_microseconds = 0\<rparr>"

text \<open>The libraries behind the service; \<open>steady_now\<close> reads the steady clock, in
  nanoseconds.\<close>

record ('j, 'u, 'i, 't, 'r, 'w) service_apis =
  json_of :: "'j json_api"
  origin_of :: "('u, 'w) origin_apis"
  media_of :: "('i, 't, 'r, 'w) media_apis"
  steady_now :: "'w \<Rightarrow> int \<times> 'w"

definition preferred_format :: "preferred_output \<Rightarrow> output_format" where
  "preferred_format out = (if out = Prefer_avif then Output_avif else Output_webp)"

text \<open>A negative difference counts as zero, so it does not matter how its division is rounded.\<close>

definition elapsed_microseconds :: "('w \<Rightarrow> int \<times> 'w) \<Rightarrow> int \<Rightarrow> 'w \<Rightarrow> u64 \<times> 'w" where
  "elapsed_microseconds clock start w =
     (let (now, w') = clock w; microseconds = (now - start) div 1000
      in (if 0 < microseconds then of_int microseconds else 0, w'))"

text \<open>The pointer to the diagnostics is \<open>None\<close> for a null pointer.\<close>

definition record_outcome :: "handler_outcome \<Rightarrow> handler_diagnostics option \<Rightarrow> handler_diagnostics option" where
  "record_outcome out diagnostics = map_option (\<lambda>d. d\<lparr>diag_outcome := out\<rparr>) diagnostics"

definition record_fetch ::
    "('w \<Rightarrow> int \<times> 'w) \<Rightarrow> int \<Rightarrow> origin_download_result \<Rightarrow> handler_diagnostics option \<Rightarrow> 'w
      \<Rightarrow> handler_diagnostics option \<times> 'w" where
  "record_fetch clock start downloaded diagnostics w =
     (case diagnostics of
        None \<Rightarrow> (None, w)
      | Some d \<Rightarrow>
          let (elapsed, w') = elapsed_microseconds clock start w
          in (Some (d\<lparr>diag_fetch_microseconds := elapsed, diag_origin_error := dl_error downloaded,
                      diag_origin_bytes := length (acc_body (dl_response downloaded))\<rparr>), w'))"

definition record_media ::
    "('w \<Rightarrow> int \<times> 'w) \<Rightarrow> int \<Rightarrow> media_conversion_error option \<Rightarrow> handler_diagnostics option \<Rightarrow> 'w
      \<Rightarrow> handler_diagnostics option \<times> 'w" where
  "record_media clock start failure diagnostics w =
     (case diagnostics of
        None \<Rightarrow> (None, w)
      | Some d \<Rightarrow>
          let (elapsed, w') = elapsed_microseconds clock start w
          in (Some (d\<lparr>diag_media_microseconds := elapsed, diag_media_error := failure\<rparr>), w'))"

definition conversion_failure :: "media_conversion_error + 'a \<Rightarrow> media_conversion_error option" where
  "conversion_failure converted = (case converted of Inl e \<Rightarrow> Some e | Inr _ \<Rightarrow> None)"

text \<open>The conversion of a downloaded body.\<close>

definition convert_source ::
    "('j, 'u, 'i, 't, 'r, 'w) service_apis \<Rightarrow> media_options \<Rightarrow> bytes \<Rightarrow> 'w
      \<Rightarrow> ((media_conversion_error + (output_format \<times> bytes)) \<times> 'w) option" where
  "convert_source S opts source =
     convert_media (media_of S) source (sniff_mime source) (force_static opts) (preferred_format (preferred opts))
       \<lparr>dim_width = width_limit opts, dim_height = height_limit opts\<rparr>
       (if url_only opts then Quality_url_only else Quality_standard)"

definition media_phase ::
    "('j, 'u, 'i, 't, 'r, 'w) service_apis \<Rightarrow> media_options \<Rightarrow> bytes \<Rightarrow> handler_diagnostics option \<Rightarrow> 'w
      \<Rightarrow> ((http_response \<times> handler_diagnostics option) \<times> 'w) option" where
  "media_phase S opts source diagnostics w =
     (let (start, w1) = steady_now S w
      in map_option
           (\<lambda>(converted, w2).
              let (diagnostics1, w3) = record_media (steady_now S) start (conversion_failure converted) diagnostics w2
              in case converted of
                   Inl _ \<Rightarrow> ((make_error_response Invalid_image, record_outcome Outcome_media_failure diagnostics1), w3)
                 | Inr (_, encoded) \<Rightarrow>
                     ((make_media_response (preferred opts) encoded, record_outcome Outcome_media_success diagnostics1), w3))
           (convert_source S opts source w1))"

definition fetch_phase ::
    "('j, 'u, 'i, 't, 'r, 'w) service_apis \<Rightarrow> 'w origin_timeout_api \<Rightarrow> media_options \<Rightarrow> origin_url
      \<Rightarrow> handler_diagnostics option \<Rightarrow> 'w \<Rightarrow> ((http_response \<times> handler_diagnostics option) \<times> 'w) option" where
  "fetch_phase S timeout opts origin diagnostics w =
     (let (start, w1) = steady_now S w;
          (downloaded, w2) = download_origin ((origin_of S)\<lparr>timeout_api := timeout\<rparr>) origin w1;
          (diagnostics1, w3) = record_fetch (steady_now S) start downloaded diagnostics w2
      in if dl_error downloaded \<noteq> None
         then Some ((make_error_response Internal_error, record_outcome Outcome_origin_failure diagnostics1), w3)
         else media_phase S opts (acc_body (dl_response downloaded)) diagnostics1 w3)"

text \<open>The outcome of a request that is answered from its plan.\<close>

definition planned_outcome :: "event_error + function_url_request \<Rightarrow> handler_outcome" where
  "planned_outcome parsed =
     (case parsed of
        Inr request \<Rightarrow> if route request = Route_status then Outcome_status else Outcome_bad_request
      | Inl _ \<Rightarrow> Outcome_bad_request)"

definition handle_function_url_event ::
    "('j, 'u, 'i, 't, 'r, 'w) service_apis \<Rightarrow> 'w origin_timeout_api \<Rightarrow> bytes \<Rightarrow> handler_diagnostics option \<Rightarrow> 'w
      \<Rightarrow> ((http_response \<times> handler_diagnostics option) \<times> 'w) option" where
  "handle_function_url_event S timeout event given w =
     (let diagnostics = map_option (\<lambda>_. empty_diagnostics) given;
          parsed = parse_function_url_event (json_of S) (string_of_bytes event)
      in case plan_request parsed of
           Inl response \<Rightarrow> Some ((response, record_outcome (planned_outcome parsed) diagnostics), w)
         | Inr request \<Rightarrow>
             (case validate_by (origin_of S) (source_url request) of
                Inl _ \<Rightarrow>
                  Some ((make_error_response Access_denied, record_outcome Outcome_access_denied diagnostics), w)
              | Inr origin \<Rightarrow> fetch_phase S timeout (options request) origin diagnostics w))"

text \<open>The service answers when the image decoder makes progress.\<close>

lemma handler_returns:
  assumes "decoder_progress (jxl_of (media_of S)) (webp_of (media_of S)) work lacks"
  shows "handle_function_url_event S timeout event given w \<noteq> None"
proof -
  have "convert_source S opts source w1 \<noteq> None" for opts source w1
    using convert_media_returns [OF assms] unfolding convert_source_def by fastforce
  then have "media_phase S opts source d w1 \<noteq> None" for opts source d w1
    by (simp add: media_phase_def split_def Let_def del: not_None_eq)
  then have "fetch_phase S timeout opts origin d w1 \<noteq> None" for opts origin d w1
    by (simp add: fetch_phase_def split_def Let_def del: not_None_eq)
  then show ?thesis
    by (simp add: handle_function_url_event_def Let_def split: sum.split del: not_None_eq)
qed

section \<open>Outcomes\<close>

text \<open>The response that goes with an outcome.\<close>

fun outcome_response :: "handler_outcome \<Rightarrow> http_response \<Rightarrow> bool" where
  "outcome_response Outcome_status r \<longleftrightarrow> r = make_status_response"
| "outcome_response Outcome_bad_request r \<longleftrightarrow> r = make_error_response Bad_request"
| "outcome_response Outcome_access_denied r \<longleftrightarrow> r = make_error_response Access_denied"
| "outcome_response Outcome_origin_failure r \<longleftrightarrow> r = make_error_response Internal_error"
| "outcome_response Outcome_media_failure r \<longleftrightarrow> r = make_error_response Invalid_image"
| "outcome_response Outcome_media_success r \<longleftrightarrow> (\<exists>out encoded. r = make_media_response out encoded)"

lemma outcome_response_media [simp]: "outcome_response Outcome_media_success (make_media_response out encoded)"
  by auto

declare outcome_response.simps(6) [simp del] make_error_response.simps [simp del]

lemma media_phase_outcome:
  assumes "media_phase S opts source (Some d) w = Some ((response, diagnostics), w')"
  shows "\<exists>d'. diagnostics = Some d' \<and> outcome_response (diag_outcome d') response
    \<and> diag_outcome d' \<in> {Outcome_media_failure, Outcome_media_success}
    \<and> diag_origin_error d' = diag_origin_error d \<and> diag_origin_bytes d' = diag_origin_bytes d
    \<and> (diag_media_error d' = None \<longleftrightarrow> diag_outcome d' = Outcome_media_success)"
proof -
  obtain start w1 where clock: "steady_now S w = (start, w1)" by (metis surj_pair)
  with assms obtain converted w2 where "convert_source S opts source w1 = Some (converted, w2)"
    by (auto simp: media_phase_def)
  with assms clock show ?thesis
    by (cases converted)
      (auto simp: media_phase_def record_media_def record_outcome_def conversion_failure_def Let_def split: prod.splits)
qed

lemma planned_response:
  assumes "plan_request parsed = Inl response"
  shows "outcome_response (planned_outcome parsed) response"
  using assms by (auto simp: plan_request_def planned_outcome_def Let_def split: sum.splits if_splits)

lemma fetch_phase_outcome:
  assumes "fetch_phase S timeout opts origin (Some d) w = Some ((response, diagnostics), w')"
    and "diag_media_error d = None"
  shows "\<exists>d'. diagnostics = Some d' \<and> outcome_response (diag_outcome d') response
    \<and> diag_outcome d' \<in> {Outcome_origin_failure, Outcome_media_failure, Outcome_media_success}
    \<and> (diag_origin_error d' = None \<longleftrightarrow> diag_outcome d' \<noteq> Outcome_origin_failure)
    \<and> (diag_media_error d' = None \<longleftrightarrow> diag_outcome d' \<noteq> Outcome_media_failure)"
proof -
  let ?A = "(origin_of S)\<lparr>timeout_api := timeout\<rparr>"
  obtain start w1 where clock: "steady_now S w = (start, w1)" by (metis surj_pair)
  obtain downloaded w2 where got: "download_origin ?A origin w1 = (downloaded, w2)" by (metis surj_pair)
  obtain elapsed w3 where later: "elapsed_microseconds (steady_now S) start w2 = (elapsed, w3)" by (metis surj_pair)
  let ?d = "d\<lparr>diag_fetch_microseconds := elapsed, diag_origin_error := dl_error downloaded,
    diag_origin_bytes := length (acc_body (dl_response downloaded))\<rparr>"
  have run: "(if dl_error downloaded \<noteq> None
      then Some ((make_error_response Internal_error, record_outcome Outcome_origin_failure (Some ?d)), w3)
      else media_phase S opts (acc_body (dl_response downloaded)) (Some ?d) w3) = Some ((response, diagnostics), w')"
    using assms(1) clock got later by (simp add: fetch_phase_def record_fetch_def)
  show ?thesis
  proof (cases "dl_error downloaded = None")
    case True
    with run have "media_phase S opts (acc_body (dl_response downloaded)) (Some ?d) w3 = Some ((response, diagnostics), w')"
      by simp
    from media_phase_outcome [OF this] True show ?thesis by auto
  next
    case False
    with run assms(2) show ?thesis by (auto simp: record_outcome_def)
  qed
qed


lemma handler_diagnostics_agree:
  assumes "handle_function_url_event S timeout event (Some g) w = Some ((response, diagnostics), w')"
  shows "\<exists>d. diagnostics = Some d \<and> outcome_response (diag_outcome d) response
    \<and> (diag_origin_error d = None \<longleftrightarrow> diag_outcome d \<noteq> Outcome_origin_failure)
    \<and> (diag_media_error d = None \<longleftrightarrow> diag_outcome d \<noteq> Outcome_media_failure)
    \<and> (diag_outcome d \<notin> {Outcome_origin_failure, Outcome_media_failure, Outcome_media_success} \<longrightarrow> w' = w)"
proof (cases "plan_request (parse_function_url_event (json_of S) (string_of_bytes event))")
  case (Inl r)
  with assms planned_response [OF Inl] show ?thesis
    by (auto simp: handle_function_url_event_def record_outcome_def empty_diagnostics_def planned_outcome_def split: sum.splits)
next
  case (Inr request)
  show ?thesis
  proof (cases "validate_by (origin_of S) (source_url request)")
    case (Inl e)
    with Inr assms show ?thesis
      by (auto simp: handle_function_url_event_def record_outcome_def empty_diagnostics_def)
  next
    case origin: (Inr origin)
    with Inr assms have "fetch_phase S timeout (options request) origin (Some empty_diagnostics) w = Some ((response, diagnostics), w')"
      by (simp add: handle_function_url_event_def)
    from fetch_phase_outcome [OF this] show ?thesis by (auto simp: empty_diagnostics_def)
  qed
qed

text \<open>A service that reads every event as a mere string, for the witnesses.\<close>

definition textual_service :: "(sample_json, string, int \<times> int, unit, unit, unit) service_apis" where
  "textual_service = \<lparr>json_of = sample_api (Sample_string ''x''), origin_of = sample_apis [1], media_of = sample_media,
     steady_now = Pair 0\<rparr>"

lemma textual_run:
  "handle_function_url_event textual_service timeout event (Some g) () =
     Some ((make_error_response Bad_request, Some empty_diagnostics), ())"
proof -
  have "parse_function_url_event (json_of textual_service) payload = Inl Invalid_structure" for payload
    by (simp add: textual_service_def parse_function_url_event_def sample_api_def Let_def)
  then show ?thesis
    by (simp add: handle_function_url_event_def plan_request_def planned_outcome_def record_outcome_def empty_diagnostics_def)
qed

section \<open>Properties\<close>

text \<open>C11. Whatever the event and the libraries do, an answer of the service is the one of its
  outcome, and the diagnostics agree with it: an origin error is recorded exactly for the outcome of a
  failed origin, a media error exactly for that of a failed conversion, and a request that is answered from
  its plan or refused by the URL policy leaves the world alone, so that nothing is resolved, fetched or
  decoded.\<close>

theorem handler_outcomes:
  assumes "handle_function_url_event S timeout event (Some g) w = Some ((response, diagnostics), w')"
  shows "\<exists>d. diagnostics = Some d \<and> outcome_response (diag_outcome d) response
    \<and> (diag_origin_error d = None \<longleftrightarrow> diag_outcome d \<noteq> Outcome_origin_failure)
    \<and> (diag_media_error d = None \<longleftrightarrow> diag_outcome d \<noteq> Outcome_media_failure)
    \<and> (diag_outcome d \<notin> {Outcome_origin_failure, Outcome_media_failure, Outcome_media_success} \<longrightarrow> w' = w)"
  using assms by (rule handler_diagnostics_agree)

theorem handler_outcomes_witness:
  "\<exists>d. handle_function_url_event textual_service \<lparr>remaining_milliseconds = None\<rparr> [] (Some empty_diagnostics) () =
       Some ((make_error_response Bad_request, Some d), ())
     \<and> outcome_response (diag_outcome d) (make_error_response Bad_request)"
  using handler_outcomes [OF textual_run] textual_run by auto


text \<open>A service whose only image loader takes any body, for the second witness.\<close>

definition sample_service :: "(sample_json, string, int \<times> int, unit, unit, unit) service_apis" where
  "sample_service = \<lparr>json_of = sample_api (sample_event (percent_encode ''/'')
        (encode_query [\<lparr>qp_key = ''url'', qp_value = ''https://a.example/x''\<rparr>]) ''GET''),
     origin_of = sample_apis [0xFF, 0xD8, 0xFF],
     media_of = sample_media\<lparr>vips_of := sample_vips\<lparr>vips_load_pages := (\<lambda>_. Pair (Some (8, 6)))\<rparr>\<rparr>,
     steady_now = Pair 0\<rparr>"

definition sample_options :: media_options where
  "sample_options = default_options\<lparr>url_only := True\<rparr>"

lemma sample_plan:
  "plan_request (parse_function_url_event (json_of sample_service) payload) =
     Inr \<lparr>mr_method = ''GET'', mr_decoded_path = ''/'', source_url = ''https://a.example/x'', options = sample_options\<rparr>"
proof -
  let ?ps = "[\<lparr>qp_key = ''url'', qp_value = ''https://a.example/x''\<rparr>]"
  have "json_read (json_of sample_service) payload \<noteq> None"
    by (simp add: sample_service_def sample_api_def)
  moreover have "event_strings (json_of sample_service) payload = Some (''2.0'', percent_encode ''/'', encode_query ?ps, ''GET'')"
    by (simp only: sample_service_def service_apis.simps event_strings_sample)
  ultimately have "parse_function_url_event (json_of sample_service) payload =
      Inr \<lparr>req_method = ''GET'', decoded_path = ''/'', query = ?ps, route = Route_media\<rparr>"
    by (simp add: parse_event_via_strings del: percent_encode_Cons encode_query.simps)
  then show ?thesis
    by (simp add: plan_request_def select_media_options_def query_boolean_def sample_options_def default_options_def)
qed




text \<open>The same service over the world of a JPEG XL decoder, with a JPEG XL image as the body.\<close>

definition film_service :: "(sample_json, string, int \<times> int, unit, unit, nat \<times> bool) service_apis" where
  "film_service = \<lparr>json_of = json_of sample_service, origin_of = sample_apis [0xFF, 0x0A], media_of = film_media,
     steady_now = Pair 0\<rparr>"

lemma film_run:
  "\<exists>d. handle_function_url_event film_service \<lparr>remaining_milliseconds = Some (\<lambda>w. (50, w))\<rparr> event (Some g) w =
     Some ((make_media_response Prefer_webp [2, 1, 70], d), (1, False))"
proof -
  let ?o = "sample_origin ''a.example'' ''/x''" and ?b = "[0xFF, 0x0A]" and ?A = "sample_apis [0xFF, 0x0A] :: (string, nat \<times> bool) origin_apis"
  have parts: "json_of film_service = json_of sample_service" "origin_of film_service = ?A"
    "media_of film_service = film_media" "steady_now film_service = Pair 0"
    by (simp_all add: film_service_def)
  have valid: "validate_by (origin_of film_service) ''https://a.example/x'' = Inr ?o"
    using sample_validate [of "''a.example''" "''/x''"] by (simp add: parts sample_apis_def NUL_def)
  have "sniff_mime ?b = Image_jxl" by code_simp
  then have "convert_source film_service sample_options ?b w1 = Some (Inr (Output_webp, [2, 1, 70]), (1, False))" for w1
    using film_conversion by (simp add: convert_source_def parts sample_options_def default_options_def preferred_format_def)
  then have media: "\<exists>d'. media_phase film_service sample_options ?b d w1 = Some ((make_media_response Prefer_webp [2, 1, 70], d'), (1, False))"
    for d w1
    by (simp add: media_phase_def parts record_media_def record_outcome_def sample_options_def default_options_def
        elapsed_microseconds_def split: option.splits)
  have same: "?A\<lparr>timeout_api := \<lparr>remaining_milliseconds = Some (\<lambda>w. (50, w))\<rparr>\<rparr> = ?A"
    by (simp add: sample_apis_def)
  obtain downloaded w2 where down: "download_origin ?A ?o w = (downloaded, w2)" by (metis surj_pair)
  with sample_download [of ?b w] have got: "dl_error downloaded = None" "acc_body (dl_response downloaded) = ?b" "w2 = w"
    by (simp_all add: Let_def)
  then have "\<exists>d. fetch_phase film_service \<lparr>remaining_milliseconds = Some (\<lambda>w. (50, w))\<rparr> sample_options ?o given w =
      Some ((make_media_response Prefer_webp [2, 1, 70], d), (1, False))" for given
    using media [of "fst (record_fetch (Pair 0) 0 downloaded given w)" "snd (record_fetch (Pair 0) 0 downloaded given w)"]
    by (simp only: fetch_phase_def parts same down got prod.case Let_def split_def fst_conv snd_conv if_False simp_thms)
  with valid show ?thesis
    by (simp add: handle_function_url_event_def parts(1) sample_plan)
qed

end
