(* ===== verification/Streaming.thy ===== *)
theory Streaming
  imports Response
begin

text \<open>
  \<^verbatim>\<open>src/runtime/streaming.cpp\<close>: the chunked response that is written to the runtime.
  A byte sink is a write operation on a state: \<open>None\<close> when the call never returns, otherwise
  whether it succeeded and the new state. The contract of a sink is the locale \<open>byte_sink\<close>.
\<close>

definition response_chunk_bytes :: nat where
  "response_chunk_bytes = 64 * 1024"

type_synonym 's effect = "'s \<Rightarrow> (bool \<times> 's) option"

text \<open>The conjunction of two effects: the second runs only when the first succeeded.\<close>

definition and_then :: "'s effect \<Rightarrow> 's effect \<Rightarrow> 's effect" where
  "and_then f g s =
     (case f s of
        None \<Rightarrow> None
      | Some (ok, s') \<Rightarrow> if ok then g s' else Some (False, s'))"

definition succeed :: "bool \<Rightarrow> 's effect" where
  "succeed ok s = Some (ok, s)"

definition safe_header_component :: "string \<Rightarrow> bool" where
  "safe_header_component s \<longleftrightarrow> s \<noteq> [] \<and> \<not> contains_any [CR, LF] s"

definition hex_digit :: "nat \<Rightarrow> char" where
  "hex_digit n = ''0123456789abcdef'' ! n"

definition DQUOTE :: char where "DQUOTE = CHR 0x22"
definition BACKSLASH :: char where "BACKSLASH = CHR 0x5C"

definition escape_char :: "char \<Rightarrow> string" where
  "escape_char c =
     (if c = DQUOTE then [BACKSLASH, DQUOTE]
      else if c = BACKSLASH then [BACKSLASH, BACKSLASH]
      else if c = CHR 0x08 then [BACKSLASH, CHR ''b'']
      else if c = CHR 0x0C then [BACKSLASH, CHR ''f'']
      else if c = LF then [BACKSLASH, CHR ''n'']
      else if c = CR then [BACKSLASH, CHR ''r'']
      else if c = HT then [BACKSLASH, CHR ''t'']
      else if of_char c < (0x20 :: nat)
        then BACKSLASH # ''u00'' @ [hex_digit (of_char c div 16), hex_digit (of_char c mod 16)]
      else [c])"

definition append_json_string :: "string \<Rightarrow> string \<Rightarrow> string" where
  "append_json_string out s = out @ [DQUOTE] @ concat (map escape_char s) @ [DQUOTE]"

fun append_headers :: "bool \<Rightarrow> string \<Rightarrow> http_header list \<Rightarrow> string" where
  "append_headers first out [] = out"
| "append_headers first out (h # hs) =
     (let output1 = (if first then out else out @ '','');
          output2 = append_json_string output1 (header_name h) @ '':''
      in append_headers False (append_json_string output2 (header_value h)) hs)"

definition integration_metadata :: "http_response \<Rightarrow> string" where
  "integration_metadata response =
     append_headers True
       (''{'' @ [DQUOTE] @ ''statusCode'' @ [DQUOTE] @ '':'' @ nat_to_string (unat (status response))
        @ '','' @ [DQUOTE] @ ''headers'' @ [DQUOTE] @ '':{'') (headers response)
     @ ''}}''"

text \<open>The digits of a size, least significant first, as the loop stores them.\<close>

fun reversed_hex :: "nat \<Rightarrow> string" where
  "reversed_hex n = hex_digit (n mod 16) # (if n div 16 \<noteq> 0 then reversed_hex (n div 16) else [])"

declare reversed_hex.simps [simp del]

definition chunk_prefix :: "nat \<Rightarrow> string" where
  "chunk_prefix n = rev (reversed_hex n) @ CRLF"

definition write_text :: "(bytes \<Rightarrow> 's effect) \<Rightarrow> string \<Rightarrow> 's effect" where
  "write_text sink t = sink (bytes_of_string t)"

definition write_chunk :: "(bytes \<Rightarrow> 's effect) \<Rightarrow> bytes \<Rightarrow> 's effect" where
  "write_chunk sink bs =
     (if bs = [] then succeed True
      else and_then (write_text sink (chunk_prefix (length bs)))
             (and_then (sink bs) (write_text sink CRLF)))"

definition make_streaming_request_head :: "string \<Rightarrow> string \<Rightarrow> string" where
  "make_streaming_request_head authority req =
     (if \<not> safe_header_component authority \<or> \<not> safe_header_component req
         \<or> contains_any [CHR ''/'', CHR '' '', CHR ''?'', CHR ''#'', HT, BACKSLASH] req
      then []
      else ''POST /2018-06-01/runtime/invocation/'' @ req @ ''/response HTTP/1.1'' @ CRLF @ ''Host: '' @ authority
        @ CRLF @ ''Lambda-Runtime-Function-Response-Mode: streaming''
        @ CRLF @ ''Transfer-Encoding: chunked''
        @ CRLF @ ''Content-Type: application/vnd.awslambda.http-integration-response''
        @ CRLF @ ''Trailer: Lambda-Runtime-Function-Error-Type, Lambda-Runtime-Function-Error-Body''
        @ CRLF @ ''Connection: close'' @ CRLF @ CRLF)"

text \<open>The loop over the body; the argument is what is left of it.\<close>

function (sequential) write_body :: "(bytes \<Rightarrow> 's effect) \<Rightarrow> bytes \<Rightarrow> 's effect" where
  "write_body sink [] = succeed True"
| "write_body sink (b # bs) =
     (let n = min response_chunk_bytes (length (b # bs))
      in and_then (write_chunk sink (take n (b # bs))) (write_body sink (drop n (b # bs))))"
  by pat_completeness auto
termination
  by (relation "measure (\<lambda>(sink, bs). length bs)") (auto simp: response_chunk_bytes_def)

definition response_metadata :: "http_response \<Rightarrow> bytes" where
  "response_metadata response = bytes_of_string (integration_metadata response) @ replicate 8 0"

definition write_streaming_response :: "(bytes \<Rightarrow> 's effect) \<Rightarrow> http_response \<Rightarrow> 's effect" where
  "write_streaming_response sink response =
     and_then (write_chunk sink (response_metadata response))
       (and_then (write_body sink (body response)) (write_text sink (''0'' @ CRLF @ CRLF)))"

definition base64_alphabet :: string where
  "base64_alphabet = ''ABCDEFGHIJKLMNOPQRSTUVWXYZabcdefghijklmnopqrstuvwxyz0123456789+/''"

definition base64_value :: "byte \<Rightarrow> byte \<Rightarrow> byte \<Rightarrow> u32" where
  "base64_value x y z = or (or (push_bit 16 (ucast x)) (push_bit 8 (ucast y))) (ucast z)"

definition base64_char :: "nat \<Rightarrow> u32 \<Rightarrow> char" where
  "base64_char n v = base64_alphabet ! unat (and (drop_bit n v) 0x3F)"

fun base64 :: "bytes \<Rightarrow> string" where
  "base64 [] = []"
| "base64 [x] = (let v = base64_value x 0 0 in [base64_char 18 v, base64_char 12 v, CHR ''='', CHR ''=''])"
| "base64 [x, y] =
     (let v = base64_value x y 0 in [base64_char 18 v, base64_char 12 v, base64_char 6 v, CHR ''=''])"
| "base64 (x # y # z # bs) =
     (let v = base64_value x y z
      in [base64_char 18 v, base64_char 12 v, base64_char 6 v, base64_char 0 v] @ base64 bs)"

definition write_streaming_error :: "(bytes \<Rightarrow> 's effect) \<Rightarrow> string \<Rightarrow> bytes \<Rightarrow> 's effect" where
  "write_streaming_error sink error_type error_body =
     (if \<not> safe_header_component error_type then succeed False
      else and_then (write_text sink (''0'' @ CRLF @ ''Lambda-Runtime-Function-Error-Type: ''))
        (and_then (write_text sink error_type)
        (and_then (write_text sink (CRLF @ ''Lambda-Runtime-Function-Error-Body: ''))
        (and_then (write_text sink (base64 error_body)) (write_text sink (CRLF @ CRLF))))))"

section \<open>The contract of a sink\<close>

locale byte_sink =
  fixes put :: "bytes \<Rightarrow> 's effect"
    and accepted :: "'s \<Rightarrow> bytes"
  assumes write_prefix: "put bs s = Some (ok, s') \<Longrightarrow>
    \<exists>n \<le> length bs. accepted s' = accepted s @ take n bs \<and> (ok \<longrightarrow> n = length bs)"
begin

text \<open>An effect delivers a text: it adds a prefix of it to what the sink has accepted, and all of it
  when it succeeds.\<close>

definition delivers :: "'s effect \<Rightarrow> bytes \<Rightarrow> bool" where
  "delivers f w \<longleftrightarrow>
     (\<forall>s ok s'. f s = Some (ok, s') \<longrightarrow>
        (\<exists>n \<le> length w. accepted s' = accepted s @ take n w \<and> (ok \<longrightarrow> n = length w)))"

lemma delivers_write: "delivers (put bs) bs"
  using write_prefix by (auto simp: delivers_def)

lemma delivers_succeed: "delivers (succeed True) []"
  by (simp add: delivers_def succeed_def)

lemma delivers_and_then:
  assumes "delivers f v" and "delivers g w"
  shows "delivers (and_then f g) (v @ w)"
  unfolding delivers_def
proof (intro allI impI)
  fix s ok s'
  assume run: "and_then f g s = Some (ok, s')"
  then obtain ok1 s1 where f: "f s = Some (ok1, s1)" by (auto simp: and_then_def split: option.splits)
  with assms(1) obtain n where n: "n \<le> length v" "accepted s1 = accepted s @ take n v" "ok1 \<longrightarrow> n = length v"
    unfolding delivers_def by blast
  show "\<exists>n \<le> length (v @ w). accepted s' = accepted s @ take n (v @ w) \<and> (ok \<longrightarrow> n = length (v @ w))"
  proof (cases ok1)
    case True
    with run f have "g s1 = Some (ok, s')" by (simp add: and_then_def)
    with assms(2) obtain k where "k \<le> length w" "accepted s' = accepted s1 @ take k w" "ok \<longrightarrow> k = length w"
      unfolding delivers_def by blast
    with n True show ?thesis by (intro exI [of _ "length v + k"]) auto
  next
    case False
    with run f n show ?thesis by (intro exI [of _ n]) (auto simp: and_then_def)
  qed
qed

lemma delivers_text: "delivers (write_text put t) (bytes_of_string t)"
  by (simp add: write_text_def delivers_write)

end

section \<open>The bytes of a response\<close>

definition chunk_bytes :: "bytes \<Rightarrow> bytes" where
  "chunk_bytes bs =
     (if bs = [] then []
      else bytes_of_string (chunk_prefix (length bs)) @ bs @ bytes_of_string CRLF)"

function (sequential) body_chunks :: "bytes \<Rightarrow> bytes" where
  "body_chunks [] = []"
| "body_chunks (b # bs) =
     (let n = min response_chunk_bytes (length (b # bs))
      in chunk_bytes (take n (b # bs)) @ body_chunks (drop n (b # bs)))"
  by pat_completeness auto
termination
  by (relation "measure length") (auto simp: response_chunk_bytes_def)

definition response_wire :: "http_response \<Rightarrow> bytes" where
  "response_wire r = chunk_bytes (response_metadata r) @ body_chunks (body r)
     @ bytes_of_string (''0'' @ CRLF @ CRLF)"

context byte_sink
begin

lemma delivers_chunk: "delivers (write_chunk put bs) (chunk_bytes bs)"
  using delivers_and_then [OF delivers_text delivers_and_then [OF delivers_write delivers_text]]
  by (simp add: write_chunk_def chunk_bytes_def delivers_succeed)

lemma delivers_body: "delivers (write_body put bs) (body_chunks bs)"
proof (induction bs rule: body_chunks.induct)
  case 1
  then show ?case by (simp add: delivers_succeed)
next
  case (2 b bs)
  from delivers_and_then [OF delivers_chunk 2 [OF refl]] show ?case
    by (simp add: Let_def)
qed

lemma delivers_response: "delivers (write_streaming_response put r) (response_wire r)"
  unfolding write_streaming_response_def response_wire_def
  by (intro delivers_and_then delivers_chunk delivers_body delivers_text)

end

definition succeeds :: "'s effect \<Rightarrow> bool" where
  "succeeds f \<longleftrightarrow> (\<forall>s. \<exists>s'. f s = Some (True, s'))"

lemma succeeds_and_then: "succeeds f \<Longrightarrow> succeeds g \<Longrightarrow> succeeds (and_then f g)"
  unfolding succeeds_def and_then_def
proof
  fix s
  assume "\<forall>s. \<exists>s'. f s = Some (True, s')" and g: "\<forall>s. \<exists>s'. g s = Some (True, s')"
  then obtain s1 where "f s = Some (True, s1)" by blast
  moreover obtain s2 where "g s1 = Some (True, s2)" using g by blast
  ultimately show "\<exists>s'. (case f s of None \<Rightarrow> None | Some (ok, s') \<Rightarrow> if ok then g s' else Some (False, s')) = Some (True, s')"
    by simp
qed

lemma succeeds_response:
  fixes sink :: "bytes \<Rightarrow> 's effect"
  assumes "\<And>bs. succeeds (sink bs)"
  shows "succeeds (write_streaming_response sink r)"
proof -
  have trivially: "succeeds (succeed True :: 's effect)" by (simp add: succeeds_def succeed_def)
  have chunk: "succeeds (write_chunk sink bs)" for bs
    using trivially assms by (cases "bs = []") (simp_all add: write_chunk_def write_text_def succeeds_and_then)
  have "succeeds (write_body sink bs)" for bs
  proof (induction bs rule: body_chunks.induct)
    case (2 b bs)
    with chunk show ?case by (simp add: Let_def succeeds_and_then)
  qed (simp add: trivially)
  with chunk show ?thesis
    by (auto simp: write_streaming_response_def write_text_def intro!: succeeds_and_then assms)
qed

section \<open>Reading the chunks back\<close>

definition hex_value :: "char \<Rightarrow> nat option" where
  "hex_value c = find_char c ''0123456789abcdef''"

definition hex_number :: "string \<Rightarrow> nat option" where
  "hex_number s =
     (if s = [] \<or> \<not> list_all (\<lambda>c. hex_value c \<noteq> None) s then None
      else Some (foldl (\<lambda>n c. 16 * n + the (hex_value c)) 0 s))"

text \<open>A reader of the chunked coding without trailers: the decoded bytes, if the whole text is
  one.\<close>

function decode_chunks :: "bytes \<Rightarrow> bytes option" where
  "decode_chunks w =
     (case str_find CRLF (string_of_bytes w) of
        None \<Rightarrow> None
      | Some k \<Rightarrow>
          (case hex_number (take k (string_of_bytes w)) of
             None \<Rightarrow> None
           | Some n \<Rightarrow>
               let rest = drop (k + 2) w
               in if n = 0 then (if rest = bytes_of_string CRLF then Some [] else None)
                  else if take 2 (drop n rest) \<noteq> bytes_of_string CRLF then None
                  else map_option (\<lambda>d. take n rest @ d) (decode_chunks (drop (n + 2) rest))))"
  by pat_completeness auto
termination
  by (relation "measure length") (auto dest: str_find_SomeD(1) dest!: sym [of "Some _"])

declare decode_chunks.simps [simp del]

lemma hex_value_digit: "n < 16 \<Longrightarrow> hex_value (hex_digit n) = Some n"
  by (drule nibble_in_set) (elim UnE insertE emptyE; simp add: hex_digit_def hex_value_def)

lemma reversed_hex_props:
  "foldr (\<lambda>c n. 16 * n + the (hex_value c)) (reversed_hex n) 0 = n
   \<and> list_all (\<lambda>c. hex_value c \<noteq> None) (reversed_hex n) \<and> reversed_hex n \<noteq> []"
proof (induction n rule: reversed_hex.induct)
  case (1 n)
  then show ?case
    unfolding reversed_hex.simps [of n] by (auto simp: hex_value_digit)
qed

lemmas reversed_hex_value = reversed_hex_props [THEN conjunct1] reversed_hex_props [THEN conjunct2, THEN conjunct1]
  reversed_hex_props [THEN conjunct2, THEN conjunct2]

lemma hex_number_prefix: "hex_number (rev (reversed_hex n)) = Some n"
  using reversed_hex_value by (simp add: hex_number_def foldl_conv_foldr list.pred_set)

lemma prefix_no_CR: "CR \<notin> set (rev (reversed_hex n))"
proof -
  have "hex_value CR = None" by (simp add: hex_value_def CR_def)
  with reversed_hex_value(2) [of n] show ?thesis by (auto simp: list_all_iff)
qed

lemma decode_chunk:
  assumes "bs \<noteq> []"
  shows "decode_chunks (chunk_bytes bs @ w) = map_option (\<lambda>d. bs @ d) (decode_chunks w)"
proof -
  let ?x = "rev (reversed_hex (length bs))"
  have wire: "chunk_bytes bs @ w = bytes_of_string (?x @ CRLF) @ bs @ bytes_of_string CRLF @ w"
    using assms by (simp add: chunk_bytes_def chunk_prefix_def)
  have "str_find CRLF (string_of_bytes (chunk_bytes bs @ w)) = Some (length ?x)"
    using str_find_CRLF [OF prefix_no_CR] by (simp add: wire)
  moreover have "take (length ?x) (string_of_bytes (chunk_bytes bs @ w)) = ?x"
    and "drop (length ?x + 2) (chunk_bytes bs @ w) = bs @ bytes_of_string CRLF @ w"
    by (simp_all add: wire)
  ultimately show ?thesis
    using assms hex_number_prefix by (subst decode_chunks.simps) simp
qed

lemma take_drop_append: "take n xs @ drop n xs @ ys = xs @ ys"
  by (metis append_assoc append_take_drop_id)

lemma decode_body: "decode_chunks (body_chunks bs @ w) = map_option (\<lambda>d. bs @ d) (decode_chunks w)"
proof (induction bs rule: body_chunks.induct)
  case 1
  then show ?case by (simp add: option.map_ident)
next
  case (2 b bs)
  let ?n = "min response_chunk_bytes (length (b # bs))"
  have "take ?n (b # bs) \<noteq> []" by (simp add: response_chunk_bytes_def)
  then show ?case
    using decode_chunk [of "take ?n (b # bs)" "body_chunks (drop ?n (b # bs)) @ w"] 2 [OF refl]
    by (simp add: Let_def option.map_comp o_def take_drop_append)
qed

lemma decode_last: "decode_chunks (bytes_of_string (''0'' @ CRLF @ CRLF)) = Some []"
proof -
  have "hex_number ''0'' = Some 0" by (simp add: hex_number_def hex_value_def)
  moreover have "str_find CRLF (''0'' @ CRLF @ CRLF) = Some (length ''0'')"
    by (rule str_find_CRLF) (simp add: CR_def)
  moreover have "drop (Suc (Suc (Suc 0))) (bytes_of_string (CHR ''0'' # CRLF @ CRLF)) = bytes_of_string CRLF"
    by (simp add: bytes_of_string_def)
  ultimately show ?thesis by (subst decode_chunks.simps) (simp del: str_find.simps)
qed

section \<open>Reading the metadata back\<close>

text \<open>A reader of one JSON string behind its opening quote: the text and what follows the closing
  quote. Code points below 256 stand for the bytes of the program's strings.\<close>

fun unescape :: "string \<Rightarrow> (string \<times> string) option" where
  "unescape [] = None"
| "unescape (c # cs) =
     (if c = DQUOTE then Some ([], cs)
      else if c = BACKSLASH then
        (case cs of
           [] \<Rightarrow> None
         | e # r \<Rightarrow>
             if e = CHR ''u'' then
               (case r of
                  a # b # x # y # r' \<Rightarrow>
                    (case (hex_number [a, b, x, y], unescape r') of
                       (Some n, Some (t, u)) \<Rightarrow> if n < 256 then Some (char_of n # t, u) else None
                     | _ \<Rightarrow> None)
                | _ \<Rightarrow> None)
             else
               (case (map_of [(DQUOTE, DQUOTE), (BACKSLASH, BACKSLASH), (CHR ''b'', CHR 0x08),
                        (CHR ''f'', CHR 0x0C), (CHR ''n'', LF), (CHR ''r'', CR), (CHR ''t'', HT)] e,
                      unescape r) of
                  (Some d, Some (t, u)) \<Rightarrow> Some (d # t, u)
                | _ \<Rightarrow> None))
      else if of_char c < (0x20 :: nat) then None
      else map_option (\<lambda>(t, u). (c # t, u)) (unescape cs))"

lemma unescape_shorter: "unescape s = Some (t, u) \<Longrightarrow> length u < length s"
  by (induction s arbitrary: t u rule: unescape.induct)
    (fastforce split: if_splits list.splits option.splits)+

lemma hex_escape:
  assumes "n < 256"
  shows "hex_number [CHR ''0'', CHR ''0'', hex_digit (n div 16), hex_digit (n mod 16)] = Some n"
proof -
  have "hex_value (CHR ''0'') = Some 0" by (simp add: hex_value_def)
  with assms show ?thesis by (simp add: hex_number_def hex_value_digit)
qed

lemmas special_chars = DQUOTE_def BACKSLASH_def LF_def CR_def HT_def

lemma unescape_escape:
  "unescape (escape_char c @ r) = map_option (\<lambda>(t, u). (c # t, u)) (unescape r)"
proof -
  consider "c \<in> {DQUOTE, BACKSLASH, CHR 0x08, CHR 0x0C, LF, CR, HT}"
    | "c \<notin> {DQUOTE, BACKSLASH, CHR 0x08, CHR 0x0C, LF, CR, HT}" "of_char c < (0x20 :: nat)"
    | "c \<notin> {DQUOTE, BACKSLASH, CHR 0x08, CHR 0x0C, LF, CR, HT}" "\<not> of_char c < (0x20 :: nat)"
    by blast
  then show ?thesis
  proof cases
    case 1
    then show ?thesis
      by (elim insertE emptyE)
        (simp_all add: escape_char_def special_chars split: option.split)
  next
    case 2
    then have "unescape (escape_char c @ r) =
        (case (hex_number [CHR ''0'', CHR ''0'', hex_digit (of_char c div 16), hex_digit (of_char c mod 16)], unescape r) of
           (Some n, Some (t, u)) \<Rightarrow> if n < 256 then Some (char_of n # t, u) else None
         | _ \<Rightarrow> None)"
      by (simp add: escape_char_def) (simp add: special_chars)
    with 2(2) show ?thesis by (simp add: hex_escape split: option.split)
  next
    case 3
    then show ?thesis by (simp add: escape_char_def)
  qed
qed

lemma unescape_string: "unescape (concat (map escape_char s) @ DQUOTE # u) = Some (s, u)"
  by (induction s) (simp_all add: unescape_escape)

text \<open>The members of an object of strings, up to the end of the text.\<close>

function (sequential) read_members :: "string \<Rightarrow> (string \<times> string) list option" where
  "read_members (q # s) =
     (if q \<noteq> DQUOTE then None
      else case unescape s of
             Some (n, c # q' # s') \<Rightarrow>
               if c \<noteq> CHR '':'' \<or> q' \<noteq> DQUOTE then None
               else (case unescape s' of
                       Some (v, r) \<Rightarrow>
                         if r = ''}}'' then Some [(n, v)]
                         else if r \<noteq> [] \<and> hd r = CHR '','' then map_option ((#) (n, v)) (read_members (tl r))
                         else None
                     | None \<Rightarrow> None)
           | _ \<Rightarrow> None)"
| "read_members [] = None"
  by pat_completeness auto
termination
  by (relation "measure length")
    (auto dest!: sym [of "Some _"] unescape_shorter intro: less_trans)

definition metadata_prefix :: string where
  "metadata_prefix = ''{'' @ [DQUOTE] @ ''statusCode'' @ [DQUOTE] @ '':''"

definition metadata_middle :: string where
  "metadata_middle = '','' @ [DQUOTE] @ ''headers'' @ [DQUOTE] @ '':{''"

definition read_metadata :: "string \<Rightarrow> (nat \<times> (string \<times> string) list) option" where
  "read_metadata s =
     (if \<not> starts_with s metadata_prefix then None
      else
        let r = drop (length metadata_prefix) s; digits = takeWhile is_digit r; m = dropWhile is_digit r
        in if digits = [] \<or> \<not> starts_with m metadata_middle then None
           else
             let t = drop (length metadata_middle) m
             in if t = ''}}'' then Some (digits_value digits, [])
                else map_option (Pair (digits_value digits)) (read_members t))"

definition member_text :: "http_header \<Rightarrow> string" where
  "member_text h = append_json_string [] (header_name h) @ '':'' @ append_json_string [] (header_value h)"

lemma append_headers_False:
  "append_headers False out hs = out @ concat (map (\<lambda>h. CHR '','' # member_text h) hs)"
  by (induction hs arbitrary: out) (simp_all add: Let_def append_json_string_def member_text_def)

lemma append_headers_True:
  "append_headers True out (h # hs) = out @ member_text h @ concat (map (\<lambda>h. CHR '','' # member_text h) hs)"
  by (simp add: append_headers_False Let_def append_json_string_def member_text_def)

lemma read_members_text:
  "read_members (member_text h @ concat (map (\<lambda>h. CHR '','' # member_text h) hs) @ ''}}'') =
     Some (map (\<lambda>h. (header_name h, header_value h)) (h # hs))"
proof (induction hs arbitrary: h)
  case Nil
  show ?case by (simp add: member_text_def append_json_string_def unescape_string)
next
  case (Cons h' hs)
  from Cons.IH [of h'] show ?case
    by (subst member_text_def) (simp add: append_json_string_def unescape_string)
qed

lemma read_metadata_text:
  "read_metadata (integration_metadata r) =
     Some (unat (status r), map (\<lambda>h. (header_name h, header_value h)) (headers r))"
proof -
  let ?d = "nat_to_string (unat (status r))"
  obtain t where meta: "integration_metadata r = metadata_prefix @ ?d @ metadata_middle @ t"
    and t: "t = (case headers r of [] \<Rightarrow> ''}}''
      | h # hs \<Rightarrow> member_text h @ concat (map (\<lambda>h. CHR '','' # member_text h) hs) @ ''}}'')"
    by (cases "headers r")
      (simp_all add: integration_metadata_def metadata_prefix_def metadata_middle_def append_headers_True
        del: append_headers.simps(2))
  have "\<not> is_digit (CHR '','')" by (simp add: is_digit_def char_in_def)
  then have "takeWhile is_digit (?d @ metadata_middle @ t) = ?d"
    "dropWhile is_digit (?d @ metadata_middle @ t) = metadata_middle @ t"
    using nat_to_string_digits [of "unat (status r)"]
    by (simp_all add: takeWhile_append dropWhile_append metadata_middle_def list_all_iff)
  moreover have "t \<noteq> ''}}'' \<longleftrightarrow> headers r \<noteq> []"
    by (auto simp: t member_text_def append_json_string_def special_chars split: list.split)
  ultimately show ?thesis
    using read_members_text by (simp add: read_metadata_def meta Let_def) (auto simp: t split: list.split)
qed

section \<open>Reading base64 back\<close>

definition base64_index :: "char \<Rightarrow> nat option" where
  "base64_index c = find_char c base64_alphabet"

definition base64_group :: "char \<Rightarrow> char \<Rightarrow> char \<Rightarrow> char \<Rightarrow> nat option" where
  "base64_group a b c d =
     (case (base64_index a, base64_index b, base64_index c, base64_index d) of
        (Some i, Some j, Some k, Some l) \<Rightarrow> Some (((i * 64 + j) * 64 + k) * 64 + l)
      | _ \<Rightarrow> None)"

fun base64_decode :: "string \<Rightarrow> bytes option" where
  "base64_decode [] = Some []"
| "base64_decode [a, b, c, d] =
     (if d = CHR ''='' then
        (if c = CHR ''='' then
           map_option (\<lambda>n. [of_nat (n div 65536)]) (base64_group a b (CHR ''A'') (CHR ''A''))
         else map_option (\<lambda>n. [of_nat (n div 65536), of_nat (n div 256 mod 256)]) (base64_group a b c (CHR ''A'')))
      else map_option (\<lambda>n. [of_nat (n div 65536), of_nat (n div 256 mod 256), of_nat (n mod 256)])
             (base64_group a b c d))"
| "base64_decode (a # b # c # d # s) =
     (case (base64_group a b c d, base64_decode s) of
        (Some n, Some bs) \<Rightarrow> Some (of_nat (n div 65536) # of_nat (n div 256 mod 256) # of_nat (n mod 256) # bs)
      | _ \<Rightarrow> None)"
| "base64_decode s = None"

lemma find_char_nth: "distinct xs \<Longrightarrow> i < length xs \<Longrightarrow> find_char (xs ! i) xs = Some i"
  unfolding find_char_eq_Some_iff
  by (intro exI [of _ "take i xs"] exI [of _ "drop (Suc i) xs"])
    (auto simp: id_take_nth_drop [symmetric] in_set_conv_nth nth_eq_iff_index_eq)

lemma base64_alphabet_distinct: "distinct base64_alphabet" "length base64_alphabet = 64"
  by (simp_all add: base64_alphabet_def)

lemma unat_base64_value: "unat (base64_value x y z) = 65536 * unat x + 256 * unat y + unat z"
proof -
  have b: "unat x < 256" "unat y < 256" "unat z < 256" using unsigned_less [where ?'b = 8] by simp_all
  have "or (push_bit 8 (of_nat (unat y))) (of_nat (unat z)) = (of_nat (256 * unat y + unat z) :: u32)"
    using or_push_bit_of_nat [of "unat z" 8 "unat y"] b(3) by simp
  moreover have "or (push_bit 16 (of_nat (unat x))) (of_nat (256 * unat y + unat z)) =
      (of_nat (65536 * unat x + (256 * unat y + unat z)) :: u32)"
    using or_push_bit_of_nat [of "256 * unat y + unat z" 16 "unat x"] b by simp
  ultimately have "base64_value x y z = of_nat (65536 * unat x + 256 * unat y + unat z)"
    unfolding base64_value_def or.assoc by (simp add: add.assoc)
  then have "unat (base64_value x y z) = unat (of_nat (65536 * unat x + 256 * unat y + unat z) :: u32)" by (simp only:)
  also have "\<dots> = 65536 * unat x + 256 * unat y + unat z"
    unfolding unsigned_of_nat using b by (simp add: take_bit_nat_eq_self)
  finally show ?thesis .
qed

lemma base64_char_index:
  "base64_index (base64_char n v) = Some (unat v div 2 ^ n mod 64)"
proof -
  have "and (drop_bit n v) 0x3F = take_bit 6 (drop_bit n v)"
    by (simp add: take_bit_eq_mask mask_eq_exp_minus_1)
  moreover have "unat v < 4294967296" using unsigned_less [of v] by simp
  then have "unat (take_bit 6 (drop_bit n v)) = unat v div 2 ^ n mod 64"
    by (simp only: unsigned_take_bit_eq unsigned_drop_bit_eq) (simp add: take_bit_eq_mod drop_bit_eq_div)
  ultimately have "unat (and (drop_bit n v) 0x3F) = unat v div 2 ^ n mod 64" by simp
  then show ?thesis
    using base64_alphabet_distinct by (simp add: base64_index_def base64_char_def find_char_nth)
qed

lemma sextets:
  assumes "v < (16777216 :: nat)"
  shows "((v div 262144 mod 64 * 64 + v div 4096 mod 64) * 64 + v div 64 mod 64) * 64 + v mod 64 = v"
proof -
  have "v div 262144 = v div 4096 div 64" "v div 4096 = v div 64 div 64"
    by (simp_all flip: div_mult2_eq)
  moreover have "v div 262144 mod 64 = v div 262144" using assms by simp
  ultimately show ?thesis by simp
qed

lemma base64_group_value:
  assumes "v = base64_value x y z"
  shows "base64_group (base64_char 18 v) (base64_char 12 v) (base64_char 6 v) (base64_char 0 v) =
      Some (65536 * unat x + 256 * unat y + unat z)"
    and "z = 0 \<Longrightarrow> base64_char 0 v = CHR ''A''" and "y = 0 \<Longrightarrow> z = 0 \<Longrightarrow> base64_char 6 v = CHR ''A''"
proof -
  have "unat x < 256" "unat y < 256" "unat z < 256" using unsigned_less [where ?'b = 8] by simp_all
  then have v: "unat v < 16777216" "unat v = 65536 * unat x + 256 * unat y + unat z"
    using assms by (simp_all add: unat_base64_value)
  then show "base64_group (base64_char 18 v) (base64_char 12 v) (base64_char 6 v) (base64_char 0 v) =
      Some (65536 * unat x + 256 * unat y + unat z)"
    using sextets [OF v(1)] by (simp add: base64_group_def base64_char_index)
  have char: "base64_char n v = base64_alphabet ! k" if "base64_index (base64_char n v) = Some k" for n k
    using that find_char_SomeD(2) [of "base64_char n v" base64_alphabet k] by (simp add: base64_index_def)
  show "base64_char 0 v = CHR ''A''" if "z = 0"
  proof -
    have "unat v mod 64 = 0" using that v(2) by (simp add: mod_eq_0_iff_dvd)
    with char [OF base64_char_index] show ?thesis by (simp add: base64_alphabet_def)
  qed
  show "base64_char 6 v = CHR ''A''" if "y = 0" "z = 0"
  proof -
    have "unat v div 64 mod 64 = 0" using that v(2) by simp
    with char [OF base64_char_index] show ?thesis by (simp add: base64_alphabet_def)
  qed
qed

lemma bytes_of_value:
  fixes x y z :: byte
  defines "n \<equiv> 65536 * unat x + 256 * unat y + unat z"
  shows "of_nat (n div 65536) = x" and "of_nat (n div 256 mod 256) = y" and "of_nat (n mod 256) = z"
proof -
  have "unat x < 256" "unat y < 256" "unat z < 256" using unsigned_less [where ?'b = 8] by simp_all
  moreover have "n = (unat x * 256 + unat y) * 256 + unat z" by (simp add: n_def)
  moreover have "(a * 256 + b) div 256 = a" "(a * 256 + b) mod 256 = b" if "b < 256" for a b :: nat
    using that by simp_all
  ultimately have "n div 256 = unat x * 256 + unat y" "n mod 256 = unat z" by metis+
  moreover have "n div 65536 = n div 256 div 256" by (simp flip: div_mult2_eq)
  ultimately have "n div 65536 = unat x" "n div 256 mod 256 = unat y" "n mod 256 = unat z"
    using \<open>unat y < 256\<close> by simp_all
  then show "of_nat (n div 65536) = x" "of_nat (n div 256 mod 256) = y" "of_nat (n mod 256) = z"
    by simp_all
qed

lemma base64_pad: "base64_alphabet ! i = CHR ''='' \<Longrightarrow> i < 64 \<Longrightarrow> False"
  using nth_mem [of i base64_alphabet] by (auto simp: base64_alphabet_def)

lemma base64_char_not_pad: "base64_char n v \<noteq> CHR ''=''"
proof
  assume "base64_char n v = CHR ''=''"
  with base64_char_index [of n v] have "base64_index (CHR ''='') \<noteq> None" by simp
  then show False by (simp add: base64_index_def base64_alphabet_def)
qed

lemma base64_decode_group:
  "base64_decode (a # b # c # d # s) =
     (case (base64_group a b c d, base64_decode s) of
        (Some n, Some bs) \<Rightarrow> Some (of_nat (n div 65536) # of_nat (n div 256 mod 256) # of_nat (n mod 256) # bs)
      | _ \<Rightarrow> None)" if "d \<noteq> CHR ''=''" for s
  using that by (cases s) (auto split: option.split)

section \<open>Properties of the coding\<close>

text \<open>The error body of the trailers is read back from its base64 text: the coding loses no
  byte, with any length of the last group.\<close>

lemma base64_roundtrip: "base64_decode (base64 bs) = Some bs"
proof (induction bs rule: base64.induct)
  case 1
  then show ?case by simp
next
  case (2 x)
  show ?case
    using base64_group_value [OF refl, where x = x and y = 0 and z = 0] bytes_of_value [of x 0 0]
    by (simp add: Let_def)
next
  case (3 x y)
  show ?case
    using base64_group_value [OF refl, where x = x and y = y and z = 0] bytes_of_value [of x y 0]
    by (simp add: Let_def base64_char_not_pad)
next
  case (4 x y z bs)
  show ?case
    using base64_group_value(1) [OF refl, of x y z] bytes_of_value [of x y z] 4
    by (simp add: Let_def base64_decode_group base64_char_not_pad)
qed

lemma NUL_escape: "NUL \<notin> set (escape_char c)"
proof -
  have "hex_digit n \<noteq> NUL" if "n < 16" for n
    using nibble_in_set [OF that] by (elim UnE insertE emptyE) (simp_all add: hex_digit_def NUL_def)
  from this [of "of_char c div 16"] this [of "of_char c mod 16"] show ?thesis
    by (auto simp: escape_char_def special_chars NUL_def split: if_splits)
qed

lemma NUL_metadata: "NUL \<notin> set (integration_metadata r)"
proof -
  have quoted: "NUL \<notin> set (append_json_string [] s)" for s
    using NUL_escape by (auto simp: append_json_string_def special_chars NUL_def)
  then have "NUL \<notin> set (member_text h)" for h by (simp add: member_text_def) (simp add: NUL_def)
  moreover have "NUL \<notin> set (nat_to_string n)" for n
    using nat_to_string_digits [of n] by (auto simp: list_all_iff is_digit_def char_in_def NUL_def)
  ultimately show ?thesis
    by (cases "headers r")
      (auto simp: integration_metadata_def append_headers_True special_chars NUL_def simp del: append_headers.simps(2))
qed

lemma response_wire_reads:
  "\<exists>meta. decode_chunks (response_wire r) = Some (bytes_of_string meta @ replicate 8 0 @ body r)
     \<and> NUL \<notin> set meta
     \<and> read_metadata meta = Some (unat (status r), map (\<lambda>h. (header_name h, header_value h)) (headers r))"
proof -
  have "response_metadata r \<noteq> []" by (simp add: response_metadata_def)
  then have "decode_chunks (response_wire r) = Some (response_metadata r @ body r)"
    unfolding response_wire_def using decode_last by (simp add: decode_chunk decode_body)
  then show ?thesis
    using NUL_metadata read_metadata_text
    by (intro exI [of _ "integration_metadata r"]) (simp add: response_metadata_def)
qed

text \<open>C22. On any sink that takes prefixes of what it is given, a response that was written reads
  back: the bytes added to the sink are a valid chunked coding, ended by the last chunk, of the JSON
  metadata, eight NUL bytes and the raw body; the metadata contain no NUL and read back as the status and
  the headers of the response, so that no header value can leave its string. A write that failed has added a
  prefix of these bytes.\<close>

theorem response_wire_decodes:
  assumes "byte_sink put taken" and "write_streaming_response put r s = Some (ok, s')"
  shows "\<exists>wire meta n. taken s' = taken s @ take n wire \<and> (ok \<longrightarrow> taken s' = taken s @ wire)
     \<and> decode_chunks wire = Some (bytes_of_string meta @ replicate 8 0 @ body r)
     \<and> NUL \<notin> set meta
     \<and> read_metadata meta = Some (unat (status r), map (\<lambda>h. (header_name h, header_value h)) (headers r))"
proof -
  from byte_sink.delivers_response [OF assms(1), of r] assms(2)
  obtain n where "taken s' = taken s @ take n (response_wire r)" "ok \<longrightarrow> n = length (response_wire r)"
    unfolding byte_sink.delivers_def [OF assms(1)] by blast
  moreover obtain meta where "decode_chunks (response_wire r) = Some (bytes_of_string meta @ replicate 8 0 @ body r)"
    "NUL \<notin> set meta" "read_metadata meta = Some (unat (status r), map (\<lambda>h. (header_name h, header_value h)) (headers r))"
    using response_wire_reads by blast
  ultimately show ?thesis by (intro exI [of _ "response_wire r"] exI [of _ meta] exI [of _ n]) auto
qed

text \<open>A sink in memory.\<close>

definition memory_sink :: "bytes \<Rightarrow> bytes effect" where
  "memory_sink bs s = Some (True, s @ bs)"

interpretation memory: byte_sink memory_sink id
  by unfold_locales (auto simp: memory_sink_def)

theorem response_wire_decodes_witness:
  "\<exists>wire meta. write_streaming_response memory_sink make_status_response [7] = Some (True, 7 # wire)
     \<and> decode_chunks wire = Some (bytes_of_string meta @ replicate 8 0 @ body make_status_response) \<and> NUL \<notin> set meta"
proof -
  have "succeeds (memory_sink bs)" for bs by (simp add: succeeds_def memory_sink_def)
  from succeeds_response [where sink = memory_sink and r = make_status_response, OF this] obtain s' where
    run: "write_streaming_response memory_sink make_status_response [7] = Some (True, s')" unfolding succeeds_def by blast
  from response_wire_decodes [OF memory.byte_sink_axioms run] obtain wire meta where "s' = [7] @ wire"
    "decode_chunks wire = Some (bytes_of_string meta @ replicate 8 0 @ body make_status_response)" "NUL \<notin> set meta" by auto
  with run show ?thesis by auto
qed

end
