(* ===== verification/Socket_Transport.thy ===== *)
theory Socket_Transport
  imports Streaming
begin

text \<open>
  \<^verbatim>\<open>src/runtime/socket_transport.cpp\<close>: the authority of the runtime endpoint and the
  socket to it. The system calls are parameters over a kernel state \<open>'k\<close>. The state of a
  transport pairs the kernel with the bytes handed to it so far, which is what a positive result of
  \<^verbatim>\<open>send\<close> counts. A call that is interrupted for ever does not return: its value is
  \<open>None\<close>.
\<close>

record runtime_authority =
  authority_host :: string
  authority_service :: string

fun service_port :: "u32 \<Rightarrow> string \<Rightarrow> u32 option" where
  "service_port p [] = Some p"
| "service_port p (c # cs) =
     (if \<not> is_digit c then None
      else
        let p' = p * 10 + of_nat (digit_value c)
        in if p' > 65535 then None else service_port p' cs)"

definition valid_service :: "string \<Rightarrow> bool" where
  "valid_service s \<longleftrightarrow> s \<noteq> [] \<and> (case service_port 0 s of None \<Rightarrow> False | Some p \<Rightarrow> p \<noteq> 0)"

definition split_authority :: "string \<Rightarrow> (string \<times> string) option" where
  "split_authority a =
     (if starts_with a ''['' then
        (case find_char (CHR '']'') a of
           None \<Rightarrow> None
         | Some closing \<Rightarrow>
             if closing = 1 \<or> length a \<le> closing + 1 \<or> a ! (closing + 1) \<noteq> CHR '':'' then None
             else Some (take (closing - 1) (drop 1 a), drop (closing + 2) a))
      else
        (case rfind_char (CHR '':'') a of
           None \<Rightarrow> None
         | Some colon \<Rightarrow>
             if colon = 0 \<or> find_char (CHR '':'') a \<noteq> Some colon then None
             else Some (take colon a, drop (colon + 1) a)))"

definition parse_runtime_authority :: "string \<Rightarrow> runtime_authority option" where
  "parse_runtime_authority a =
     (case split_authority a of
        None \<Rightarrow> None
      | Some (host, service) \<Rightarrow>
          if contains_any [CR, LF, CHR '' '', HT, CHR ''/'', BACKSLASH] host \<or> \<not> valid_service service then None
          else Some \<lparr>authority_host = host, authority_service = service\<rparr>)"

section \<open>The socket\<close>

text \<open>The result and \<^verbatim>\<open>errno\<close> of each call; \<^verbatim>\<open>recv\<close>
  also gives the bytes it stored.\<close>

record ('a, 'k) socket_api =
  lookup_call :: "string \<Rightarrow> string \<Rightarrow> 'k \<Rightarrow> (int \<times> 'a list) \<times> 'k"
  socket_call :: "'a \<Rightarrow> 'k \<Rightarrow> int \<times> 'k"
  connect_call :: "int \<Rightarrow> 'a \<Rightarrow> 'k \<Rightarrow> int \<times> 'k"
  send_call :: "int \<Rightarrow> bytes \<Rightarrow> 'k \<Rightarrow> (int \<times> int) \<times> 'k"
  recv_call :: "int \<Rightarrow> nat \<Rightarrow> 'k \<Rightarrow> (int \<times> int \<times> bytes) \<times> 'k"
  shutdown_call :: "int \<Rightarrow> 'k \<Rightarrow> int \<times> 'k"
  close_call :: "int \<Rightarrow> 'k \<Rightarrow> 'k"

type_synonym 'k wire_state = "'k \<times> bytes"

definition eintr :: int where
  "eintr = 4"

definition ssize_max :: nat where
  "ssize_max = 2 ^ 63 - 1"

fun try_addresses :: "('a, 'k) socket_api \<Rightarrow> 'a list \<Rightarrow> 'k \<Rightarrow> int option \<times> 'k" where
  "try_addresses api [] k = (None, k)"
| "try_addresses api (a # as) k =
     (let (fd, k1) = socket_call api a k
      in if fd < 0 then try_addresses api as k1
         else
           let (r, k2) = connect_call api fd a k1
           in if r = 0 then (Some fd, k2) else try_addresses api as (close_call api fd k2))"

text \<open>The descriptor of the connected transport, if there is one.\<close>

definition connect_transport :: "('a, 'k) socket_api \<Rightarrow> string \<Rightarrow> 'k \<Rightarrow> int option \<times> 'k" where
  "connect_transport api authority k =
     (case parse_runtime_authority authority of
        None \<Rightarrow> (None, k)
      | Some p \<Rightarrow>
          let ((r, as), k1) = lookup_call api (c_str (authority_host p)) (c_str (authority_service p)) k
          in if r \<noteq> 0 then (None, k1) else try_addresses api as k1)"

text \<open>The loop of \<^verbatim>\<open>write\<close>; the argument is what is left of the bytes.\<close>

partial_function (option) send_all ::
    "('a, 'k) socket_api \<Rightarrow> int \<Rightarrow> bytes \<Rightarrow> 'k wire_state \<Rightarrow> (bool \<times> 'k wire_state) option" where
  "send_all api fd bs s =
     (if bs = [] then Some (True, s)
      else
        let request = take ssize_max bs; ((written, err), k') = send_call api fd request (fst s)
        in if 0 < written then send_all api fd (drop (nat written) bs) (k', snd s @ take (nat written) bs)
           else if written < 0 \<and> err = eintr then send_all api fd bs (k', snd s)
           else Some (False, (k', snd s)))"

definition socket_write :: "('a, 'k) socket_api \<Rightarrow> int \<Rightarrow> bytes \<Rightarrow> 'k wire_state effect" where
  "socket_write api fd bs s = (if fd < 0 then Some (False, s) else send_all api fd bs s)"

text \<open>The result is the count and the bytes stored, or minus one.\<close>

partial_function (option) recv_retry ::
    "('a, 'k) socket_api \<Rightarrow> int \<Rightarrow> nat \<Rightarrow> 'k \<Rightarrow> ((int \<times> bytes) \<times> 'k) option" where
  "recv_retry api fd capacity k =
     (let ((received, err, data), k') = recv_call api fd (min capacity ssize_max) k
      in if 0 \<le> received then Some ((received, take (nat received) data), k')
         else if err \<noteq> eintr then Some ((-1, []), k')
         else recv_retry api fd capacity k')"

definition read_some ::
    "('a, 'k) socket_api \<Rightarrow> int \<Rightarrow> nat \<Rightarrow> 'k wire_state \<Rightarrow> ((int \<times> bytes) \<times> 'k wire_state) option" where
  "read_some api fd capacity s =
     (if fd < 0 \<or> capacity = 0 then Some ((-1, []), s)
      else case recv_retry api fd capacity (fst s) of
             None \<Rightarrow> None
           | Some (r, k') \<Rightarrow> Some (r, (k', snd s)))"

definition shutdown_write :: "('a, 'k) socket_api \<Rightarrow> int \<Rightarrow> 'k wire_state effect" where
  "shutdown_write api fd s =
     (if 0 \<le> fd then let (r, k') = shutdown_call api fd (fst s) in Some (r = 0, (k', snd s))
      else Some (False, s))"

definition close_transport :: "('a, 'k) socket_api \<Rightarrow> int \<Rightarrow> 'k \<Rightarrow> int \<times> 'k" where
  "close_transport api fd k = (if 0 \<le> fd then (-1, close_call api fd k) else (fd, k))"

section \<open>The socket is a sink\<close>

lemma take_prefix_step:
  assumes "n \<le> length (drop m bs)"
  shows "take m bs @ take n (drop m bs) = take (min m (length bs) + n) bs"
    and "min m (length bs) + n \<le> length bs" and "n = length (drop m bs) \<Longrightarrow> min m (length bs) + n = length bs"
  using assms by (auto simp: take_add min_def)

lemma send_all_delivers:
  fixes api :: "('a, 'k) socket_api"
  assumes "send_all api fd bs s = Some r"
  shows "\<exists>n \<le> length bs. snd (snd r) = snd s @ take n bs \<and> (fst r \<longrightarrow> n = length bs)"
proof (rule send_all.raw_induct [OF _ assms, where P = "\<lambda>api fd bs s r.
    \<exists>n \<le> length bs. snd (snd r) = snd s @ take n bs \<and> (fst r \<longrightarrow> n = length bs)"])
  fix f :: "('a, 'k) socket_api \<Rightarrow> int \<Rightarrow> bytes \<Rightarrow> 'k wire_state \<Rightarrow> (bool \<times> 'k wire_state) option"
    and api :: "('a, 'k) socket_api" and fd bs s r
  assume hyp: "\<And>api fd bs s r. f api fd bs s = Some r \<Longrightarrow>
      \<exists>n \<le> length bs. snd (snd r) = snd s @ take n bs \<and> (fst r \<longrightarrow> n = length bs)"
    and body: "(if bs = [] then Some (True, s)
      else let request = take ssize_max bs; ((written, err), k') = send_call api fd request (fst s)
        in if 0 < written then f api fd (drop (nat written) bs) (k', snd s @ take (nat written) bs)
           else if written < 0 \<and> err = eintr then f api fd bs (k', snd s)
           else Some (False, (k', snd s))) = Some r"
  show "\<exists>n \<le> length bs. snd (snd r) = snd s @ take n bs \<and> (fst r \<longrightarrow> n = length bs)"
  proof (cases "bs = []")
    case True
    with body show ?thesis by auto
  next
    case False
    obtain written err k' where call: "send_call api fd (take ssize_max bs) (fst s) = ((written, err), k')"
      by (metis prod.collapse)
    note step = body [unfolded Let_def call, simplified False prod.case if_False]
    consider "0 < written" | "written < 0 \<and> err = eintr" "\<not> 0 < written"
      | "\<not> 0 < written" "\<not> (written < 0 \<and> err = eintr)" by blast
    then show ?thesis
    proof cases
      case 1
      with step have "f api fd (drop (nat written) bs) (k', snd s @ take (nat written) bs) = Some r" by simp
      from hyp [OF this] obtain n where "n \<le> length (drop (nat written) bs)"
        "snd (snd r) = (snd s @ take (nat written) bs) @ take n (drop (nat written) bs)"
        "fst r \<longrightarrow> n = length (drop (nat written) bs)" by auto
      with take_prefix_step [of n "nat written" bs] show ?thesis
        by (intro exI [of _ "min (nat written) (length bs) + n"]) auto
    next
      case 2
      with step have "f api fd bs (k', snd s) = Some r" by simp
      from hyp [OF this] show ?thesis by simp
    next
      case 3
      with step have "r = (False, (k', snd s))" by auto
      then show ?thesis by (intro exI [of _ 0]) simp
    qed
  qed
qed

lemma socket_write_delivers:
  assumes "socket_write api fd bs s = Some (ok, s')"
  shows "\<exists>n \<le> length bs. snd s' = snd s @ take n bs \<and> (ok \<longrightarrow> n = length bs)"
proof (cases "fd < 0")
  case True
  with assms show ?thesis by (intro exI [of _ 0]) (simp add: socket_write_def)
next
  case False
  with assms send_all_delivers [of api fd bs s "(ok, s')"] show ?thesis by (simp add: socket_write_def)
qed

interpretation socket: byte_sink "socket_write api fd" snd for api fd
  by unfold_locales (rule socket_write_delivers)

text \<open>A write returns when the kernel is interrupted only finitely often: the measure \<open>m\<close>
  falls with every interruption.\<close>

lemma send_all_returns:
  assumes "\<And>request k w e k'. send_call api fd request k = ((w, e), k') \<Longrightarrow>
      m k' \<le> m k \<and> (w < 0 \<and> e = eintr \<longrightarrow> m k' < (m k :: nat))"
  shows "\<exists>r. send_all api fd bs s = Some r"
proof (induction "length bs + m (fst s)" arbitrary: bs s rule: less_induct)
  case less
  obtain w e k' where call: "send_call api fd (take ssize_max bs) (fst s) = ((w, e), k')"
    by (metis prod.collapse)
  note step = send_all.simps [of api fd bs s] call
  show ?case
  proof (cases "bs = [] \<or> (\<not> 0 < w \<and> \<not> (w < 0 \<and> e = eintr))")
    case True
    then show ?thesis by (auto simp: step)
  next
    case False
    then have "0 < w \<Longrightarrow> length bs - nat w + m k' < length bs + m (fst s)"
      using assms [OF call] by (intro add_less_le_mono) auto
    with False assms [OF call] less [of "drop (nat w) bs" "(k', snd s @ take (nat w) bs)"] less [of bs "(k', snd s)"]
    show ?thesis by (cases "0 < w") (auto simp: step)
  qed
qed

section \<open>Service numbers and authorities\<close>

lemma service_port_iff:
  "unat p \<le> 65535 \<Longrightarrow> service_port p s = Some q \<longleftrightarrow>
     list_all is_digit s \<and> foldl (\<lambda>n c. 10 * n + digit_value c) (unat p) s \<le> 65535
     \<and> q = of_nat (foldl (\<lambda>n c. 10 * n + digit_value c) (unat p) s)"
proof (induction s arbitrary: p)
  case Nil
  then show ?case by auto
next
  case (Cons c s)
  show ?case
  proof (cases "is_digit c")
    case True
    let ?n = "10 * unat p + digit_value c"
    have "digit_value c < 10" using True by (auto simp: is_digit_def char_in_def digit_value_def)
    then have "?n < 2 ^ 32" using Cons.prems by simp
    moreover have p': "p * 10 + of_nat (digit_value c) = of_nat ?n" by (simp add: mult.commute)
    ultimately have u: "unat (p * 10 + of_nat (digit_value c)) = ?n"
      by (simp only: p' unsigned_of_nat) (simp add: take_bit_nat_eq_self)
    have gt: "p * 10 + of_nat (digit_value c) > 65535 \<longleftrightarrow> \<not> ?n \<le> 65535"
      by (simp only: word_less_nat_alt u) (simp add: not_le)
    show ?thesis
    proof (cases "?n \<le> 65535")
      case True
      with gt u Cons.IH [of "p * 10 + of_nat (digit_value c)"] \<open>is_digit c\<close> show ?thesis
        by (simp add: Let_def)
    next
      case False
      with gt digits_fold_ge [of ?n s] \<open>is_digit c\<close> show ?thesis by (auto simp: Let_def)
    qed
  qed simp
qed

lemma valid_service_iff:
  "valid_service s \<longleftrightarrow> s \<noteq> [] \<and> list_all is_digit s \<and> digits_value s \<in> {1..65535}"
proof -
  have "service_port 0 s = (if list_all is_digit s \<and> digits_value s \<le> 65535
      then Some (of_nat (digits_value s)) else None)"
    using service_port_iff [of 0 s] by (cases "service_port 0 s") (auto simp: digits_value_def)
  moreover have "(of_nat n :: u32) = 0 \<longleftrightarrow> n = 0" if "n \<le> 65535" for n
    using that by (simp add: word_of_nat_eq_0_iff) (auto dest: dvd_imp_le)
  ultimately show ?thesis
    by (auto simp: valid_service_def Suc_le_eq)
qed

lemma rfind_char_unique: "c \<notin> set t \<Longrightarrow> rfind_char c (p @ c # t) = Some (length p)"
proof -
  assume t: "c \<notin> set t"
  have "rfind_char c t = None" using t by (induction t) (auto split: option.split)
  then show ?thesis by (induction p) auto
qed

lemma rfind_char_SomeD: "rfind_char c s = Some i \<Longrightarrow> i < length s \<and> s ! i = c"
  by (induction s arbitrary: i) (auto split: option.splits if_splits)

definition host_ok :: "string \<Rightarrow> bool" where
  "host_ok h \<longleftrightarrow> h \<noteq> [] \<and> set h \<inter> {CR, LF, CHR '' '', HT, CHR ''/'', BACKSLASH} = {}"

lemma split_authority_iff:
  "split_authority a = Some (h, s) \<longleftrightarrow>
     (a = ''['' @ h @ '']:'' @ s \<and> CHR '']'' \<notin> set h \<and> h \<noteq> [])
     \<or> (a = h @ '':'' @ s \<and> h \<noteq> [] \<and> hd h \<noteq> CHR ''['' \<and> CHR '':'' \<notin> set h \<and> CHR '':'' \<notin> set s)"
  (is "_ \<longleftrightarrow> ?bracket \<or> ?plain")
proof
  assume split: "split_authority a = Some (h, s)"
  show "?bracket \<or> ?plain"
  proof (cases "starts_with a ''[''")
    case True
    then obtain b where a: "a = CHR ''['' # b" by (auto simp: starts_with_iff)
    with split obtain p t where b: "b = p @ CHR '']'' # t" "CHR '']'' \<notin> set p" "p \<noteq> []" "t \<noteq> []" "hd t = CHR '':''"
      and "h = p" "s = tl t"
      by (auto simp: split_authority_def starts_with_def find_char_eq_Some_iff nth_append hd_conv_nth drop_Suc
          split: option.splits if_splits)
    then show ?thesis using a by (cases t) auto
  next
    case False
    with split obtain i where r: "rfind_char (CHR '':'') a = Some i" "i \<noteq> 0" and f: "find_char (CHR '':'') a = Some i"
      and hs: "h = take i a" "s = drop (i + 1) a"
      by (auto simp: split_authority_def split: option.splits if_splits)
    from f obtain p t where a: "a = p @ CHR '':'' # t" "CHR '':'' \<notin> set p" "i = length p"
      unfolding find_char_eq_Some_iff by blast
    have "CHR '':'' \<notin> set t"
    proof
      assume "CHR '':'' \<in> set t"
      then obtain q u where "t = q @ CHR '':'' # u" "CHR '':'' \<notin> set u" by (auto dest: split_list_last)
      then have "rfind_char (CHR '':'') a = Some (length (p @ CHR '':'' # q))"
        using rfind_char_unique [of "CHR '':''" u "p @ CHR '':'' # q"] a by simp
      with r a show False by simp
    qed
    moreover have "hd p \<noteq> CHR ''[''" "p \<noteq> []"
      using False a r(2) by (auto simp: starts_with_def, cases p) auto
    ultimately show ?thesis using a hs by simp
  qed
next
  assume "?bracket \<or> ?plain"
  then show "split_authority a = Some (h, s)"
  proof
    assume b: ?bracket
    have "find_char (CHR '']'') (CHR ''['' # h @ CHR '']'' # CHR '':'' # s) = Some (Suc (length h))"
      using b by simp
    with b show ?thesis by (simp add: split_authority_def starts_with_def nth_append)
  next
    assume p: ?plain
    then obtain c h' where "h = c # h'" "c \<noteq> CHR ''[''" by (cases h) auto
    with p rfind_char_unique [of "CHR '':''" s h] show ?thesis
      by (auto simp: split_authority_def starts_with_def)
  qed
qed

lemma parse_authority_split:
  "parse_runtime_authority a = Some p \<longleftrightarrow> split_authority a = Some (authority_host p, authority_service p)
      \<and> \<not> contains_any [CR, LF, CHR '' '', HT, CHR ''/'', BACKSLASH] (authority_host p)
      \<and> valid_service (authority_service p)"
  by (cases p) (auto simp: parse_runtime_authority_def split: option.split)

lemma authority_one_line:
  assumes "parse_runtime_authority a = Some p"
  shows "a \<noteq> [] \<and> CR \<notin> set a \<and> LF \<notin> set a"
proof -
  have "CR \<notin> set t \<and> LF \<notin> set t" if "list_all is_digit t" for t
    using that by (auto simp: list_all_iff is_digit_def char_in_def CR_def LF_def)
  moreover have "CR \<notin> set ''[]:''" "LF \<notin> set ''[]:''" by (simp_all add: CR_def LF_def)
  ultimately show ?thesis
    using assms unfolding parse_authority_split split_authority_iff valid_service_iff
    by (auto simp: contains_any_iff)
qed

section \<open>Properties\<close>

text \<open>C25. An authority is accepted exactly when it is a host and a port joined by a colon: a
  non-empty host without a colon that does not start with a bracket, or a bracketed non-empty host;
  no white space, slash or line break in the host, and a decimal port from 1 to 65535.\<close>

theorem parse_runtime_authority_iff:
  "parse_runtime_authority a = Some p \<longleftrightarrow>
     host_ok (authority_host p) \<and> list_all is_digit (authority_service p) \<and> authority_service p \<noteq> []
     \<and> digits_value (authority_service p) \<in> {1..65535}
     \<and> (a = ''['' @ authority_host p @ '']:'' @ authority_service p \<and> CHR '']'' \<notin> set (authority_host p)
        \<or> a = authority_host p @ '':'' @ authority_service p \<and> hd (authority_host p) \<noteq> CHR ''[''
          \<and> CHR '':'' \<notin> set (authority_host p))"
proof -
  have colon: "CHR '':'' \<notin> set t" if "list_all is_digit t" for t
    using that by (auto simp: list_all_iff is_digit_def char_in_def)
  then show ?thesis
    using colon [of "authority_service p"]
    by (auto simp: parse_authority_split split_authority_iff host_ok_def contains_any_iff valid_service_iff)
qed

text \<open>A socket that writes a response reports success only when the kernel has taken every byte of
  it, and has then taken exactly the chunked coding of the response; on failure it has taken a
  prefix of it, however the kernel cut or interrupted the calls.\<close>

lemma socket_response_delivered:
  assumes "write_streaming_response (socket_write api fd) r (k, w) = Some (ok, (k', w'))"
  shows "\<exists>n \<le> length (response_wire r). w' = w @ take n (response_wire r)
    \<and> (ok \<longrightarrow> w' = w @ response_wire r)"
  using socket.delivers_response [of api fd r] assms
  unfolding socket.delivers_def by fastforce

text \<open>A kernel that is interrupted \<open>k\<close> times and then takes at most a thousand bytes at a
  time.\<close>

definition sample_socket :: "(unit, nat) socket_api" where
  "sample_socket = \<lparr>lookup_call = (\<lambda>h s k. ((0, [()]), k)), socket_call = (\<lambda>a k. (3, k)),
     connect_call = (\<lambda>fd a k. (0, k)),
     send_call = (\<lambda>fd bs k. if 0 < k then ((-1, eintr), k - 1) else ((int (min 1000 (length bs)), 0), k)),
     recv_call = (\<lambda>fd n k. ((0, 0, []), k)), shutdown_call = (\<lambda>fd k. (0, k)), close_call = (\<lambda>fd k. k)\<rparr>"

lemma sample_socket_writes:
  assumes "send_call api = send_call sample_socket"
  shows "succeeds (socket_write api 3 bs)"
proof -
  have "\<exists>s'. send_all api 3 bs s = Some (True, s')" for bs :: bytes and s
  proof (induction "length bs + fst s" arbitrary: bs s rule: less_induct)
    case less
    let ?n = "min 1000 (min (length bs) ssize_max)"
    show ?case
    proof (cases "bs = []")
      case True
      then show ?thesis by (simp add: send_all.simps)
    next
      case False
      then have "0 < ?n" by (simp add: ssize_max_def)
      with False less [of bs "(fst s - 1, snd s)"] less [of "drop ?n bs" "(fst s, snd s @ take ?n bs)"]
      show ?thesis by (cases "0 < fst s") (auto simp: send_all.simps [of _ _ bs] assms sample_socket_def)
    qed
  qed
  then show ?thesis by (simp add: succeeds_def socket_write_def)
qed

text \<open>C23. A write returns when the kernel is interrupted only finitely often: whenever some measure
  of the kernel never grows and falls with every interruption, the loop over \<^verbatim>\<open>send\<close>
  ends.\<close>

theorem socket_write_returns:
  assumes "\<And>request k w e k'. send_call api fd request k = ((w, e), k') \<Longrightarrow>
      m k' \<le> m k \<and> (w < 0 \<and> e = eintr \<longrightarrow> m k' < (m k :: nat))"
  shows "\<exists>ok s'. socket_write api fd bs s = Some (ok, s')"
  using send_all_returns [of api fd m bs s] assms by (auto simp: socket_write_def)

theorem socket_write_returns_witness:
  "\<exists>ok s'. socket_write sample_socket 3 [1, 2, 3] (5, []) = Some (ok, s')"
  by (rule socket_write_returns [where m = id]) (auto simp: sample_socket_def eintr_def split: if_splits)

end
