(* ===== verification/Next_Response.thy ===== *)
theory Next_Response
  imports Prelude
begin

text \<open>
  \<^verbatim>\<open>src/runtime/next_response.cpp\<close>: the parser of the answer that carries the next
  invocation, fed in pieces, and the head of the request that asks for it. Sizes are natural numbers; the
  one subtraction that could wrap, of the event size from the announced length, is shown not to.
\<close>

definition maximum_runtime_header_bytes :: nat where
  "maximum_runtime_header_bytes = 64 * 1024"

definition maximum_runtime_event_bytes :: nat where
  "maximum_runtime_event_bytes = 8 * 1024 * 1024"

record invocation =
  request_id :: string
  invocation_deadline_ms :: "64 word"
  trace_id :: string
  event_bytes :: bytes

datatype next_parse_status = Parse_incomplete | Parse_complete | Parse_error

record next_parser =
  parser_status :: next_parse_status
  parser_buffer :: bytes
  announced_length :: nat
  headers_complete :: bool
  parsed_invocation :: invocation

definition fresh_parser :: next_parser where
  "fresh_parser = \<lparr>parser_status = Parse_incomplete, parser_buffer = [], announced_length = 0,
     headers_complete = False,
     parsed_invocation = \<lparr>request_id = [], invocation_deadline_ms = 0, trace_id = [], event_bytes = []\<rparr>\<rparr>"

text \<open>
  The loop of \<^verbatim>\<open>parse_decimal\<close> on a 64-bit unsigned type; the guard in front of the
  product keeps it from wrapping.
\<close>

fun parse_decimal_loop :: "64 word \<Rightarrow> string \<Rightarrow> 64 word option" where
  "parse_decimal_loop parsed [] = Some parsed"
| "parse_decimal_loop parsed (c # cs) =
     (if \<not> is_digit c then None
      else
        let digit = of_nat (digit_value c)
        in if parsed > (-1 - digit) div 10 then None
           else parse_decimal_loop (parsed * 10 + digit) cs)"

definition parse_decimal :: "string \<Rightarrow> 64 word option" where
  "parse_decimal s = (if s = [] then None else parse_decimal_loop 0 s)"

definition header_delimiter :: string where
  "header_delimiter = CRLF @ CRLF"

definition find_header_end :: "bytes \<Rightarrow> nat option" where
  "find_header_end bs = (if length bs < 4 then None else str_find header_delimiter (string_of_bytes bs))"

definition safe_authority :: "string \<Rightarrow> bool" where
  "safe_authority s \<longleftrightarrow> s \<noteq> [] \<and> \<not> contains_any [CR, LF, CHR '' '', HT] s"

definition safe_request_id :: "string \<Rightarrow> bool" where
  "safe_request_id s \<longleftrightarrow> s \<noteq> [] \<and> \<not> contains_any [CHR ''/'', CHR '' '', CHR ''?'', CHR ''#'', HT, CHR 0x5C] s"

text \<open>The four flags of the header loop with the parser they belong to.\<close>

record header_state =
  have_length :: bool
  have_request_id :: bool
  have_deadline :: bool
  have_trace :: bool
  header_parser :: next_parser

definition set_invocation :: "(invocation \<Rightarrow> invocation) \<Rightarrow> header_state \<Rightarrow> header_state" where
  "set_invocation f st = st\<lparr>header_parser := (header_parser st)
     \<lparr>parsed_invocation := f (parsed_invocation (header_parser st))\<rparr>\<rparr>"

text \<open>The chain of comparisons on the name of one header.\<close>

definition apply_header :: "string \<Rightarrow> string \<Rightarrow> header_state \<Rightarrow> header_state option" where
  "apply_header name value st =
     (if ascii_equal name ''Content-Length'' then
        (if have_length st then None
         else case parse_decimal value of
                None \<Rightarrow> None
              | Some n \<Rightarrow>
                  if unat n > maximum_runtime_event_bytes then None
                  else Some (st\<lparr>have_length := True,
                    header_parser := (header_parser st)\<lparr>announced_length := unat n\<rparr>\<rparr>))
      else if ascii_equal name ''Lambda-Runtime-Aws-Request-Id'' then
        (if have_request_id st \<or> \<not> safe_request_id value then None
         else Some (set_invocation (\<lambda>i. i\<lparr>request_id := value\<rparr>) (st\<lparr>have_request_id := True\<rparr>)))
      else if ascii_equal name ''Lambda-Runtime-Deadline-Ms'' then
        (if have_deadline st then None
         else case parse_decimal value of
                None \<Rightarrow> None
              | Some n \<Rightarrow> Some (set_invocation (\<lambda>i. i\<lparr>invocation_deadline_ms := n\<rparr>)
                  (st\<lparr>have_deadline := True\<rparr>)))
      else if ascii_equal name ''Lambda-Runtime-Trace-Id'' then
        (if have_trace st then None
         else Some (set_invocation (\<lambda>i. i\<lparr>trace_id := value\<rparr>) (st\<lparr>have_trace := True\<rparr>)))
      else if ascii_equal name ''Transfer-Encoding'' then None
      else Some st)"

definition parse_header_line :: "string \<Rightarrow> header_state \<Rightarrow> header_state option" where
  "parse_header_line line st =
     (case find_char (CHR '':'') line of
        None \<Rightarrow> None
      | Some colon \<Rightarrow>
          if colon = 0 then None
          else apply_header (take colon line) (trim (drop (Suc colon) line)) st)"

text \<open>The loop over the lines; the first argument is the text from
  \<^verbatim>\<open>line_begin\<close> on.\<close>

function (sequential) parse_header_lines :: "string \<Rightarrow> header_state \<Rightarrow> header_state option" where
  "parse_header_lines [] st = Some st"
| "parse_header_lines (c # rest) st =
     (let text = c # rest;
          line_end = (case str_find CRLF text of None \<Rightarrow> length text | Some e \<Rightarrow> e)
      in case parse_header_line (take line_end text) st of
           None \<Rightarrow> None
         | Some st' \<Rightarrow> parse_header_lines (drop (line_end + 2) text) st')"
  by pat_completeness auto
termination
  by (relation "measure (\<lambda>(text, st). length text)") auto

definition status_line :: string where
  "status_line = ''HTTP/1.1 200 OK''"

text \<open>
  \<open>None\<close> when the headers are refused; otherwise the parser with the values they set. The values a
  refused header set leaves behind are not kept: the parser is in its error state then.
\<close>

definition parse_headers :: "nat \<Rightarrow> next_parser \<Rightarrow> next_parser option" where
  "parse_headers header_end p =
     (let headers = take header_end (string_of_bytes (parser_buffer p))
      in case str_find CRLF headers of
           None \<Rightarrow> None
         | Some first_end \<Rightarrow>
             if take first_end headers \<noteq> status_line then None
             else case parse_header_lines (drop (first_end + 2) headers)
                    \<lparr>have_length = False, have_request_id = False, have_deadline = False,
                     have_trace = False, header_parser = p\<rparr> of
                    None \<Rightarrow> None
                  | Some st \<Rightarrow>
                      if have_length st \<and> have_request_id st \<and> have_deadline st \<and> have_trace st
                      then Some (header_parser st) else None)"

definition append_event :: "bytes \<Rightarrow> next_parser \<Rightarrow> next_parser" where
  "append_event bs p =
     (let iv = parsed_invocation p
      in if length bs > announced_length p - length (event_bytes iv) then p\<lparr>parser_status := Parse_error\<rparr>
         else
           let event = event_bytes iv @ bs;
               p' = p\<lparr>parsed_invocation := iv\<lparr>event_bytes := event\<rparr>\<rparr>
           in if length event = announced_length p then p'\<lparr>parser_status := Parse_complete\<rparr> else p')"

definition feed :: "bytes \<Rightarrow> next_parser \<Rightarrow> next_parser" where
  "feed bs p =
     (if parser_status p \<noteq> Parse_incomplete then p
      else if headers_complete p then append_event bs p
      else
        let available = maximum_runtime_header_bytes - length (parser_buffer p);
            buffered = min (length bs) available;
            p1 = p\<lparr>parser_buffer := parser_buffer p @ take buffered bs\<rparr>
        in case find_header_end (parser_buffer p1) of
             None \<Rightarrow>
               if buffered \<noteq> length bs \<or> length (parser_buffer p1) = maximum_runtime_header_bytes
               then p1\<lparr>parser_status := Parse_error\<rparr> else p1
           | Some header_end \<Rightarrow>
               let body_offset = header_end + 4
               in if body_offset > maximum_runtime_header_bytes then p1\<lparr>parser_status := Parse_error\<rparr>
                  else case parse_headers header_end p1 of
                         None \<Rightarrow> p1\<lparr>parser_status := Parse_error\<rparr>
                       | Some p2 \<Rightarrow>
                           let p3 = append_event (drop body_offset (parser_buffer p1))
                                      (p2\<lparr>headers_complete := True\<rparr>)
                           in if parser_status p3 = Parse_error then p3
                              else append_event (drop buffered bs) (p3\<lparr>parser_buffer := []\<rparr>))"

definition make_next_request_head :: "string \<Rightarrow> string" where
  "make_next_request_head authority =
     (if \<not> safe_authority authority then []
      else ''GET /2018-06-01/runtime/invocation/next HTTP/1.1'' @ CRLF @ ''Host: '' @ authority
        @ CRLF @ ''Connection: close'' @ CRLF @ CRLF)"

section \<open>Decimal numbers\<close>

lemma parse_decimal_loop_iff:
  "parse_decimal_loop v s = Some r \<longleftrightarrow>
     list_all is_digit s \<and> foldl (\<lambda>n c. 10 * n + digit_value c) (unat v) s < 2 ^ 64
     \<and> r = of_nat (foldl (\<lambda>n c. 10 * n + digit_value c) (unat v) s)"
proof (induction s arbitrary: v)
  case Nil
  have "unat v < 2 ^ 64" using unsigned_less [of v] by simp
  then show ?case by auto
next
  case (Cons c s)
  show ?case
  proof (cases "is_digit c")
    case True
    let ?d = "digit_value c" and ?f = "\<lambda>n c. 10 * n + digit_value c"
    have d: "?d < 10" using True by (auto simp: is_digit_def char_in_def digit_value_def)
    have ud: "unat (of_nat ?d :: 64 word) = ?d" using d by (simp add: unsigned_of_nat take_bit_nat_eq_self)
    have guard: "v > (-1 - of_nat ?d) div 10 \<longleftrightarrow> \<not> 10 * unat v + ?d < 2 ^ 64"
    proof -
      have "unat (-1 - of_nat ?d :: 64 word) = 2 ^ 64 - 1 - ?d"
        using d by (subst unat_sub) (simp_all add: word_le_nat_alt ud unsigned_minus_1_eq_mask mask_eq_exp_minus_1)
      then have "unat ((-1 - of_nat ?d :: 64 word) div 10) = (2 ^ 64 - 1 - ?d) div 10" by (simp add: unat_div)
      then show ?thesis using d by (simp add: word_less_nat_alt) linarith
    qed
    show ?thesis
    proof (cases "10 * unat v + ?d < 2 ^ 64")
      case True
      then have "unat (v * 10 + of_nat ?d) = 10 * unat v + ?d"
        using ud by (simp add: unat_word_ariths mult.commute)
      with True guard \<open>is_digit c\<close> Cons.IH show ?thesis by (simp add: Let_def)
    next
      case False
      with guard digits_fold_ge [of "10 * unat v + ?d" s] \<open>is_digit c\<close> show ?thesis by (auto simp: Let_def)
    qed
  qed simp
qed

text \<open>The guarded loop reads exactly the non-empty digit texts below two to the power of 64 and
  never wraps: any other text is refused.\<close>

lemma parse_decimal_iff:
  "parse_decimal s = Some v \<longleftrightarrow>
     s \<noteq> [] \<and> list_all is_digit s \<and> digits_value s < 2 ^ 64 \<and> v = of_nat (digits_value s)"
  by (auto simp: parse_decimal_def parse_decimal_loop_iff digits_value_def)

section \<open>A whole message\<close>

text \<open>The announced length and the values that a header text gives.\<close>

definition head_values :: "string \<Rightarrow> (nat \<times> invocation) option" where
  "head_values headers =
     map_option (\<lambda>p. (announced_length p, parsed_invocation p))
       (parse_headers (length headers) (fresh_parser\<lparr>parser_buffer := bytes_of_string headers\<rparr>))"

text \<open>What the parser is to make of a message that lies before it in one piece.\<close>

definition message :: "bytes \<Rightarrow> invocation option" where
  "message x =
     (case str_find header_delimiter (string_of_bytes x) of
        None \<Rightarrow> None
      | Some h \<Rightarrow>
          if h + 4 > maximum_runtime_header_bytes then None
          else case head_values (take h (string_of_bytes x)) of
                 None \<Rightarrow> None
               | Some (n, iv) \<Rightarrow>
                   if length (drop (h + 4) x) = n then Some (iv\<lparr>event_bytes := drop (h + 4) x\<rparr>) else None)"

definition feed_all :: "bytes list \<Rightarrow> next_parser" where
  "feed_all pieces = fold feed pieces fresh_parser"

lemma length_header_delimiter [simp]: "length header_delimiter = 4"
  by (simp add: header_delimiter_def CRLF_def)

lemma find_header_end_eq [simp]: "find_header_end x = str_find header_delimiter (string_of_bytes x)"
  using str_find_SomeD(1) [of header_delimiter "string_of_bytes x"]
  by (cases "str_find header_delimiter (string_of_bytes x)") (auto simp: find_header_end_def)

lemma header_delimiter_bound:
  "str_find header_delimiter (string_of_bytes x) = Some h \<Longrightarrow> h + 4 \<le> length x"
  using str_find_SomeD(1) [of header_delimiter "string_of_bytes x" h] by simp

lemma str_find_within:
  assumes "str_find pat s = Some i" and "i + length pat \<le> k"
  shows "str_find pat (take k s) \<noteq> None"
proof -
  obtain p t where s: "s = p @ pat @ t" and p: "length p + length pat \<le> k"
    using str_find_SomeD [OF assms(1)] assms(2)
    by (metis add_leD1 length_take min.absorb2)
  then have "take k s = p @ pat @ take (k - length p - length pat) t" by simp
  then show ?thesis unfolding str_find_None_iff by blast
qed

text \<open>The header loop neither reads nor writes the buffer, the status and the event.\<close>

definition relocate :: "bytes \<Rightarrow> header_state \<Rightarrow> header_state" where
  "relocate b st = st\<lparr>header_parser := (header_parser st)\<lparr>parser_buffer := b\<rparr>\<rparr>"

lemma parse_header_line_relocate:
  "parse_header_line l (relocate b st) = map_option (relocate b) (parse_header_line l st)"
  by (auto simp: parse_header_line_def apply_header_def relocate_def set_invocation_def Let_def split: option.split)

lemma parse_header_lines_relocate:
  "parse_header_lines t (relocate b st) = map_option (relocate b) (parse_header_lines t st)"
  by (induction t st rule: parse_header_lines.induct)
    (auto simp: parse_header_line_relocate Let_def split: option.split)

definition header_frame :: "next_parser \<Rightarrow> next_parse_status \<times> bytes \<times> bool \<times> bytes" where
  "header_frame p = (parser_status p, parser_buffer p, headers_complete p, event_bytes (parsed_invocation p))"

lemma parse_header_line_frame:
  "parse_header_line l st = Some st' \<Longrightarrow> header_frame (header_parser st') = header_frame (header_parser st)"
  by (auto simp: parse_header_line_def apply_header_def header_frame_def set_invocation_def Let_def split: option.splits if_splits)

lemma parse_header_lines_frame:
  "parse_header_lines t st = Some st' \<Longrightarrow> header_frame (header_parser st') = header_frame (header_parser st)"
  by (induction t st rule: parse_header_lines.induct)
    (auto simp: Let_def dest: parse_header_line_frame split: option.splits)

lemma parse_headers_frame: "parse_headers h p = Some q \<Longrightarrow> header_frame q = header_frame p"
  by (auto simp: parse_headers_def Let_def dest: parse_header_lines_frame split: option.splits if_splits)

lemma parse_headers_values:
  assumes "h \<le> length b"
  shows "parse_headers h (fresh_parser\<lparr>parser_buffer := b\<rparr>) =
    (case head_values (take h (string_of_bytes b)) of
       None \<Rightarrow> None
     | Some (n, iv) \<Rightarrow> Some (fresh_parser\<lparr>parser_buffer := b, announced_length := n, parsed_invocation := iv\<rparr>))"
proof -
  let ?t = "take h (string_of_bytes b)"
  let ?p = "fresh_parser\<lparr>parser_buffer := bytes_of_string ?t\<rparr>"
  have "parse_headers h (fresh_parser\<lparr>parser_buffer := b\<rparr>) =
      map_option (\<lambda>q. q\<lparr>parser_buffer := b\<rparr>) (parse_headers (length ?t) ?p)"
    using assms parse_header_lines_relocate [of _ b "\<lparr>have_length = False, have_request_id = False,
        have_deadline = False, have_trace = False, header_parser = ?p\<rparr>"]
    by (auto simp: parse_headers_def relocate_def Let_def split: option.split)
  moreover have "q\<lparr>parser_buffer := b\<rparr> =
      fresh_parser\<lparr>parser_buffer := b, announced_length := announced_length q, parsed_invocation := parsed_invocation q\<rparr>"
    if "parse_headers (length ?t) ?p = Some q" for q
    using parse_headers_frame [OF that] by (simp add: header_frame_def fresh_parser_def)
  ultimately show ?thesis
    by (auto simp: head_values_def split: option.split)
qed

section \<open>The parser against the whole message\<close>

definition body_parser :: "nat \<Rightarrow> invocation \<Rightarrow> bytes \<Rightarrow> next_parser" where
  "body_parser n iv e = \<lparr>parser_status = Parse_incomplete, parser_buffer = [], announced_length = n,
     headers_complete = True, parsed_invocation = iv\<lparr>event_bytes := e\<rparr>\<rparr>"

lemma body_invocation: "parsed_invocation (body_parser n iv e) = iv\<lparr>event_bytes := e\<rparr>"
  by (simp add: body_parser_def)

definition head_of :: "bytes \<Rightarrow> nat \<Rightarrow> nat \<Rightarrow> invocation \<Rightarrow> bool" where
  "head_of x h n iv \<longleftrightarrow> str_find header_delimiter (string_of_bytes x) = Some h
     \<and> h + 4 \<le> maximum_runtime_header_bytes \<and> head_values (take h (string_of_bytes x)) = Some (n, iv)"

text \<open>The state of a parser that has taken the bytes \<open>x\<close> and waits for more.\<close>

definition reading :: "bytes \<Rightarrow> next_parser \<Rightarrow> bool" where
  "reading x p \<longleftrightarrow>
     (p = fresh_parser\<lparr>parser_buffer := x\<rparr> \<and> str_find header_delimiter (string_of_bytes x) = None
        \<and> length x < maximum_runtime_header_bytes)
     \<or> (\<exists>h n iv. head_of x h n iv \<and> length (drop (h + 4) x) < n \<and> p = body_parser n iv (drop (h + 4) x))"

definition doomed :: "bytes \<Rightarrow> bool" where
  "doomed x \<longleftrightarrow> (\<forall>y. message (x @ y) = None)"

definition agrees :: "bytes \<Rightarrow> next_parser \<Rightarrow> bool" where
  "agrees x p \<longleftrightarrow>
     (case parser_status p of
        Parse_incomplete \<Rightarrow> reading x p
      | Parse_complete \<Rightarrow> message x = Some (parsed_invocation p)
      | Parse_error \<Rightarrow> doomed x)"

lemma head_of_append:
  assumes "head_of x h n iv"
  shows "head_of (x @ y) h n iv" and "drop (h + 4) (x @ y) = drop (h + 4) x @ y"
  using assms header_delimiter_bound [of x h] str_find_append [of header_delimiter "string_of_bytes x" h "string_of_bytes y"]
  by (auto simp: head_of_def)

lemma message_of_head:
  assumes "head_of x h n iv"
  shows "message x = (if length (drop (h + 4) x) = n then Some (iv\<lparr>event_bytes := drop (h + 4) x\<rparr>) else None)"
  using assms by (simp add: head_of_def message_def del: length_drop)

lemma doomed_too_long:
  assumes "head_of x h n iv" and "n < length (drop (h + 4) x)"
  shows "doomed x"
  unfolding doomed_def
  using assms message_of_head [OF head_of_append(1) [OF assms(1)]] head_of_append(2) [OF assms(1)] by auto

lemma append_event_body:
  assumes "length e \<le> n"
  shows "append_event b (body_parser n iv e) =
    (if n < length (e @ b) then (body_parser n iv e)\<lparr>parser_status := Parse_error\<rparr>
     else if length (e @ b) = n then (body_parser n iv (e @ b))\<lparr>parser_status := Parse_complete\<rparr>
     else body_parser n iv (e @ b))"
  using assms by (auto simp: append_event_def body_parser_def Let_def)

lemma append_event_more:
  assumes "length e = n"
  shows "append_event b ((body_parser n iv e)\<lparr>parser_status := Parse_complete\<rparr>) =
    (if b = [] then (body_parser n iv e)\<lparr>parser_status := Parse_complete\<rparr>
     else (body_parser n iv e)\<lparr>parser_status := Parse_error\<rparr>)"
  using assms by (auto simp: append_event_def body_parser_def Let_def)

lemma agrees_body:
  assumes "head_of x h n iv" and "p = append_event b (body_parser n iv e)" and "length e \<le> n"
    and "drop (h + 4) x = e @ b"
  shows "agrees x p"
proof -
  consider "n < length (e @ b)" | "length (e @ b) = n" | "length (e @ b) < n" by linarith
  then show ?thesis
  proof cases
    case 1
    with assms doomed_too_long [OF assms(1)] show ?thesis by (simp add: append_event_body agrees_def)
  next
    case 2
    then have "p = (body_parser n iv (e @ b))\<lparr>parser_status := Parse_complete\<rparr>"
      using assms(2,3) by (simp add: append_event_body)
    with 2 assms(4) message_of_head [OF assms(1)] show ?thesis
      by (simp add: agrees_def body_parser_def del: length_drop)
  next
    case 3
    then have "p = body_parser n iv (e @ b)" using assms(2,3) by (simp add: append_event_body)
    moreover from this have "reading x p"
      unfolding reading_def using assms(1,4) 3
      by (intro disjI2 exI [of _ h] exI [of _ n] exI [of _ iv]) (simp del: length_drop)
    ultimately show ?thesis by (simp add: agrees_def body_parser_def)
  qed
qed

definition body_start :: "bytes \<Rightarrow> bytes \<Rightarrow> next_parser \<Rightarrow> next_parser" where
  "body_start first later p2 =
     (let p3 = append_event first (p2\<lparr>headers_complete := True\<rparr>)
      in if parser_status p3 = Parse_error then p3 else append_event later (p3\<lparr>parser_buffer := []\<rparr>))"

lemma append_event_buffer [simp]:
  "append_event b (p\<lparr>parser_buffer := c\<rparr>) = (append_event b p)\<lparr>parser_buffer := c\<rparr>"
  by (simp add: append_event_def Let_def)

lemma agrees_start:
  assumes "head_of x h n iv" and "event_bytes iv = []" and "drop (h + 4) x = first @ later"
  shows "agrees x (body_start first later (fresh_parser\<lparr>parser_buffer := buf, announced_length := n,
    parsed_invocation := iv\<rparr>))"
proof -
  have "iv\<lparr>event_bytes := []\<rparr> = iv" using assms(2) by simp
  then have p: "(fresh_parser\<lparr>parser_buffer := buf, announced_length := n, parsed_invocation := iv\<rparr>)
      \<lparr>headers_complete := True\<rparr> = (body_parser n iv [])\<lparr>parser_buffer := buf\<rparr>"
    by (simp add: body_parser_def fresh_parser_def)
  have clear: "(body_parser n iv e)\<lparr>parser_buffer := []\<rparr> = body_parser n iv e" for e
    by (simp add: body_parser_def)
  note step = body_start_def p append_event_buffer append_event_body [of "[]"] Let_def
  consider "n < length first" | "length first = n" | "length first < n" by linarith
  then show ?thesis
  proof cases
    case 1
    with assms(3) doomed_too_long [OF assms(1)] show ?thesis by (simp add: step agrees_def)
  next
    case 2
    have "body_start first later (fresh_parser\<lparr>parser_buffer := buf, announced_length := n, parsed_invocation := iv\<rparr>) =
        append_event later ((body_parser n iv first)\<lparr>parser_status := Parse_complete\<rparr>)"
      using 2 by (simp add: step) (simp add: body_parser_def del: append_event_buffer flip: append_event_buffer)
    moreover have "agrees x (append_event later ((body_parser n iv first)\<lparr>parser_status := Parse_complete\<rparr>))"
      using 2 assms(3) message_of_head [OF assms(1)] doomed_too_long [OF assms(1)]
      by (simp add: append_event_more agrees_def body_invocation del: length_drop)
    ultimately show ?thesis by simp
  next
    case 3
    then have "body_start first later (fresh_parser\<lparr>parser_buffer := buf, announced_length := n, parsed_invocation := iv\<rparr>) =
        append_event later (body_parser n iv first)"
      by (simp add: step clear) (simp add: body_parser_def)
    with agrees_body [OF assms(1) _ _ assms(3)] 3 show ?thesis by simp
  qed
qed

lemma agrees_found:
  assumes found: "str_find header_delimiter (string_of_bytes (x @ take k b)) = Some h"
    and le: "h + 4 \<le> maximum_runtime_header_bytes"
  shows "agrees (x @ b) (case parse_headers h (fresh_parser\<lparr>parser_buffer := x @ take k b\<rparr>) of
      None \<Rightarrow> (fresh_parser\<lparr>parser_buffer := x @ take k b\<rparr>)\<lparr>parser_status := Parse_error\<rparr>
    | Some p2 \<Rightarrow> body_start (drop (h + 4) (x @ take k b)) (drop k b) p2)"
proof -
  let ?buf = "x @ take k b"
  have whole: "x @ b @ y = ?buf @ drop k b @ y" for y by simp
  note bound = header_delimiter_bound [OF found]
  then have "h \<le> length ?buf" by simp
  note vals = parse_headers_values [OF this]
  show ?thesis
  proof (cases "head_values (take h (string_of_bytes ?buf))")
    case None
    have "message (x @ b @ y) = None" for y
      using str_find_append [OF found, of "string_of_bytes (drop k b @ y)"] bound None le
      by (simp only: message_def whole string_of_bytes_append) (simp add: string_of_bytes_append)
    with None vals show ?thesis by (simp add: agrees_def doomed_def)
  next
    case (Some v)
    obtain n iv where v: "v = (n, iv)" by fastforce
    with Some found le have head: "head_of ?buf h n iv" by (simp add: head_of_def)
    have "event_bytes iv = []"
      using vals Some v parse_headers_frame [of h "fresh_parser\<lparr>parser_buffer := ?buf\<rparr>"]
      by (simp add: header_frame_def fresh_parser_def)
    moreover have "head_of (x @ b) h n iv" "drop (h + 4) (x @ b) = drop (h + 4) ?buf @ drop k b"
      using head_of_append [OF head, of "drop k b"] by simp_all
    ultimately show ?thesis using agrees_start vals Some v by simp
  qed
qed

text \<open>One call of \<open>feed\<close> in front of the headers.\<close>

lemma agrees_head:
  assumes "str_find header_delimiter (string_of_bytes x) = None" and short: "length x < maximum_runtime_header_bytes"
  shows "agrees (x @ b) (feed b (fresh_parser\<lparr>parser_buffer := x\<rparr>))"
proof -
  let ?k = "min (length b) (maximum_runtime_header_bytes - length x)"
  let ?buf = "x @ take ?k b" and ?p = "fresh_parser\<lparr>parser_buffer := x\<rparr>"
  have buf: "?buf = take maximum_runtime_header_bytes (x @ b)" using short by (simp add: min_def)
  have open_: "parser_status ?p = Parse_incomplete" "\<not> headers_complete ?p" "parser_buffer ?p = x"
    by (simp_all add: fresh_parser_def)
  show ?thesis
  proof (cases "str_find header_delimiter (string_of_bytes ?buf)")
    case None
    show ?thesis
    proof (cases "length ?buf = maximum_runtime_header_bytes")
      case True
      have "message (x @ b @ y) = None" for y
      proof (rule ccontr)
        assume "message (x @ b @ y) \<noteq> None"
        then obtain h where "str_find header_delimiter (string_of_bytes (x @ b @ y)) = Some h"
          and "h + 4 \<le> maximum_runtime_header_bytes"
          by (auto simp: message_def split: option.splits if_splits)
        from str_find_within [OF this(1), of maximum_runtime_header_bytes] this(2)
        have "str_find header_delimiter (string_of_bytes (take maximum_runtime_header_bytes (x @ b @ y))) \<noteq> None"
          by (simp add: string_of_bytes_take)
        moreover have "take maximum_runtime_header_bytes (x @ b @ y) = ?buf"
          using True short by (auto simp: buf min_def)
        ultimately show False using None by (simp only:) simp
      qed
      with None True open_ show ?thesis by (simp add: feed_def agrees_def doomed_def Let_def)
    next
      case False
      then have "?k = length b" and "length x + length b < maximum_runtime_header_bytes"
        using short by (auto simp: min_def split: if_splits)
      moreover from this None have "reading (x @ b) (fresh_parser\<lparr>parser_buffer := x @ b\<rparr>)"
        by (simp add: reading_def)
      ultimately show ?thesis
        using None False open_ by (simp add: feed_def agrees_def fresh_parser_def Let_def)
    qed
  next
    case (Some h)
    note bound = header_delimiter_bound [OF Some]
    have le: "h + 4 \<le> maximum_runtime_header_bytes" using bound short by (simp add: min_def split: if_splits)
    have "feed b ?p = (case parse_headers h (fresh_parser\<lparr>parser_buffer := ?buf\<rparr>) of
          None \<Rightarrow> (fresh_parser\<lparr>parser_buffer := ?buf\<rparr>)\<lparr>parser_status := Parse_error\<rparr>
        | Some p2 \<Rightarrow> body_start (drop (h + 4) ?buf) (drop ?k b) p2)"
      using Some le open_ by (simp add: feed_def Let_def fresh_parser_def body_start_def split: option.split)
    with agrees_found [OF Some le] show ?thesis by simp
  qed
qed

lemma agrees_feed: "reading x p \<Longrightarrow> agrees (x @ b) (feed b p)"
proof -
  assume "reading x p"
  then consider "p = fresh_parser\<lparr>parser_buffer := x\<rparr>" "str_find header_delimiter (string_of_bytes x) = None"
      "length x < maximum_runtime_header_bytes"
    | h n iv where "head_of x h n iv" "length (drop (h + 4) x) < n" "p = body_parser n iv (drop (h + 4) x)"
    by (auto simp: reading_def)
  then show ?thesis
  proof cases
    case 1
    with agrees_head show ?thesis by blast
  next
    case 2
    then have "feed b p = append_event b (body_parser n iv (drop (h + 4) x))"
      by (simp add: feed_def body_parser_def)
    with agrees_body [OF head_of_append(1) [OF 2(1)] _ _ head_of_append(2) [OF 2(1)]] 2(2) show ?thesis
      by (metis less_imp_le)
  qed
qed

lemma reading_message: "reading x p \<Longrightarrow> message x = None"
  using message_of_head by (fastforce simp: reading_def message_def)

lemma message_SomeD:
  assumes "message x = Some i"
  obtains h n iv where "head_of x h n iv" "length (drop (h + 4) x) = n" "i = iv\<lparr>event_bytes := drop (h + 4) x\<rparr>"
  using assms by (auto simp: message_def head_of_def simp del: length_drop split: option.splits if_splits)

lemma message_prefix:
  assumes "message x = Some i" and "message (x @ y) = Some j"
  shows "y = [] \<and> i = j"
proof -
  from assms(1) obtain h n iv where h: "head_of x h n iv" and n: "length (drop (h + 4) x) = n" by (rule message_SomeD)
  from message_of_head [OF head_of_append(1) [OF h]] assms(2) head_of_append(2) [OF h, of y] n
  have "y = []" by (auto split: if_splits)
  with assms show ?thesis by simp
qed

text \<open>How the parser stands after any pieces.\<close>

definition stands :: "bytes list \<Rightarrow> next_parser \<Rightarrow> bool" where
  "stands pieces p \<longleftrightarrow>
     (case parser_status p of
        Parse_incomplete \<Rightarrow> reading (concat pieces) p
      | Parse_complete \<Rightarrow> \<exists>first later. pieces = first @ later \<and> message (concat first) = Some (parsed_invocation p)
      | Parse_error \<Rightarrow> doomed (concat pieces))"

lemma doomed_append: "doomed x \<Longrightarrow> doomed (x @ y)"
  by (simp add: doomed_def)

lemma stands_feed: "stands pieces p \<Longrightarrow> stands (pieces @ [b]) (feed b p)"
proof (cases "parser_status p")
  case Parse_incomplete
  assume "stands pieces p"
  with Parse_incomplete agrees_feed [of "concat pieces" p b] have "agrees (concat (pieces @ [b])) (feed b p)"
    by (simp add: stands_def)
  then show ?thesis
    by (auto simp: agrees_def stands_def split: next_parse_status.splits)
      (metis append.right_neutral concat_append concat.simps)
next
  case Parse_complete
  assume "stands pieces p"
  with Parse_complete show ?thesis by (auto simp: stands_def feed_def) blast
next
  case Parse_error
  assume "stands pieces p"
  with Parse_error show ?thesis by (auto simp: stands_def feed_def dest: doomed_append)
qed

lemma stands_feed_all: "stands pieces (feed_all pieces)"
proof (induction pieces rule: rev_induct)
  case Nil
  have "str_find header_delimiter [] = None" by (simp add: header_delimiter_def CRLF_def)
  then have "reading [] fresh_parser"
    by (simp add: reading_def fresh_parser_def string_of_bytes_def maximum_runtime_header_bytes_def)
  then show ?case by (simp add: stands_def feed_all_def fresh_parser_def)
next
  case (snoc b pieces)
  from stands_feed [OF this] show ?case by (simp add: feed_all_def)
qed

lemma message_fed:
  assumes "message (concat pieces) = Some i"
  shows "parser_status (feed_all pieces) = Parse_complete \<and> parsed_invocation (feed_all pieces) = i"
proof (cases "parser_status (feed_all pieces)")
  case Parse_incomplete
  with stands_feed_all [of pieces] reading_message assms show ?thesis by (fastforce simp: stands_def)
next
  case Parse_complete
  with stands_feed_all [of pieces] obtain first later where "pieces = first @ later"
    "message (concat first) = Some (parsed_invocation (feed_all pieces))" by (auto simp: stands_def)
  with message_prefix [of "concat first" _ "concat later" i] assms Parse_complete show ?thesis by simp
next
  case Parse_error
  with stands_feed_all [of pieces] assms show ?thesis
    by (auto simp: stands_def doomed_def dest: spec [of _ "[]"])
qed

section \<open>A message written by the runtime\<close>

definition header_text :: "invocation \<Rightarrow> string" where
  "header_text iv = status_line
     @ CRLF @ ''Content-Length: '' @ nat_to_string (length (event_bytes iv))
     @ CRLF @ ''Lambda-Runtime-Aws-Request-Id: '' @ request_id iv
     @ CRLF @ ''Lambda-Runtime-Deadline-Ms: '' @ nat_to_string (unat (invocation_deadline_ms iv))
     @ CRLF @ ''Lambda-Runtime-Trace-Id: '' @ trace_id iv"

definition encode_invocation :: "invocation \<Rightarrow> bytes" where
  "encode_invocation iv = bytes_of_string (header_text iv @ header_delimiter) @ event_bytes iv"

definition sendable :: "invocation \<Rightarrow> bool" where
  "sendable iv \<longleftrightarrow> safe_request_id (request_id iv) \<and> CR \<notin> set (request_id iv) \<and> trim (request_id iv) = request_id iv
     \<and> CR \<notin> set (trace_id iv) \<and> trim (trace_id iv) = trace_id iv
     \<and> length (event_bytes iv) \<le> maximum_runtime_event_bytes
     \<and> length (header_text iv) + 4 \<le> maximum_runtime_header_bytes"

lemma str_find_delimiter_line:
  assumes "CR \<notin> set l"
  shows "c \<noteq> CR \<Longrightarrow> str_find header_delimiter (l @ CRLF @ c # t) =
      map_option (\<lambda>n. n + 2 + length l) (str_find header_delimiter (c # t))"
    and "str_find header_delimiter (l @ header_delimiter) = Some (length l)"
  using assms
  by (induction l) (auto simp: header_delimiter_def CRLF_def starts_with_def option.map_comp o_def)

lemma digits_no_CR: "list_all is_digit s \<Longrightarrow> CR \<notin> set s"
  by (auto simp: list_all_iff is_digit_def char_in_def CR_def)

lemma trim_digits: "list_all is_digit s \<Longrightarrow> trim s = s"
proof -
  assume "list_all is_digit s"
  then have "\<forall>c \<in> set s. \<not> is_ows c"
    by (auto simp: list_all_iff is_digit_def char_in_def is_ows_def HT_def)
  then have "dropWhile is_ows s = s" "dropWhile is_ows (rev s) = rev s"
    by (auto simp: dropWhile_eq_self_iff hd_rev)
  then show ?thesis by (simp add: trim_def)
qed

lemma trim_space: "trim (CHR '' '' # s) = trim s"
  by (simp add: trim_def is_ows_def)

lemma parse_line_step:
  assumes "CR \<notin> set l" and "l \<noteq> []"
  shows "parse_header_lines (l @ CRLF @ t) st =
      (case parse_header_line l st of None \<Rightarrow> None | Some st' \<Rightarrow> parse_header_lines t st')"
    and "parse_header_lines l st = parse_header_line l st"
proof -
  obtain c l' where l: "l = c # l'" using assms(2) by (cases l) auto
  have "take (length l) (l @ CRLF @ t) = l" "drop (length l + 2) (l @ CRLF @ t) = t"
    by (simp_all add: CRLF_def)
  with str_find_CRLF [OF assms(1), of t] show "parse_header_lines (l @ CRLF @ t) st =
      (case parse_header_line l st of None \<Rightarrow> None | Some st' \<Rightarrow> parse_header_lines t st')"
    by (simp add: l Let_def del: str_find.simps split: option.split)
  from str_find_CRLF_None [OF assms(1)] show "parse_header_lines l st = parse_header_line l st"
    by (simp add: l Let_def del: str_find.simps split: option.split)
qed

lemma parse_named_line:
  assumes "CHR '':'' \<notin> set name" and "name \<noteq> []" and "trim v = v"
  shows "parse_header_line (name @ '': '' @ v) st = apply_header name v st"
  using assms by (simp add: parse_header_line_def trim_space)

lemmas header_names = apply_header_def ascii_equal_def

lemma parse_content_length:
  assumes "parse_decimal v = Some n" and "unat n \<le> maximum_runtime_event_bytes" and "\<not> have_length st"
  shows "parse_header_line (''Content-Length: '' @ v) st = Some (st\<lparr>have_length := True,
    header_parser := (header_parser st)\<lparr>announced_length := unat n\<rparr>\<rparr>)"
proof -
  have "trim v = v" using assms(1) by (simp add: parse_decimal_iff trim_digits)
  with assms parse_named_line [of "''Content-Length''" v st] show ?thesis
    by (simp add: header_names)
qed

lemma parse_request_id:
  assumes "safe_request_id v" and "trim v = v" and "\<not> have_request_id st"
  shows "parse_header_line (''Lambda-Runtime-Aws-Request-Id: '' @ v) st =
    Some (set_invocation (\<lambda>i. i\<lparr>request_id := v\<rparr>) (st\<lparr>have_request_id := True\<rparr>))"
  using assms parse_named_line [of "''Lambda-Runtime-Aws-Request-Id''" v st] by (simp add: header_names)

lemma parse_deadline:
  assumes "parse_decimal v = Some n" and "\<not> have_deadline st"
  shows "parse_header_line (''Lambda-Runtime-Deadline-Ms: '' @ v) st =
    Some (set_invocation (\<lambda>i. i\<lparr>invocation_deadline_ms := n\<rparr>) (st\<lparr>have_deadline := True\<rparr>))"
proof -
  have "trim v = v" using assms(1) by (simp add: parse_decimal_iff trim_digits)
  with assms parse_named_line [of "''Lambda-Runtime-Deadline-Ms''" v st] show ?thesis
    by (simp add: header_names)
qed

lemma parse_trace_id:
  assumes "trim v = v" and "\<not> have_trace st"
  shows "parse_header_line (''Lambda-Runtime-Trace-Id: '' @ v) st =
    Some (set_invocation (\<lambda>i. i\<lparr>trace_id := v\<rparr>) (st\<lparr>have_trace := True\<rparr>))"
  using assms parse_named_line [of "''Lambda-Runtime-Trace-Id''" v st] by (simp add: header_names)

section \<open>Properties of the parser\<close>

lemma colon_lines:
  assumes "CR \<notin> set v"
  shows "CR \<notin> set (''Content-Length: '' @ v)" and "CR \<notin> set (''Lambda-Runtime-Aws-Request-Id: '' @ v)"
    and "CR \<notin> set (''Lambda-Runtime-Deadline-Ms: '' @ v)" and "CR \<notin> set (''Lambda-Runtime-Trace-Id: '' @ v)"
    and "CR \<notin> set status_line"
  using assms by (simp_all add: CR_def status_line_def)

lemma head_values_encoded:
  assumes "sendable iv"
  shows "head_values (header_text iv) = Some (length (event_bytes iv), iv\<lparr>event_bytes := []\<rparr>)"
proof -
  let ?n = "nat_to_string (length (event_bytes iv))" and ?d = "nat_to_string (unat (invocation_deadline_ms iv))"
  let ?p = "fresh_parser\<lparr>parser_buffer := bytes_of_string (header_text iv)\<rparr>"
  let ?st = "\<lparr>have_length = False, have_request_id = False, have_deadline = False, have_trace = False, header_parser = ?p\<rparr>"
  let ?lines = "''Content-Length: '' @ ?n @ CRLF @ ''Lambda-Runtime-Aws-Request-Id: '' @ request_id iv
    @ CRLF @ ''Lambda-Runtime-Deadline-Ms: '' @ ?d @ CRLF @ ''Lambda-Runtime-Trace-Id: '' @ trace_id iv"
  have cr: "CR \<notin> set ?n" "CR \<notin> set ?d" using digits_no_CR [OF nat_to_string_digits] by blast+
  have small: "length (event_bytes iv) < 2 ^ 64" "length (event_bytes iv) \<le> maximum_runtime_event_bytes"
    using assms by (auto simp: sendable_def maximum_runtime_event_bytes_def)
  have n: "parse_decimal ?n = Some (of_nat (length (event_bytes iv)))"
    "unat (of_nat (length (event_bytes iv)) :: 64 word) = length (event_bytes iv)"
    using small(1) nat_to_string_digits by (simp_all add: parse_decimal_iff unsigned_of_nat take_bit_nat_eq_self)
  have d: "parse_decimal ?d = Some (invocation_deadline_ms iv)"
    using nat_to_string_digits unsigned_less [of "invocation_deadline_ms iv"] by (simp add: parse_decimal_iff)
  have s: "safe_request_id (request_id iv)" "CR \<notin> set (request_id iv)" "trim (request_id iv) = request_id iv"
    "CR \<notin> set (trace_id iv)" "trim (trace_id iv) = trace_id iv"
    using assms by (simp_all add: sendable_def)
  have layout: "header_text iv = status_line @ CRLF @ ?lines" by (simp add: header_text_def)
  have step: "parse_header_lines (a @ b @ CRLF @ t) st =
      (case parse_header_line (a @ b) st of None \<Rightarrow> None | Some st' \<Rightarrow> parse_header_lines t st')"
    if "CR \<notin> set (a @ b)" "a \<noteq> []" for a b t st
    using parse_line_step(1) [of "a @ b" t st] that by simp
  have "parse_header_lines ?lines ?st = Some \<lparr>have_length = True, have_request_id = True, have_deadline = True,
      have_trace = True, header_parser = ?p\<lparr>announced_length := length (event_bytes iv),
        parsed_invocation := iv\<lparr>event_bytes := []\<rparr>\<rparr>\<rparr>"
    using s small(2) n by (simp add: step [OF colon_lines(1) [OF cr(1)]] step [OF colon_lines(2) [OF s(2)]]
        step [OF colon_lines(3) [OF cr(2)]] parse_line_step(2) [OF colon_lines(4) [OF s(4)]]
        parse_content_length [OF n(1)] parse_request_id [OF s(1,3)] parse_deadline [OF d]
        parse_trace_id [OF s(5)] set_invocation_def fresh_parser_def del: append_Cons)
  moreover have "str_find CRLF (header_text iv) = Some (length status_line)"
    unfolding layout using str_find_CRLF [OF colon_lines(5) [OF cr(1)]] by blast
  moreover have "drop (length status_line + 2) (header_text iv) = ?lines"
    unfolding layout by (simp del: append_Cons)
  moreover have "take (length status_line) (header_text iv) = status_line" unfolding layout by simp
  ultimately show ?thesis
    by (simp add: head_values_def parse_headers_def del: append_Cons append.simps)
qed

lemma find_end_encoded:
  assumes "sendable iv"
  shows "str_find header_delimiter (string_of_bytes (encode_invocation iv)) = Some (length (header_text iv))"
proof -
  have cr: "CR \<notin> set (nat_to_string n)" for n using digits_no_CR [OF nat_to_string_digits] .
  have t: "CR \<notin> set (request_id iv)" "CR \<notin> set (trace_id iv)" using assms by (simp_all add: sendable_def)
  let ?d = "nat_to_string (unat (invocation_deadline_ms iv))"
  let ?l4 = "''Lambda-Runtime-Trace-Id: '' @ trace_id iv"
  let ?l3 = "''Lambda-Runtime-Deadline-Ms: '' @ ?d"
  let ?l2 = "''Lambda-Runtime-Aws-Request-Id: '' @ request_id iv"
  let ?l1 = "''Content-Length: '' @ nat_to_string (length (event_bytes iv))"
  note line = str_find_delimiter_line(1)
  have first: "CHR ''C'' \<noteq> CR" "CHR ''L'' \<noteq> CR" by (simp_all add: CR_def)
  have 4: "str_find header_delimiter (?l4 @ header_delimiter) = Some (length ?l4)"
    by (rule str_find_delimiter_line(2) [OF colon_lines(4) [OF t(2)]])
  have 3: "str_find header_delimiter (?l3 @ CRLF @ ?l4 @ header_delimiter) = Some (length ?l4 + 2 + length ?l3)"
    using line [OF colon_lines(3) [OF cr] first(2)] 4 by (simp del: str_find.simps)
  have 2: "str_find header_delimiter (?l2 @ CRLF @ ?l3 @ CRLF @ ?l4 @ header_delimiter) =
      Some (length ?l4 + 2 + length ?l3 + 2 + length ?l2)"
    using line [OF colon_lines(2) [OF t(1)] first(2)] 3 by (simp del: str_find.simps)
  have 1: "str_find header_delimiter (?l1 @ CRLF @ ?l2 @ CRLF @ ?l3 @ CRLF @ ?l4 @ header_delimiter) =
      Some (length ?l4 + 2 + length ?l3 + 2 + length ?l2 + 2 + length ?l1)"
    using line [OF colon_lines(1) [OF cr] first(2)] 2 by (simp del: str_find.simps)
  have "str_find header_delimiter (status_line @ CRLF @ ?l1 @ CRLF @ ?l2 @ CRLF @ ?l3 @ CRLF @ ?l4 @ header_delimiter) =
      Some (length ?l4 + 2 + length ?l3 + 2 + length ?l2 + 2 + length ?l1 + 2 + length status_line)"
    using line [OF colon_lines(5) [OF cr] first(1)] 1 by (simp del: str_find.simps)
  then have "str_find header_delimiter (header_text iv @ header_delimiter) = Some (length (header_text iv))"
    by (simp add: header_text_def del: str_find.simps)
  from str_find_append [OF this] show ?thesis by (simp add: encode_invocation_def)
qed

lemma message_encoded:
  assumes "sendable iv"
  shows "message (encode_invocation iv) = Some iv"
proof -
  have "take (length (header_text iv)) (string_of_bytes (encode_invocation iv)) = header_text iv"
    and "drop (length (header_text iv) + 4) (encode_invocation iv) = event_bytes iv"
    by (simp_all add: encode_invocation_def)
  with assms show ?thesis
    using find_end_encoded [OF assms] head_values_encoded [OF assms] by (simp add: message_def sendable_def)
qed

text \<open>C20. However the bytes of a message are cut into pieces, the parser ends on the invocation that
  the message holds: the runtime's own encoding of an invocation, fed in any pieces, is parsed back
  to exactly that invocation.\<close>

theorem invocation_roundtrip:
  assumes "sendable iv" and "concat pieces = encode_invocation iv"
  shows "parser_status (feed_all pieces) = Parse_complete \<and> parsed_invocation (feed_all pieces) = iv"
  using message_fed [of pieces iv] message_encoded [OF assms(1)] assms(2) by simp

definition sample_invocation :: invocation where
  "sample_invocation = \<lparr>request_id = ''a1'', invocation_deadline_ms = 5, trace_id = ''t'', event_bytes = [123, 125]\<rparr>"

lemma sample_sendable: "sendable sample_invocation"
proof -
  have "nat_to_string 5 = [digit_char 5]" "nat_to_string (Suc (Suc 0)) = [digit_char 2]"
    by (subst nat_to_string.simps, simp add: numeral_eq_Suc)+
  then show ?thesis
    by (simp add: sendable_def sample_invocation_def safe_request_id_def contains_any_def HT_def CR_def
        trim_def is_ows_def header_text_def status_line_def maximum_runtime_event_bytes_def
        maximum_runtime_header_bytes_def)
qed

theorem invocation_roundtrip_witness:
  "parsed_invocation (feed_all [take 7 (encode_invocation sample_invocation),
     drop 7 (encode_invocation sample_invocation)]) = sample_invocation"
  using invocation_roundtrip [OF sample_sendable, of "[take 7 (encode_invocation sample_invocation),
      drop 7 (encode_invocation sample_invocation)]"] by simp

text \<open>C21. The incremental parser implements the reading of a whole message: when it has completed, its
  invocation is what the message read so far holds; when it has failed, no continuation of the
  bytes is a message; and while it waits, the bytes are not yet one.\<close>

theorem parser_implements_message:
  "case parser_status (feed_all pieces) of
     Parse_complete \<Rightarrow> \<exists>first later. pieces = first @ later
       \<and> message (concat first) = Some (parsed_invocation (feed_all pieces))
   | Parse_error \<Rightarrow> \<forall>bs. message (concat pieces @ bs) = None
   | Parse_incomplete \<Rightarrow> message (concat pieces) = None"
  using stands_feed_all [of pieces]
  by (auto simp: stands_def doomed_def reading_message split: next_parse_status.split)

end
