(* ===== verification/Runtime_Client.thy ===== *)
theory Runtime_Client
  imports Socket_Transport Next_Response
begin

text \<open>
  \<^verbatim>\<open>src/runtime/client.cpp\<close>: the three exchanges with the runtime on a connected
  socket. A call that never returns has the value \<open>None\<close>; the answer of a polling call is an
  invocation or nothing.
\<close>

definition safe_line :: "string \<Rightarrow> bool" where
  "safe_line s \<longleftrightarrow> s \<noteq> [] \<and> \<not> contains_any [CR, LF] s"

definition client_safe_request_id :: "string \<Rightarrow> bool" where
  "client_safe_request_id s \<longleftrightarrow>
     safe_line s \<and> \<not> contains_any [CHR ''/'', CHR ''?'', CHR ''#'', CHR '' '', HT, BACKSLASH] s"

definition client_escape_char :: "char \<Rightarrow> string" where
  "client_escape_char c =
     (if c = DQUOTE then [BACKSLASH, DQUOTE]
      else if c = BACKSLASH then [BACKSLASH, BACKSLASH]
      else if c = LF then [BACKSLASH, CHR ''n'']
      else if c = CR then [BACKSLASH, CHR ''r'']
      else if c = HT then [BACKSLASH, CHR ''t'']
      else if of_char c < (0x20 :: nat)
        then BACKSLASH # ''u00'' @ [hex_digit (of_char c div 16), hex_digit (of_char c mod 16)]
      else [c])"

definition client_append_json_string :: "string \<Rightarrow> string \<Rightarrow> string" where
  "client_append_json_string out s = out @ [DQUOTE] @ concat (map client_escape_char s) @ [DQUOTE]"

definition transport_write_text :: "('a, 'k) socket_api \<Rightarrow> int \<Rightarrow> string \<Rightarrow> 'k wire_state effect" where
  "transport_write_text api fd t = socket_write api fd (bytes_of_string t)"

definition accepted_line :: string where
  "accepted_line = ''HTTP/1.1 202 Accepted''"

partial_function (option) read_ack_loop ::
    "('a, 'k) socket_api \<Rightarrow> int \<Rightarrow> string \<Rightarrow> 'k wire_state \<Rightarrow> (bool \<times> 'k wire_state) option" where
  "read_ack_loop api fd heads s =
     (if length heads > maximum_runtime_header_bytes then Some (False, s)
      else
        Option.bind (read_some api fd 1024 s) (\<lambda>((received, data), s').
          if received \<le> 0 then Some (False, s')
          else
            let heads' = heads @ string_of_bytes data
            in if str_find header_delimiter heads' \<noteq> None
               then Some (take (case str_find CRLF heads' of None \<Rightarrow> length heads' | Some n \<Rightarrow> n) heads'
                      = accepted_line, s')
               else read_ack_loop api fd heads' s'))"

definition read_response_ack :: "('a, 'k) socket_api \<Rightarrow> int \<Rightarrow> 'k wire_state effect" where
  "read_response_ack api fd = read_ack_loop api fd []"

partial_function (option) poll_loop ::
    "('a, 'k) socket_api \<Rightarrow> int \<Rightarrow> next_parser \<Rightarrow> 'k wire_state \<Rightarrow> (invocation option \<times> 'k wire_state) option" where
  "poll_loop api fd p s =
     (if parser_status p \<noteq> Parse_incomplete then Some (Some (parsed_invocation p), s)
      else
        Option.bind (read_some api fd (16 * 1024) s) (\<lambda>((received, data), s').
          if received \<le> 0 then Some (None, s')
          else
            let p' = feed data p
            in if parser_status p' = Parse_error then Some (None, s') else poll_loop api fd p' s'))"

definition poll_next_on ::
    "('a, 'k) socket_api \<Rightarrow> int \<Rightarrow> string \<Rightarrow> 'k wire_state \<Rightarrow> (invocation option \<times> 'k wire_state) option" where
  "poll_next_on api fd authority s =
     (let request = make_next_request_head authority
      in if request = [] then Some (None, s)
         else case transport_write_text api fd request s of
                None \<Rightarrow> None
              | Some (ok, s') \<Rightarrow> if \<not> ok then Some (None, s') else poll_loop api fd fresh_parser s')"

definition send_response_on ::
    "('a, 'k) socket_api \<Rightarrow> int \<Rightarrow> string \<Rightarrow> string \<Rightarrow> http_response \<Rightarrow> 'k wire_state effect" where
  "send_response_on api fd authority req response =
     (let head = make_streaming_request_head authority req
      in if head = [] then succeed False
         else and_then (transport_write_text api fd head)
           (and_then (write_streaming_response (socket_write api fd) response)
           (and_then (shutdown_write api fd) (read_response_ack api fd))))"

definition error_body :: "string \<Rightarrow> string \<Rightarrow> string" where
  "error_body error_type error_message =
     client_append_json_string
       (client_append_json_string (''{'' @ [DQUOTE] @ ''errorMessage'' @ [DQUOTE] @ '':'') error_message
        @ '','' @ [DQUOTE] @ ''errorType'' @ [DQUOTE] @ '':'') error_type
     @ ''}''"

definition error_head :: "string \<Rightarrow> string \<Rightarrow> string \<Rightarrow> nat \<Rightarrow> string" where
  "error_head authority req error_type n =
     ''POST /2018-06-01/runtime/invocation/'' @ req @ ''/error HTTP/1.1'' @ CRLF @ ''Host: '' @ authority
     @ CRLF @ ''Lambda-Runtime-Function-Error-Type: '' @ error_type
     @ CRLF @ ''Content-Type: application/vnd.aws.lambda.error+json''
     @ CRLF @ ''Content-Length: '' @ nat_to_string n
     @ CRLF @ ''Connection: close'' @ CRLF @ CRLF"

definition send_invocation_error_on ::
    "('a, 'k) socket_api \<Rightarrow> int \<Rightarrow> string \<Rightarrow> string \<Rightarrow> string \<Rightarrow> string \<Rightarrow> 'k wire_state effect" where
  "send_invocation_error_on api fd authority req error_type error_message =
     (if parse_runtime_authority authority = None \<or> \<not> client_safe_request_id req \<or> \<not> safe_line error_type
      then succeed False
      else
        let body_text = error_body error_type error_message;
            request = error_head authority req error_type (length body_text) @ body_text
        in and_then (transport_write_text api fd request)
             (and_then (shutdown_write api fd) (read_response_ack api fd)))"

text \<open>The client: a new connection for every exchange, which ends with its transport. The wire of an
  exchange starts empty.\<close>

definition with_transport ::
    "('a, 'k) socket_api \<Rightarrow> string \<Rightarrow> 'r \<Rightarrow> (int \<Rightarrow> 'k wire_state \<Rightarrow> ('r \<times> 'k wire_state) option) \<Rightarrow> 'k \<Rightarrow>
     ('r \<times> 'k) option" where
  "with_transport api authority failed exchange k =
     (case connect_transport api authority k of
        (None, k1) \<Rightarrow> Some (failed, k1)
      | (Some fd, k1) \<Rightarrow>
          (case exchange fd (k1, []) of
             None \<Rightarrow> None
           | Some (r, (k2, _)) \<Rightarrow> Some (r, snd (close_transport api fd k2))))"

definition client_poll_next :: "('a, 'k) socket_api \<Rightarrow> string \<Rightarrow> 'k \<Rightarrow> (invocation option \<times> 'k) option" where
  "client_poll_next api authority =
     with_transport api authority None (\<lambda>fd. poll_next_on api fd authority)"

definition client_send_response ::
    "('a, 'k) socket_api \<Rightarrow> string \<Rightarrow> string \<Rightarrow> http_response \<Rightarrow> 'k \<Rightarrow> (bool \<times> 'k) option" where
  "client_send_response api authority req response =
     with_transport api authority False (\<lambda>fd. send_response_on api fd authority req response)"

definition client_send_invocation_error ::
    "('a, 'k) socket_api \<Rightarrow> string \<Rightarrow> string \<Rightarrow> string \<Rightarrow> string \<Rightarrow> 'k \<Rightarrow> (bool \<times> 'k) option" where
  "client_send_invocation_error api authority req error_type error_message =
     with_transport api authority False
       (\<lambda>fd. send_invocation_error_on api fd authority req error_type error_message)"

section \<open>Reading\<close>

text \<open>The pieces that a run of reads returned, each of them with a positive count.\<close>

fun reads :: "('a, 'k) socket_api \<Rightarrow> int \<Rightarrow> 'k wire_state \<Rightarrow> bytes list \<Rightarrow> 'k wire_state \<Rightarrow> bool" where
  "reads api fd s [] s' \<longleftrightarrow> s' = s"
| "reads api fd s (p # ps) s' \<longleftrightarrow>
     (\<exists>n s1. read_some api fd (16 * 1024) s = Some ((n, p), s1) \<and> 0 < n \<and> reads api fd s1 ps s')"

lemma read_some_wire: "read_some api fd n s = Some (r, s') \<Longrightarrow> snd s' = snd s"
  by (auto simp: read_some_def split: if_splits option.splits)

lemma poll_loop_reads:
  fixes api :: "('a, 'k) socket_api"
  assumes "poll_loop api fd p s = Some r"
  shows "fst r = Some iv \<longrightarrow> snd (snd r) = snd s \<and> (\<exists>pieces. reads api fd s pieces (snd r)
    \<and> parsed_invocation (fold feed pieces p) = iv \<and> parser_status (fold feed pieces p) \<noteq> Parse_incomplete
    \<and> (parser_status p \<noteq> Parse_error \<longrightarrow> parser_status (fold feed pieces p) \<noteq> Parse_error)
    \<and> (pieces \<noteq> [] \<longrightarrow> parser_status (fold feed (butlast pieces) p) = Parse_incomplete))"
  (is "?Q api fd p s r")
proof (rule poll_loop.raw_induct [OF _ assms, where P = ?Q])
  fix f :: "('a, 'k) socket_api \<Rightarrow> int \<Rightarrow> next_parser \<Rightarrow> 'k wire_state \<Rightarrow> (invocation option \<times> 'k wire_state) option"
    and api :: "('a, 'k) socket_api" and fd p s r
  assume hyp: "\<And>api fd p s r. f api fd p s = Some r \<Longrightarrow> ?Q api fd p s r"
    and body: "(if parser_status p \<noteq> Parse_incomplete then Some (Some (parsed_invocation p), s)
      else Option.bind (read_some api fd (16 * 1024) s) (\<lambda>((received, data), s').
          if received \<le> 0 then Some (None, s')
          else let p' = feed data p
            in if parser_status p' = Parse_error then Some (None, s') else f api fd p' s')) = Some r"
  show "?Q api fd p s r"
  proof (cases "parser_status p = Parse_incomplete")
    case False
    with body show ?thesis by (auto intro!: exI [of _ "[]"])
  next
    case True
    with body obtain n d s1 where rd: "read_some api fd (16 * 1024) s = Some ((n, d), s1)"
      by (auto simp: Option.bind_eq_Some_conv)
    show ?thesis
    proof (cases "n \<le> 0 \<or> parser_status (feed d p) = Parse_error")
      case stop: True
      with body True rd show ?thesis by (auto simp: Let_def split: if_splits)
    next
      case go: False
      with body True rd have "f api fd (feed d p) s1 = Some r" by (simp add: Let_def)
      note rest = hyp [OF this]
      show ?thesis
      proof (intro impI)
        assume "fst r = Some iv"
        with rest obtain ps where ps: "reads api fd s1 ps (snd r)" "parsed_invocation (fold feed ps (feed d p)) = iv"
          "parser_status (fold feed ps (feed d p)) \<notin> {Parse_incomplete, Parse_error}" "snd (snd r) = snd s1"
          "ps \<noteq> [] \<longrightarrow> parser_status (fold feed (butlast ps) (feed d p)) = Parse_incomplete"
          using go by auto
        with go rd read_some_wire [OF rd] True
        show "snd (snd r) = snd s \<and> (\<exists>pieces. reads api fd s pieces (snd r)
            \<and> parsed_invocation (fold feed pieces p) = iv \<and> parser_status (fold feed pieces p) \<noteq> Parse_incomplete
            \<and> (parser_status p \<noteq> Parse_error \<longrightarrow> parser_status (fold feed pieces p) \<noteq> Parse_error)
            \<and> (pieces \<noteq> [] \<longrightarrow> parser_status (fold feed (butlast pieces) p) = Parse_incomplete))"
          by (intro conjI exI [of _ "d # ps"]) auto
      qed
    qed
  qed
qed

lemma feed_complete: "parser_status p = Parse_complete \<Longrightarrow> feed b p = p"
  by (simp add: feed_def)

lemma fold_feed_complete: "parser_status p = Parse_complete \<Longrightarrow> fold feed bs p = p"
  by (induction bs) (simp_all add: feed_complete)

lemma complete_pieces_message:
  assumes "parser_status (feed_all pieces) = Parse_complete" and "parsed_invocation (feed_all pieces) = iv"
    and "pieces \<noteq> [] \<longrightarrow> parser_status (feed_all (butlast pieces)) = Parse_incomplete"
  shows "message (concat pieces) = Some iv"
proof -
  from stands_feed_all [of pieces] assms(1,2) obtain first later
    where split: "pieces = first @ later" and m: "message (concat first) = Some iv"
    by (auto simp: stands_def)
  have "later = []"
  proof (rule ccontr)
    assume "later \<noteq> []"
    then have "feed_all (butlast pieces) = fold feed (butlast later) (feed_all first)"
      by (simp add: split butlast_append feed_all_def)
    with message_fed [OF m] assms(3) \<open>later \<noteq> []\<close> show False
      by (simp add: split fold_feed_complete)
  qed
  with split m show ?thesis by simp
qed

lemma poll_loop_message:
  assumes "poll_loop api fd fresh_parser s = Some (Some iv, s')"
  obtains pieces where "reads api fd s pieces s'" "message (concat pieces) = Some iv" "snd s' = snd s"
proof -
  from poll_loop_reads [OF assms, of iv] obtain pieces where r: "reads api fd s pieces s'" "snd s' = snd s"
    and p: "parsed_invocation (feed_all pieces) = iv" "parser_status (feed_all pieces) \<noteq> Parse_incomplete"
      "parser_status (feed_all pieces) \<noteq> Parse_error"
      "pieces \<noteq> [] \<longrightarrow> parser_status (feed_all (butlast pieces)) = Parse_incomplete"
    by (auto simp: feed_all_def fresh_parser_def)
  then have "parser_status (feed_all pieces) = Parse_complete" by (cases "parser_status (feed_all pieces)") auto
  from complete_pieces_message [OF this p(1,4)] r that show thesis by blast
qed

section \<open>Writing\<close>

lemma read_ack_loop_wire:
  fixes api :: "('a, 'k) socket_api"
  assumes "read_ack_loop api fd heads s = Some r"
  shows "snd (snd r) = snd s"
proof (rule read_ack_loop.raw_induct [OF _ assms, where P = "\<lambda>api fd heads s r. snd (snd r) = snd s"])
  fix f :: "('a, 'k) socket_api \<Rightarrow> int \<Rightarrow> string \<Rightarrow> 'k wire_state \<Rightarrow> (bool \<times> 'k wire_state) option"
    and api :: "('a, 'k) socket_api" and fd heads s r
  assume hyp: "\<And>api fd heads s r. f api fd heads s = Some r \<Longrightarrow> snd (snd r) = snd s"
    and body: "(if length heads > maximum_runtime_header_bytes then Some (False, s)
      else Option.bind (read_some api fd 1024 s) (\<lambda>((received, data), s').
          if received \<le> 0 then Some (False, s')
          else let heads' = heads @ string_of_bytes data
            in if str_find header_delimiter heads' \<noteq> None
               then Some (take (case str_find CRLF heads' of None \<Rightarrow> length heads' | Some n \<Rightarrow> n) heads'
                      = accepted_line, s')
               else f api fd heads' s')) = Some r"
  then show "snd (snd r) = snd s"
    by (auto simp: Option.bind_eq_Some_conv Let_def dest!: read_some_wire hyp split: if_splits)
qed

lemma delivers_quiet:
  "byte_sink.delivers snd (shutdown_write api fd) []" "byte_sink.delivers snd (read_response_ack api fd) []"
proof -
  show "byte_sink.delivers snd (shutdown_write api fd) []"
    by (auto simp: socket.delivers_def shutdown_write_def split: if_splits prod.splits)
  show "byte_sink.delivers snd (read_response_ack api fd) []"
    using read_ack_loop_wire by (fastforce simp: socket.delivers_def read_response_ack_def)
qed

lemma delivers_error:
  assumes "parse_runtime_authority authority \<noteq> None" and "client_safe_request_id req" and "safe_line error_type"
  shows "byte_sink.delivers snd (send_invocation_error_on api fd authority req error_type error_message)
    (bytes_of_string (error_head authority req error_type (length (error_body error_type error_message))
      @ error_body error_type error_message))"
  using assms socket.delivers_and_then [OF socket.delivers_write
      socket.delivers_and_then [OF delivers_quiet(1) delivers_quiet(2)]]
  by (auto simp: send_invocation_error_on_def transport_write_text_def Let_def)

lemma delivers_response_exchange:
  assumes "make_streaming_request_head authority req \<noteq> []"
  shows "byte_sink.delivers snd (send_response_on api fd authority req r)
    (bytes_of_string (make_streaming_request_head authority req) @ response_wire r)"
  using assms socket.delivers_and_then [OF socket.delivers_write
      socket.delivers_and_then [OF socket.delivers_response
        socket.delivers_and_then [OF delivers_quiet(1) delivers_quiet(2)]]]
  by (simp add: send_response_on_def transport_write_text_def Let_def)

section \<open>Heads are single blocks\<close>

fun join_lines :: "string list \<Rightarrow> string" where
  "join_lines [] = []"
| "join_lines [l] = l"
| "join_lines (l # m # ls) = l @ CRLF @ join_lines (m # ls)"

definition plain_line :: "string \<Rightarrow> bool" where
  "plain_line l \<longleftrightarrow> l \<noteq> [] \<and> CR \<notin> set l \<and> LF \<notin> set l"

lemma find_joined_end:
  "list_all plain_line ls \<Longrightarrow> ls \<noteq> [] \<Longrightarrow>
   str_find header_delimiter (join_lines ls @ header_delimiter) = Some (length (join_lines ls))"
proof (induction ls rule: join_lines.induct)
  case (2 l)
  then show ?case by (simp add: str_find_delimiter_line(2) plain_line_def)
next
  case (3 l m ls)
  from 3(2) obtain c t where m: "join_lines (m # ls) @ header_delimiter = c # t" and "c \<noteq> CR"
    by (cases m; cases ls) (auto simp: plain_line_def)
  with 3 str_find_delimiter_line(1) [of l c t] show ?case
    by (simp add: plain_line_def del: str_find.simps)
qed simp

definition streaming_lines :: "string \<Rightarrow> string \<Rightarrow> string list" where
  "streaming_lines authority req =
     [''POST /2018-06-01/runtime/invocation/'' @ req @ ''/response HTTP/1.1'', ''Host: '' @ authority,
      ''Lambda-Runtime-Function-Response-Mode: streaming'', ''Transfer-Encoding: chunked'',
      ''Content-Type: application/vnd.awslambda.http-integration-response'',
      ''Trailer: Lambda-Runtime-Function-Error-Type, Lambda-Runtime-Function-Error-Body'',
      ''Connection: close'']"

definition error_lines :: "string \<Rightarrow> string \<Rightarrow> string \<Rightarrow> nat \<Rightarrow> string list" where
  "error_lines authority req error_type n =
     [''POST /2018-06-01/runtime/invocation/'' @ req @ ''/error HTTP/1.1'', ''Host: '' @ authority,
      ''Lambda-Runtime-Function-Error-Type: '' @ error_type,
      ''Content-Type: application/vnd.aws.lambda.error+json'', ''Content-Length: '' @ nat_to_string n,
      ''Connection: close'']"

lemmas line_chars = plain_line_def CR_def LF_def

lemma error_lines_plain:
  assumes "parse_runtime_authority authority \<noteq> None" and "client_safe_request_id req" and "safe_line error_type"
  shows "list_all plain_line (error_lines authority req error_type n)"
    and "error_head authority req error_type n = join_lines (error_lines authority req error_type n) @ header_delimiter"
proof -
  from assms(1) obtain p where "parse_runtime_authority authority = Some p" by auto
  from authority_one_line [OF this] have "CR \<notin> set authority" "LF \<notin> set authority" by auto
  moreover have "CR \<notin> set (nat_to_string n)" "LF \<notin> set (nat_to_string n)"
    using nat_to_string_digits [of n] by (auto simp: list_all_iff is_digit_def char_in_def CR_def LF_def)
  ultimately show "list_all plain_line (error_lines authority req error_type n)"
    using assms(2,3)
    by (auto simp: error_lines_def client_safe_request_id_def safe_line_def contains_any_iff line_chars)
  show "error_head authority req error_type n = join_lines (error_lines authority req error_type n) @ header_delimiter"
    by (simp add: error_head_def error_lines_def header_delimiter_def)
qed

lemma streaming_lines_plain:
  assumes "make_streaming_request_head authority req \<noteq> []"
  shows "list_all plain_line (streaming_lines authority req)"
    and "make_streaming_request_head authority req = join_lines (streaming_lines authority req) @ header_delimiter"
proof -
  from assms have safe: "safe_header_component authority" "safe_header_component req"
    by (auto simp: make_streaming_request_head_def split: if_splits)
  then show "list_all plain_line (streaming_lines authority req)"
    by (auto simp: streaming_lines_def safe_header_component_def contains_any_iff line_chars)
  from assms show "make_streaming_request_head authority req = join_lines (streaming_lines authority req) @ header_delimiter"
    by (auto simp: make_streaming_request_head_def streaming_lines_def header_delimiter_def split: if_splits)
qed

section \<open>Sample sockets for the witnesses\<close>

text \<open>A socket that acknowledges what it is sent, and one that answers a poll.\<close>

lemma answered_acks:
  assumes "\<And>s. read_some api 3 1024 s =
      Some ((int (length (bytes_of_string (accepted_line @ header_delimiter))), bytes_of_string (accepted_line @ header_delimiter)), s)"
  shows "succeeds (read_response_ack api 3)"
proof -
  have plain: "CR \<notin> set accepted_line" by (simp add: accepted_line_def CR_def)
  have "str_find header_delimiter (accepted_line @ header_delimiter) = Some (length accepted_line)"
    by (rule str_find_delimiter_line(2) [OF plain])
  moreover have "str_find CRLF (accepted_line @ header_delimiter) = Some (length accepted_line)"
    using str_find_CRLF [OF plain, of CRLF] by (simp add: header_delimiter_def)
  ultimately show ?thesis
    using assms by (simp add: succeeds_def read_response_ack_def read_ack_loop.simps [of _ _ "[]"] del: str_find.simps)
qed

lemma answered_exchanges:
  assumes "send_call api = send_call sample_socket" and "\<And>fd k. shutdown_call api fd k = (0, k)"
    and "succeeds (read_response_ack api 3)" and "make_streaming_request_head authority req \<noteq> []"
  shows "succeeds (send_response_on api 3 authority req r)"
proof -
  have "succeeds (socket_write api 3 bs)" for bs by (rule sample_socket_writes [OF assms(1)])
  moreover have "succeeds (shutdown_write api 3)" by (simp add: succeeds_def shutdown_write_def assms(2))
  ultimately show ?thesis
    using assms(3,4) by (simp add: send_response_on_def transport_write_text_def succeeds_and_then succeeds_response)
qed

lemma answered_poll:
  assumes "send_call api = send_call sample_socket"
    and "\<And>s. read_some api 3 (16 * 1024) s =
      Some ((int (length (encode_invocation sample_invocation)), encode_invocation sample_invocation), s)"
  shows "\<exists>s'. poll_next_on api 3 ''127.0.0.1:9001'' s = Some (Some sample_invocation, s')"
proof -
  let ?e = "encode_invocation sample_invocation"
  have head: "make_next_request_head ''127.0.0.1:9001'' \<noteq> []"
    by (simp add: make_next_request_head_def safe_authority_def contains_any_def CR_def LF_def HT_def)
  obtain s1 where wr: "socket_write api 3 (bytes_of_string (make_next_request_head ''127.0.0.1:9001'')) s = Some (True, s1)"
    using sample_socket_writes [OF assms(1)] unfolding succeeds_def by fastforce
  have fed: "parser_status (feed ?e fresh_parser) = Parse_complete" "parsed_invocation (feed ?e fresh_parser) = sample_invocation"
    using message_fed [of "[?e]"] message_encoded [OF sample_sendable] by (simp_all add: feed_all_def)
  have "?e \<noteq> []" by (simp add: encode_invocation_def sample_invocation_def)
  moreover have "parser_status fresh_parser = Parse_incomplete" by (simp add: fresh_parser_def)
  ultimately have "poll_loop api 3 fresh_parser s1 = Some (Some sample_invocation, s1)"
    using fed assms(2) by (simp add: poll_loop.simps [of _ _ fresh_parser] poll_loop.simps [of _ _ "feed ?e fresh_parser"] Let_def)
  with head wr show ?thesis by (simp add: poll_next_on_def transport_write_text_def)
qed

text \<open>A kernel whose peer answers the poll with an invocation and every submission with an
  acknowledgement.\<close>

definition turn_socket :: "(unit, nat) socket_api" where
  "turn_socket = sample_socket\<lparr>recv_call := (\<lambda>fd n k.
     let answer = (if n = 1024 then bytes_of_string (accepted_line @ header_delimiter) else encode_invocation sample_invocation)
     in ((int (length answer), 0, answer), k))\<rparr>"

lemma turn_socket_connects: "connect_transport turn_socket ''127.0.0.1:9001'' k = (Some 3, k)"
proof -
  have "parse_runtime_authority ''127.0.0.1:9001'' \<noteq> None" by code_simp
  then show ?thesis by (auto simp: connect_transport_def turn_socket_def sample_socket_def)
qed

lemma turn_socket_reads:
  "read_some turn_socket 3 1024 s = Some ((int (length (bytes_of_string (accepted_line @ header_delimiter))),
     bytes_of_string (accepted_line @ header_delimiter)), s)"
  "read_some turn_socket 3 (16 * 1024) s = Some ((int (length (encode_invocation sample_invocation)), encode_invocation sample_invocation), s)"
proof -
  have recv: "recv_call turn_socket fd n k =
      (let answer = (if n = 1024 then bytes_of_string (accepted_line @ header_delimiter) else encode_invocation sample_invocation)
       in ((int (length answer), 0, answer), k))" for fd n k
    by (simp add: turn_socket_def)
  show "read_some turn_socket 3 1024 s = Some ((int (length (bytes_of_string (accepted_line @ header_delimiter))),
     bytes_of_string (accepted_line @ header_delimiter)), s)"
    "read_some turn_socket 3 (16 * 1024) s = Some ((int (length (encode_invocation sample_invocation)), encode_invocation sample_invocation), s)"
    by (simp_all add: read_some_def recv_retry.simps [of turn_socket] recv ssize_max_def Let_def)
qed

section \<open>Properties\<close>

text \<open>A response exchange that reports success has put exactly the request head and the chunked
  coding of the response on the wire; the head is one block of seven lines without a line break
  inside any of them, so that the authority and the request id cannot add a header.\<close>

lemma response_exchange_delivers:
  assumes "send_response_on api fd authority req r (k, w) = Some (True, (k', w'))"
  shows "\<exists>head. w' = w @ bytes_of_string (head @ header_delimiter) @ response_wire r
    \<and> head = join_lines (streaming_lines authority req) \<and> list_all plain_line (streaming_lines authority req)
    \<and> str_find header_delimiter (head @ header_delimiter) = Some (length head)"
proof -
  have head: "make_streaming_request_head authority req \<noteq> []"
    using assms by (auto simp: send_response_on_def succeed_def)
  note lines = streaming_lines_plain [OF head]
  from delivers_response_exchange [OF head, of api fd r] assms
  have "w' = w @ bytes_of_string (make_streaming_request_head authority req) @ response_wire r"
    unfolding socket.delivers_def by fastforce
  moreover have "streaming_lines authority req \<noteq> []" by (simp add: streaming_lines_def)
  ultimately show ?thesis using lines find_joined_end [OF lines(1)] by simp
qed

text \<open>A poll returns an invocation only after it has put exactly the request head on the wire and
  read, in pieces of positive size, bytes that are a whole message holding that invocation.\<close>

lemma poll_returns_message:
  assumes "poll_next_on api fd authority (k, w) = Some (Some iv, s')"
  shows "safe_authority authority \<and> snd s' = w @ bytes_of_string (make_next_request_head authority)
    \<and> (\<exists>s1 pieces. reads api fd s1 pieces s' \<and> message (concat pieces) = Some iv)"
proof -
  from assms obtain s1 where head: "make_next_request_head authority \<noteq> []"
    and wr: "socket_write api fd (bytes_of_string (make_next_request_head authority)) (k, w) = Some (True, s1)"
    and loop: "poll_loop api fd fresh_parser s1 = Some (Some iv, s')"
    by (auto simp: poll_next_on_def transport_write_text_def Let_def split: if_splits option.splits)
  from loop obtain pieces where "reads api fd s1 pieces s'" "message (concat pieces) = Some iv" "snd s' = snd s1"
    by (rule poll_loop_message)
  moreover have "snd s1 = w @ bytes_of_string (make_next_request_head authority)"
    using socket_write_delivers [OF wr] by auto
  moreover have "safe_authority authority"
    using head by (auto simp: make_next_request_head_def split: if_splits)
  ultimately show ?thesis by (cases s1) auto
qed

text \<open>C24. An error report with an unsafe authority, request id or error type puts nothing on the wire
  and fails; any other puts a prefix of one request on it, all of it when it succeeds: a head of six
  lines without a line break inside them, which announces the length of the body that follows.\<close>

theorem error_exchange_delivers:
  assumes "send_invocation_error_on api fd authority req error_type error_message (k, w) = Some (ok, (k', w'))"
  shows "if parse_runtime_authority authority \<noteq> None \<and> client_safe_request_id req \<and> safe_line error_type
    then (\<exists>head content n. w' = w @ take n (bytes_of_string (head @ header_delimiter @ content))
        \<and> (ok \<longrightarrow> w' = w @ bytes_of_string (head @ header_delimiter @ content))
        \<and> content = error_body error_type error_message
        \<and> head = join_lines (error_lines authority req error_type (length content))
        \<and> list_all plain_line (error_lines authority req error_type (length content))
        \<and> str_find header_delimiter (head @ header_delimiter @ content) = Some (length head))
    else \<not> ok \<and> w' = w"
proof (cases "parse_runtime_authority authority \<noteq> None \<and> client_safe_request_id req \<and> safe_line error_type")
  case False
  with assms show ?thesis by (auto simp: send_invocation_error_on_def succeed_def)
next
  case True
  let ?c = "error_body error_type error_message" and ?ls = "error_lines authority req error_type (length (error_body error_type error_message))"
  have lines: "list_all plain_line ?ls" "error_head authority req error_type (length ?c) = join_lines ?ls @ header_delimiter"
    using error_lines_plain True by blast+
  have "?ls \<noteq> []" by (simp add: error_lines_def)
  from str_find_append [OF find_joined_end [OF lines(1) this], of ?c]
  have "str_find header_delimiter (join_lines ?ls @ header_delimiter @ ?c) = Some (length (join_lines ?ls))" by simp
  moreover from True delivers_error [of authority req error_type api fd error_message] assms
  obtain n where "n \<le> length (bytes_of_string (error_head authority req error_type (length ?c) @ ?c))"
    "w' = w @ take n (bytes_of_string (error_head authority req error_type (length ?c) @ ?c))"
    "ok \<longrightarrow> n = length (bytes_of_string (error_head authority req error_type (length ?c) @ ?c))"
    unfolding socket.delivers_def by fastforce
  ultimately show ?thesis
    using True lines by (simp, intro exI [of _ n]) auto
qed

theorem error_exchange_delivers_witness:
  "\<exists>k' w'. send_invocation_error_on turn_socket 3 ''127.0.0.1:9001'' ''a1'' ''T'' ''m'' (2, [7]) = Some (True, (k', w'))
    \<and> (\<exists>head. w' = [7] @ bytes_of_string (head @ header_delimiter @ error_body ''T'' ''m''))"
proof -
  let ?a = "''127.0.0.1:9001''"
  have calls: "send_call turn_socket = send_call sample_socket" "\<And>fd k. shutdown_call turn_socket fd k = (0, k)"
    by (simp_all add: turn_socket_def sample_socket_def)
  have "parse_runtime_authority ?a \<noteq> None" "client_safe_request_id ''a1''" "safe_line ''T''" by code_simp+
  then have safe: "\<not> (parse_runtime_authority ?a = None \<or> \<not> client_safe_request_id ''a1'' \<or> \<not> safe_line ''T'')" by blast
  have "succeeds (socket_write turn_socket 3 bs)" for bs by (rule sample_socket_writes [OF calls(1)])
  moreover have "succeeds (shutdown_write turn_socket 3)" by (simp add: succeeds_def shutdown_write_def calls(2))
  ultimately have "succeeds (send_invocation_error_on turn_socket 3 ?a ''a1'' ''T'' ''m'')"
    unfolding send_invocation_error_on_def if_not_P [OF safe] Let_def transport_write_text_def
    using answered_acks [OF turn_socket_reads(1)] by (intro succeeds_and_then)
  then obtain k' w' where run: "send_invocation_error_on turn_socket 3 ?a ''a1'' ''T'' ''m'' (2, [7]) = Some (True, (k', w'))"
    unfolding succeeds_def by (metis surj_pair)
  from error_exchange_delivers [OF this] safe obtain head where
    "w' = [7] @ bytes_of_string (head @ header_delimiter @ error_body ''T'' ''m'')" by auto
  with run show ?thesis by blast
qed

end
