(* ===== verification/Logging.thy ===== *)
theory Logging
  imports Handler Runtime_Client
begin

text \<open>
  \<^verbatim>\<open>src/logging.cpp\<close>: the entries of the log. The stream is \<open>None\<close> for
  a null pointer and otherwise the operation that writes a text to it; the parts of an entry are written one
  after the other.
\<close>

definition json_escape_char :: "char \<Rightarrow> string" where
  "json_escape_char c =
     (if c = DQUOTE then [BACKSLASH, DQUOTE]
      else if c = BACKSLASH then [BACKSLASH, BACKSLASH]
      else if c = LF then [BACKSLASH, CHR ''n'']
      else if c = CR then [BACKSLASH, CHR ''r'']
      else if c = HT then [BACKSLASH, CHR ''t'']
      else if of_char c < (0x20 :: nat)
        then BACKSLASH # ''u00'' @ [hex_digit (of_char c div 16), hex_digit (of_char c mod 16)]
      else [c])"

definition json_string_text :: "string \<Rightarrow> string" where
  "json_string_text s = [DQUOTE] @ concat (map json_escape_char s) @ [DQUOTE]"

fun outcome_name :: "handler_outcome \<Rightarrow> string" where
  "outcome_name Outcome_status = ''status''"
| "outcome_name Outcome_bad_request = ''bad_request''"
| "outcome_name Outcome_access_denied = ''access_denied''"
| "outcome_name Outcome_origin_failure = ''origin_failure''"
| "outcome_name Outcome_media_failure = ''media_failure''"
| "outcome_name Outcome_media_success = ''media_success''"

fun origin_error_name :: "origin_download_error option \<Rightarrow> string" where
  "origin_error_name None = ''none''"
| "origin_error_name (Some Dl_invalid_argument) = ''invalid_argument''"
| "origin_error_name (Some Dl_resolution) = ''resolution''"
| "origin_error_name (Some Dl_resolve_pin) = ''resolve_pin''"
| "origin_error_name (Some Dl_easy_init) = ''easy_init''"
| "origin_error_name (Some Dl_curl_config) = ''curl_config''"
| "origin_error_name (Some Dl_transfer) = ''transfer''"
| "origin_error_name (Some Dl_response_info) = ''response_info''"
| "origin_error_name (Some Dl_response_policy) = ''response_policy''"
| "origin_error_name (Some Dl_deadline) = ''deadline''"
| "origin_error_name (Some Dl_redirect) = ''redirect''"

fun media_error_name :: "media_conversion_error option \<Rightarrow> string" where
  "media_error_name None = ''none''"
| "media_error_name (Some Media_unsupported) = ''unsupported''"
| "media_error_name (Some Media_decode) = ''decode''"
| "media_error_name (Some Media_convert) = ''convert''"

text \<open>A quoted name of the fixed texts.\<close>

definition quoted :: "string \<Rightarrow> string" where
  "quoted s = [DQUOTE] @ s @ [DQUOTE]"

definition invocation_entry ::
    "string \<Rightarrow> handler_diagnostics \<Rightarrow> u16 \<Rightarrow> nat \<Rightarrow> nat \<Rightarrow> u64 \<Rightarrow> string" where
  "invocation_entry req d code event_size response_size handler_microseconds =
     ''{'' @ quoted ''category'' @ '':'' @ quoted ''invocation'' @ '','' @ quoted ''requestId'' @ '':''
     @ json_string_text req
     @ '','' @ quoted ''outcome'' @ '':'' @ json_string_text (outcome_name (diag_outcome d))
     @ '','' @ quoted ''originError'' @ '':'' @ json_string_text (origin_error_name (diag_origin_error d))
     @ '','' @ quoted ''mediaError'' @ '':'' @ json_string_text (media_error_name (diag_media_error d))
     @ '','' @ quoted ''status'' @ '':'' @ nat_to_string (unat code)
     @ '','' @ quoted ''eventBytes'' @ '':'' @ nat_to_string event_size
     @ '','' @ quoted ''originBytes'' @ '':'' @ nat_to_string (diag_origin_bytes d)
     @ '','' @ quoted ''responseBytes'' @ '':'' @ nat_to_string response_size
     @ '','' @ quoted ''fetchMicros'' @ '':'' @ nat_to_string (unat (diag_fetch_microseconds d))
     @ '','' @ quoted ''mediaMicros'' @ '':'' @ nat_to_string (unat (diag_media_microseconds d))
     @ '','' @ quoted ''handlerMicros'' @ '':'' @ nat_to_string (unat handler_microseconds)
     @ ''}'' @ [LF]"

definition runtime_failure_entry :: "string \<Rightarrow> string \<Rightarrow> string" where
  "runtime_failure_entry req category =
     ''{'' @ quoted ''category'' @ '':'' @ json_string_text category
     @ '','' @ quoted ''requestId'' @ '':'' @ json_string_text req @ ''}'' @ [LF]"

definition log_invocation ::
    "(string \<Rightarrow> 'w \<Rightarrow> 'w) option \<Rightarrow> string \<Rightarrow> handler_diagnostics \<Rightarrow> u16 \<Rightarrow> nat \<Rightarrow> nat \<Rightarrow> u64 \<Rightarrow> 'w \<Rightarrow> 'w" where
  "log_invocation out req d code event_size response_size handler_microseconds w =
     (case out of
        None \<Rightarrow> w
      | Some put \<Rightarrow> put (invocation_entry req d code event_size response_size handler_microseconds) w)"

definition log_runtime_failure :: "(string \<Rightarrow> 'w \<Rightarrow> 'w) option \<Rightarrow> string \<Rightarrow> string \<Rightarrow> 'w \<Rightarrow> 'w" where
  "log_runtime_failure out req category w =
     (case out of None \<Rightarrow> w | Some put \<Rightarrow> put (runtime_failure_entry req category) w)"

section \<open>Reading an entry\<close>

text \<open>A reader of one-line JSON objects whose values are strings and numerals; a value is
  \<open>Inl\<close> a string or \<open>Inr\<close> a number. The strings are read by
  \<open>unescape\<close>.\<close>

definition read_value :: "string \<Rightarrow> ((string + nat) \<times> string) option" where
  "read_value s =
     (if s \<noteq> [] \<and> hd s = DQUOTE then map_option (apfst Inl) (unescape (tl s))
      else
        let digits = takeWhile is_digit s
        in if digits = [] then None else Some (Inr (digits_value digits), dropWhile is_digit s))"

lemma read_value_shorter: "read_value s = Some (v, r) \<Longrightarrow> length r < length s"
proof -
  have "length (dropWhile is_digit s) < length s" if "takeWhile is_digit s \<noteq> []"
    using that by (metis append_Nil2 length_append length_greater_0_conv less_add_same_cancel2 takeWhile_dropWhile_id)
  then show "read_value s = Some (v, r) \<Longrightarrow> length r < length s"
    by (cases s) (auto simp: read_value_def apfst_def map_prod_def Let_def less_Suc_eq dest!: unescape_shorter split: if_splits prod.splits)
qed

function (sequential) read_fields :: "string \<Rightarrow> (string \<times> (string + nat)) list option" where
  "read_fields (q # s) =
     (if q \<noteq> DQUOTE then None
      else case unescape s of
             Some (n, c # t) \<Rightarrow>
               if c \<noteq> CHR '':'' then None
               else (case read_value t of
                       Some (v, r) \<Rightarrow>
                         if r = ''}'' then Some [(n, v)]
                         else if r \<noteq> [] \<and> hd r = CHR '','' then map_option ((#) (n, v)) (read_fields (tl r))
                         else None
                     | None \<Rightarrow> None)
           | _ \<Rightarrow> None)"
| "read_fields [] = None"
  by pat_completeness auto

termination
  by (relation "measure length")
    (auto dest!: sym [of "Some _"] unescape_shorter read_value_shorter)

definition read_entry :: "string \<Rightarrow> (string \<times> (string + nat)) list option" where
  "read_entry s = (if s \<noteq> [] \<and> hd s = CHR ''{'' then read_fields (tl s) else None)"

text \<open>The text of a list of members.\<close>

fun value_text :: "string + nat \<Rightarrow> string" where
  "value_text (Inl s) = json_string_text s"
| "value_text (Inr n) = nat_to_string n"

fun fields_text :: "(string \<times> (string + nat)) list \<Rightarrow> string" where
  "fields_text [] = ''}''"
| "fields_text ((n, v) # fs) =
     json_string_text n @ '':'' @ value_text v @ (if fs = [] then ''}'' else '','' @ fields_text fs)"

lemma json_escape_read: "unescape (json_escape_char c @ r) = map_option (\<lambda>(t, u). (c # t, u)) (unescape r)"
proof (cases "c = CHR 0x08 \<or> c = CHR 0x0C")
  case True
  then have small: "of_char c < (0x20 :: nat)" by auto
  from True have "json_escape_char c = BACKSLASH # ''u00'' @ [hex_digit (of_char c div 16), hex_digit (of_char c mod 16)]"
    by (auto simp: json_escape_char_def special_chars)
  then have "unescape (json_escape_char c @ r) =
      (case (hex_number [CHR ''0'', CHR ''0'', hex_digit (of_char c div 16), hex_digit (of_char c mod 16)], unescape r) of
         (Some n, Some (t, u)) \<Rightarrow> if n < 256 then Some (char_of n # t, u) else None
       | _ \<Rightarrow> None)"
    by simp (simp add: special_chars)
  with small show ?thesis by (simp add: hex_escape split: option.split)
next
  case False
  then have "json_escape_char c = escape_char c"
    by (simp add: json_escape_char_def escape_char_def)
  then show ?thesis by (simp add: unescape_escape)
qed

lemma json_text_read: "unescape (concat (map json_escape_char s) @ DQUOTE # u) = Some (s, u)"
  by (induction s) (simp_all add: json_escape_read)

lemma json_string_text_Cons: "json_string_text s @ u = DQUOTE # concat (map json_escape_char s) @ DQUOTE # u"
  by (simp add: json_string_text_def)

lemma not_digit_special: "\<not> is_digit (CHR '','')" "\<not> is_digit (CHR ''}'')" "\<not> is_digit DQUOTE"
  by (simp_all add: is_digit_def char_in_def DQUOTE_def)

lemma read_value_text:
  assumes "c = CHR '','' \<or> c = CHR ''}''"
  shows "read_value (value_text v @ c # u) = Some (v, c # u)"
proof (cases v)
  case (Inl s)
  then show ?thesis by (simp add: read_value_def json_string_text_Cons json_text_read apfst_def)
next
  case (Inr n)
  let ?d = "nat_to_string n"
  from assms have "\<not> is_digit c" using not_digit_special by auto
  then have "takeWhile is_digit (?d @ c # u) = ?d" "dropWhile is_digit (?d @ c # u) = c # u"
    using nat_to_string_props [of n] by (simp_all add: list_all_iff takeWhile_append2 dropWhile_append2)
  moreover have "hd ?d \<noteq> DQUOTE"
    using nat_to_string_props [of n] not_digit_special by (cases ?d) auto
  ultimately show ?thesis
    using Inr nat_to_string_props [of n] by (cases ?d) (simp_all add: read_value_def)
qed

lemma read_fields_text: "fs \<noteq> [] \<Longrightarrow> read_fields (fields_text fs) = Some fs"
proof (induction fs rule: fields_text.induct)
  case 1
  then show ?case by simp
next
  case (2 n v fs)
  note comma = read_value_text [of "CHR '',''"] and brace = read_value_text [of "CHR ''}''" _ "[]"]
  from 2 show ?case
    by (cases "fs = []") (simp_all add: json_string_text_Cons json_text_read comma brace)
qed

lemma read_entry_text: "fs \<noteq> [] \<Longrightarrow> read_entry (''{'' @ fields_text fs) = Some fs"
  by (simp add: read_entry_def read_fields_text)

text \<open>No part of an entry holds a line break.\<close>

lemma escaped_no_LF: "LF \<notin> set (json_escape_char c)"
proof -
  have hex: "hex_digit n \<noteq> CHR 0x0A" if "n < 16" for n
  proof -
    from that have "hex_digit n \<in> set ''0123456789abcdef''" unfolding hex_digit_def by (intro nth_mem) simp
    then show ?thesis by auto
  qed
  show ?thesis
  proof (cases "of_char c < (0x20 :: nat)")
    case True
    then have "of_char c div 16 < (16 :: nat)" "of_char c mod 16 < (16 :: nat)" by simp_all
    from this [THEN hex] show ?thesis by (simp add: json_escape_char_def special_chars)
  next
    case False
    then have "c \<noteq> CHR 0x0A" by auto
    with False show ?thesis by (simp add: json_escape_char_def special_chars)
  qed
qed

lemma text_no_LF: "LF \<notin> set (json_string_text s)"
  using escaped_no_LF by (auto simp: json_string_text_def DQUOTE_def LF_def)

lemma numeral_no_LF: "LF \<notin> set (nat_to_string n)"
  using nat_to_string_props [of n] by (auto simp: list_all_iff is_digit_def char_in_def LF_def)

lemma fields_no_LF: "LF \<notin> set (fields_text fs)"
proof (induction fs rule: fields_text.induct)
  case 1
  show ?case by (simp add: LF_def)
next
  case (2 n v fs)
  then show ?case using text_no_LF numeral_no_LF by (cases v) (simp_all add: LF_def)
qed

text \<open>The fixed texts need no escape.\<close>

lemma quoted_text: "list_all (\<lambda>c. json_escape_char c = [c]) s \<Longrightarrow> quoted s = json_string_text s"
  by (induction s) (simp_all add: quoted_def json_string_text_def)

definition invocation_fields ::
    "string \<Rightarrow> handler_diagnostics \<Rightarrow> u16 \<Rightarrow> nat \<Rightarrow> nat \<Rightarrow> u64 \<Rightarrow> (string \<times> (string + nat)) list" where
  "invocation_fields req d code event_size response_size handler_microseconds =
     [(''category'', Inl ''invocation''), (''requestId'', Inl req), (''outcome'', Inl (outcome_name (diag_outcome d))),
      (''originError'', Inl (origin_error_name (diag_origin_error d))),
      (''mediaError'', Inl (media_error_name (diag_media_error d))),
      (''status'', Inr (unat code)), (''eventBytes'', Inr event_size), (''originBytes'', Inr (diag_origin_bytes d)),
      (''responseBytes'', Inr response_size), (''fetchMicros'', Inr (unat (diag_fetch_microseconds d))),
      (''mediaMicros'', Inr (unat (diag_media_microseconds d))),
      (''handlerMicros'', Inr (unat handler_microseconds))]"

lemma invocation_entry_text:
  "invocation_entry req d code event_size response_size handler_microseconds =
     (''{'' @ fields_text (invocation_fields req d code event_size response_size handler_microseconds)) @ [LF]"
  by (simp add: invocation_entry_def invocation_fields_def quoted_text json_escape_char_def special_chars)

lemma runtime_failure_text:
  "runtime_failure_entry req category =
     (''{'' @ fields_text [(''category'', Inl category), (''requestId'', Inl req)]) @ [LF]"
  by (simp add: runtime_failure_entry_def quoted_text json_escape_char_def special_chars)

section \<open>Properties\<close>

text \<open>C18. Every entry is one line of JSON, whatever bytes the request id is made of: it ends with its
  only line break and reads back as exactly its members, so that no value can forge a member or an entry;
  and the names of the outcomes and of the errors tell all of them apart.\<close>

theorem entries_read_back:
  "(\<exists>line. invocation_entry req d code event_size response_size handler_microseconds = line @ [LF] \<and> LF \<notin> set line
      \<and> read_entry line = Some (invocation_fields req d code event_size response_size handler_microseconds))
   \<and> (\<exists>line. runtime_failure_entry req category = line @ [LF] \<and> LF \<notin> set line
      \<and> read_entry line = Some [(''category'', Inl category), (''requestId'', Inl req)])
   \<and> inj outcome_name \<and> inj origin_error_name \<and> inj media_error_name"
proof (intro conjI)
  let ?fs = "invocation_fields req d code event_size response_size handler_microseconds"
  let ?gs = "[(''category'', Inl category), (''requestId'', Inl req)] :: (string \<times> (string + nat)) list"
  have "LF \<notin> set (''{'' @ fields_text fs)" for fs using fields_no_LF by (simp add: LF_def)
  moreover have "?fs \<noteq> []" "?gs \<noteq> []" by (simp_all add: invocation_fields_def)
  ultimately show "\<exists>line. invocation_entry req d code event_size response_size handler_microseconds = line @ [LF] \<and> LF \<notin> set line
      \<and> read_entry line = Some ?fs"
    and "\<exists>line. runtime_failure_entry req category = line @ [LF] \<and> LF \<notin> set line \<and> read_entry line = Some ?gs"
    using invocation_entry_text runtime_failure_text read_entry_text by blast+
  show "inj outcome_name"
    by (rule injI) (erule outcome_name.elims; erule outcome_name.elims; simp)
  show "inj media_error_name"
    by (rule injI) (erule media_error_name.elims; erule media_error_name.elims; simp)
  show "inj origin_error_name"
    by (rule injI) (erule origin_error_name.elims; erule origin_error_name.elims; simp)
qed

end
