(* ===== verification/Invocation.thy ===== *)
theory Invocation
  imports Runtime_Client
begin

text \<open>
  \<^verbatim>\<open>src/runtime/invocation.cpp\<close>: the handling of one invocation and its single
  submission. The interface \<^verbatim>\<open>InvocationResponder\<close> is a record of operations over a
  world; an operation that throws has a value of its own, and \<open>None\<close> stands for a call that
  does not return.
\<close>

datatype submission = Submitted bool | Submission_raised

record 'w responder =
  responder_send :: "string \<Rightarrow> http_response \<Rightarrow> 'w \<Rightarrow> (submission \<times> 'w) option"
  responder_report :: "string \<Rightarrow> string \<Rightarrow> string \<Rightarrow> 'w \<Rightarrow> (submission \<times> 'w) option"

text \<open>How a handler ends: with a response or one of the three kinds of exception.\<close>

datatype handler_end = Handler_response http_response | Handler_bad_alloc | Handler_exception | Handler_unknown

type_synonym 'w handler = "invocation \<Rightarrow> 'w \<Rightarrow> (handler_end \<times> 'w) option"

datatype execution_result =
    Response_sent | Response_failure | Out_of_memory_reported | Unhandled_error_reported
  | Unknown_error_reported | Error_submission_failure

definition report_error ::
    "'w responder \<Rightarrow> string \<Rightarrow> string \<Rightarrow> string \<Rightarrow> execution_result \<Rightarrow> 'w \<Rightarrow> (execution_result \<times> 'w) option" where
  "report_error R req error_type error_message reported w =
     (case responder_report R req error_type error_message w of
        None \<Rightarrow> None
      | Some (Submitted True, w') \<Rightarrow> Some (reported, w')
      | Some (_, w') \<Rightarrow> Some (Error_submission_failure, w'))"

text \<open>The call of the handler. A null handler is reported like an exception, without a call.\<close>

definition call_handler :: "'w handler option \<Rightarrow> 'w handler" where
  "call_handler handler iv w =
     (case handler of None \<Rightarrow> Some (Handler_exception, w) | Some run \<Rightarrow> run iv w)"

definition send_answer :: "'w responder \<Rightarrow> string \<Rightarrow> http_response \<Rightarrow> 'w \<Rightarrow> (execution_result \<times> 'w) option" where
  "send_answer R req response w =
     (case responder_send R req response w of
        None \<Rightarrow> None
      | Some (Submitted True, w') \<Rightarrow> Some (Response_sent, w')
      | Some (_, w') \<Rightarrow> Some (Response_failure, w'))"

definition execute_invocation ::
    "'w responder \<Rightarrow> invocation \<Rightarrow> 'w handler option \<Rightarrow> 'w \<Rightarrow> (execution_result \<times> 'w) option" where
  "execute_invocation R iv handler w =
     (case call_handler handler iv w of
        None \<Rightarrow> None
      | Some (Handler_bad_alloc, w') \<Rightarrow>
          report_error R (request_id iv) ''RuntimeOutOfMemory'' ''Invocation allocation failed before response''
            Out_of_memory_reported w'
      | Some (Handler_exception, w') \<Rightarrow>
          report_error R (request_id iv) ''UnhandledInvocationError'' ''Invocation failed before response''
            Unhandled_error_reported w'
      | Some (Handler_unknown, w') \<Rightarrow>
          report_error R (request_id iv) ''UnknownInvocationError'' ''Invocation failed before response''
            Unknown_error_reported w'
      | Some (Handler_response response, w') \<Rightarrow> send_answer R (request_id iv) response w')"

section \<open>A responder and a handler that keep a log\<close>

datatype runtime_event =
    Ev_poll "invocation option"
  | Ev_trace string bool
  | Ev_handled invocation handler_end
  | Ev_respond string http_response submission
  | Ev_report string string string submission

definition logged_call :: "('r \<Rightarrow> runtime_event) \<Rightarrow> ('w \<Rightarrow> ('r \<times> 'w) option) \<Rightarrow>
    'w \<times> runtime_event list \<Rightarrow> ('r \<times> ('w \<times> runtime_event list)) option" where
  "logged_call event f s = map_option (\<lambda>(r, w). (r, (w, snd s @ [event r]))) (f (fst s))"

definition logged_responder :: "'w responder \<Rightarrow> ('w \<times> runtime_event list) responder" where
  "logged_responder R =
     \<lparr>responder_send = (\<lambda>req response. logged_call (Ev_respond req response) (responder_send R req response)),
      responder_report = (\<lambda>req ty msg. logged_call (Ev_report req ty msg) (responder_report R req ty msg))\<rparr>"

definition logged_handler :: "'w handler \<Rightarrow> ('w \<times> runtime_event list) handler" where
  "logged_handler run iv = logged_call (Ev_handled iv) (run iv)"

lemma logged_call_Some:
  "logged_call event f (w, es) = Some (r, s) \<longleftrightarrow> (\<exists>w'. f w = Some (r, w') \<and> s = (w', es @ [event r]))"
  by (auto simp: logged_call_def)

lemmas logged_simps = logged_call_Some logged_responder_def logged_handler_def

text \<open>What is submitted for the end of a handler, and the result for each fate of the submission.\<close>

fun submission_event :: "string \<Rightarrow> handler_end \<Rightarrow> submission \<Rightarrow> runtime_event" where
  "submission_event req (Handler_response r) s = Ev_respond req r s"
| "submission_event req Handler_bad_alloc s =
     Ev_report req ''RuntimeOutOfMemory'' ''Invocation allocation failed before response'' s"
| "submission_event req Handler_exception s =
     Ev_report req ''UnhandledInvocationError'' ''Invocation failed before response'' s"
| "submission_event req Handler_unknown s =
     Ev_report req ''UnknownInvocationError'' ''Invocation failed before response'' s"

fun result_of :: "handler_end \<Rightarrow> submission \<Rightarrow> execution_result" where
  "result_of (Handler_response _) (Submitted True) = Response_sent"
| "result_of (Handler_response _) _ = Response_failure"
| "result_of Handler_bad_alloc (Submitted True) = Out_of_memory_reported"
| "result_of Handler_exception (Submitted True) = Unhandled_error_reported"
| "result_of Handler_unknown (Submitted True) = Unknown_error_reported"
| "result_of _ _ = Error_submission_failure"

text \<open>Both submissions judge their outcome in the same way.\<close>

definition judge :: "execution_result \<Rightarrow> execution_result \<Rightarrow> (submission \<times> 'w) option \<Rightarrow> (execution_result \<times> 'w) option" where
  "judge good bad = map_option (\<lambda>(s, w). (if s = Submitted True then good else bad, w))"

lemma submission_judged:
  "(case x of None \<Rightarrow> None | Some (Submitted True, w') \<Rightarrow> Some (good, w') | Some (_, w') \<Rightarrow> Some (bad, w')) = judge good bad x"
  by (simp add: judge_def split: option.split prod.split submission.split bool.split)

lemma report_error_judged:
  "report_error R req ty msg reported w = judge reported Error_submission_failure (responder_report R req ty msg w)"
  unfolding report_error_def by (rule submission_judged)

lemma send_answer_judged:
  "send_answer R req response w = judge Response_sent Response_failure (responder_send R req response w)"
  unfolding send_answer_def by (rule submission_judged)

lemma judge_logged:
  assumes "judge good bad (logged_call event f (w, es)) = Some (result, (w', es'))"
  shows "\<exists>s. es' = es @ [event s] \<and> result = (if s = Submitted True then good else bad)"
proof (cases "f w")
  case None
  with assms show ?thesis by (simp add: judge_def logged_call_def)
next
  case (Some p)
  obtain s w1 where "p = (s, w1)" by (cases p)
  with Some assms show ?thesis by (intro exI [of _ s]) (simp add: judge_def logged_call_def)
qed

lemma report_error_logged:
  assumes "report_error (logged_responder R) req ty msg reported (w, es) = Some (result, (w', es'))"
  shows "\<exists>s. es' = es @ [Ev_report req ty msg s]
    \<and> result = (if s = Submitted True then reported else Error_submission_failure)"
  by (rule judge_logged [of _ _ "Ev_report req ty msg" "responder_report R req ty msg" w _ _ w'])
    (use assms in \<open>simp add: report_error_judged logged_responder_def\<close>)

lemma send_answer_logged:
  assumes "send_answer (logged_responder R) req response (w, es) = Some (result, (w', es'))"
  shows "\<exists>s. es' = es @ [Ev_respond req response s]
    \<and> result = (if s = Submitted True then Response_sent else Response_failure)"
  by (rule judge_logged [of _ _ "Ev_respond req response" "responder_send R req response" w _ _ w'])
    (use assms in \<open>simp add: send_answer_judged logged_responder_def\<close>)

lemma result_of_other: "s \<noteq> Submitted True \<Longrightarrow>
    result_of e s = (case e of Handler_response _ \<Rightarrow> Response_failure | _ \<Rightarrow> Error_submission_failure)"
  by (cases e; cases s) (auto split: bool.splits)

lemma execute_invocation_logged:
  assumes "execute_invocation (logged_responder R) iv handler (w, es) = Some (result, (w', es'))"
  shows "\<exists>e w1 es1 s. call_handler handler iv (w, es) = Some (e, (w1, es1))
    \<and> es' = es1 @ [submission_event (request_id iv) e s] \<and> result = result_of e s"
proof -
  from assms obtain e w1 es1 where call: "call_handler handler iv (w, es) = Some (e, (w1, es1))"
    by (auto simp: execute_invocation_def split: option.splits)
  with assms show ?thesis
    by (cases e) (auto simp: execute_invocation_def result_of_other dest!: report_error_logged send_answer_logged)
qed

section \<open>Properties\<close>

text \<open>C9. An invocation is handled once and answered once: after the handler has ended, exactly one
  submission is made, for the request id of that invocation; it is the handler's response if there is
  one and otherwise the error report of its kind of failure, a response whose submission failed is
  never followed by an error report, and the result tells the two apart and whether it succeeded.\<close>

theorem execution_submits_once:
  assumes "execute_invocation (logged_responder R) iv (map_option logged_handler handler) (w, es) = Some (result, (w', es'))"
  shows "\<exists>e s. es' = es @ (if handler = None then [] else [Ev_handled iv e]) @ [submission_event (request_id iv) e s]
    \<and> (handler = None \<longrightarrow> e = Handler_exception) \<and> result = result_of e s"
  using execute_invocation_logged [OF assms]
  by (cases handler) (auto simp: call_handler_def logged_simps)

theorem execution_submits_once_witness:
  "\<exists>s. [submission_event ''a1'' Handler_exception (Submitted False)] = [submission_event ''a1'' Handler_exception s]
    \<and> Error_submission_failure = result_of Handler_exception s"
proof -
  let ?R = "\<lparr>responder_send = (\<lambda>_ _ w. Some (Submitted True, w)), responder_report = (\<lambda>_ _ _ w. Some (Submitted False, w))\<rparr>
    :: unit responder"
  let ?iv = "\<lparr>request_id = ''a1'', invocation_deadline_ms = 1, trace_id = [], event_bytes = []\<rparr>"
  have "execute_invocation (logged_responder ?R) ?iv (map_option logged_handler None) ((), []) =
      Some (Error_submission_failure, ((), [submission_event ''a1'' Handler_exception (Submitted False)]))"
    by (simp add: execute_invocation_def call_handler_def report_error_def logged_responder_def logged_call_def)
  from execution_submits_once [OF this] show ?thesis by (simp del: submission_event.simps)
qed

end
