(* ===== verification/Bootstrap.thy ===== *)
theory Bootstrap
  imports Logging Invocation
begin

text \<open>
  \<^verbatim>\<open>src/bootstrap.cpp\<close>: the handler of an invocation and the loop that polls,
  handles and answers. The start of the process is in \<open>Startup\<close>. The environment, the standard
  error stream and the clocks are operations over the world; \<open>None\<close> stands for a call that does
  not return.
\<close>

section \<open>The handler\<close>

text \<open>\<^verbatim>\<open>process_invocation\<close>: \<open>epoch_clock\<close> is the system clock of
  the deadline. The transport and the resolver are those of \<open>S\<close>.\<close>

definition process_invocation ::
    "('j, 'u, 'i, 't, 'r, 'w) service_apis \<Rightarrow> ('w \<Rightarrow> u64 \<times> 'w) \<Rightarrow> (string \<Rightarrow> 'w \<Rightarrow> 'w) \<Rightarrow> invocation \<Rightarrow> 'w
      \<Rightarrow> (http_response \<times> 'w) option" where
  "process_invocation S epoch_clock stderr iv w =
     (let (start, w1) = steady_now S w;
          deadline = \<lparr>deadline_ms = invocation_deadline_ms iv, clock_now = Some epoch_clock\<rparr>
      in map_option
           (\<lambda>((response, diagnostics), w2).
              let (elapsed, w3) = elapsed_microseconds (steady_now S) start w2
              in (response,
                  log_invocation (Some stderr) (request_id iv) (case diagnostics of Some d \<Rightarrow> d | None \<Rightarrow> empty_diagnostics)
                    (status response) (length (event_bytes iv)) (length (body response)) elapsed w3))
           (handle_function_url_event S (origin_timeout deadline) (event_bytes iv) (Some empty_diagnostics) w1))"

definition invocation_handler ::
    "('j, 'u, 'i, 't, 'r, 'w) service_apis \<Rightarrow> ('w \<Rightarrow> u64 \<times> 'w) \<Rightarrow> (string \<Rightarrow> 'w \<Rightarrow> 'w) \<Rightarrow> 'w handler" where
  "invocation_handler S epoch_clock stderr iv w =
     map_option (map_prod Handler_response id) (process_invocation S epoch_clock stderr iv w)"

section \<open>The loop\<close>

record 'w runtime_env =
  poll_next :: "'w \<Rightarrow> (invocation option \<times> 'w) option"
  runtime_responder :: "'w responder"
  set_trace :: "string \<Rightarrow> 'w \<Rightarrow> bool \<times> 'w"
  write_stderr :: "string \<Rightarrow> 'w \<Rightarrow> 'w"
  run_handler :: "'w handler"

text \<open>The end of a turn: the loop goes on, the process returns 1, or an exception ends it.\<close>

datatype turn_end = Turn_continue | Turn_exit | Turn_terminated

definition poll_failure_entry :: string where
  "poll_failure_entry = ''{'' @ quoted ''category'' @ '':'' @ quoted ''runtime_poll_failure'' @ ''}'' @ [LF]"

definition environment_failure :: "'w runtime_env \<Rightarrow> invocation \<Rightarrow> 'w \<Rightarrow> (turn_end \<times> 'w) option" where
  "environment_failure E iv w =
     (let w1 = log_runtime_failure (Some (write_stderr E)) (request_id iv) ''runtime_environment_error'' w
      in map_option
           (\<lambda>(s, w2). (case s of Submitted True \<Rightarrow> Turn_continue | Submitted False \<Rightarrow> Turn_exit
              | Submission_raised \<Rightarrow> Turn_terminated, w2))
           (responder_report (runtime_responder E) (request_id iv) ''RuntimeEnvironmentError''
              ''Failed to set invocation trace context'' w1))"

text \<open>The switch on the result of an execution: its log entry and the end of the turn.\<close>

fun after_execution :: "execution_result \<Rightarrow> string option \<times> turn_end" where
  "after_execution Response_sent = (None, Turn_continue)"
| "after_execution Out_of_memory_reported = (Some ''runtime_out_of_memory'', Turn_continue)"
| "after_execution Unhandled_error_reported = (Some ''unhandled_invocation_error'', Turn_continue)"
| "after_execution Unknown_error_reported = (Some ''unknown_invocation_error'', Turn_continue)"
| "after_execution Response_failure = (Some ''runtime_response_failure'', Turn_exit)"
| "after_execution Error_submission_failure = (Some ''runtime_error_submission_failure'', Turn_exit)"

definition log_execution :: "'w runtime_env \<Rightarrow> invocation \<Rightarrow> execution_result \<Rightarrow> 'w \<Rightarrow> turn_end \<times> 'w" where
  "log_execution E iv result w =
     (let (category, continue) = after_execution result
      in (continue,
          (case category of None \<Rightarrow> w | Some name \<Rightarrow> log_runtime_failure (Some (write_stderr E)) (request_id iv) name w)))"

text \<open>One turn of the loop. \<^verbatim>\<open>setenv\<close> takes the trace id up to its first null
  character.\<close>

definition serve_turn :: "'w runtime_env \<Rightarrow> 'w \<Rightarrow> (turn_end \<times> 'w) option" where
  "serve_turn E w =
     (case poll_next E w of
        None \<Rightarrow> None
      | Some (None, w1) \<Rightarrow> Some (Turn_exit, write_stderr E poll_failure_entry w1)
      | Some (Some iv, w1) \<Rightarrow>
          (case set_trace E (c_str (trace_id iv)) w1 of
             (False, w2) \<Rightarrow> environment_failure E iv w2
           | (True, w2) \<Rightarrow>
               map_option (\<lambda>(result, w3). log_execution E iv result w3)
                 (execute_invocation (runtime_responder E) iv (Some (run_handler E)) w2)))"

partial_function (option) serve :: "'w runtime_env \<Rightarrow> 'w \<Rightarrow> (turn_end \<times> 'w) option" where
  "serve E w =
     Option.bind (serve_turn E w) (\<lambda>(end_of, w').
       if end_of = Turn_continue then serve E w' else Some (end_of, w'))"

section \<open>The client as the environment of the loop\<close>

text \<open>The client of the runtime over a socket interface is the responder of the loop.\<close>

definition client_responder :: "('a, 'w) socket_api \<Rightarrow> string \<Rightarrow> 'w responder" where
  "client_responder api authority =
     \<lparr>responder_send = (\<lambda>req response w.
        map_option (map_prod Submitted id) (client_send_response api authority req response w)),
      responder_report = (\<lambda>req error_type error_message w.
        map_option (map_prod Submitted id) (client_send_invocation_error api authority req error_type error_message w))\<rparr>"

text \<open>The environment of the loop: the client polls and answers.\<close>

definition client_env ::
    "('a, 'w) socket_api \<Rightarrow> string \<Rightarrow> (string \<Rightarrow> 'w \<Rightarrow> bool \<times> 'w) \<Rightarrow> (string \<Rightarrow> 'w \<Rightarrow> 'w) \<Rightarrow> 'w handler \<Rightarrow> 'w runtime_env" where
  "client_env api authority trace stderr handler =
     \<lparr>poll_next = client_poll_next api authority, runtime_responder = client_responder api authority,
      set_trace = trace, write_stderr = stderr, run_handler = handler\<rparr>"

section \<open>Turns and runs\<close>

text \<open>A number of turns after which the loop goes on.\<close>

inductive served :: "'w runtime_env \<Rightarrow> 'w \<Rightarrow> nat \<Rightarrow> 'w \<Rightarrow> bool" for E w where
  start: "served E w 0 w"
| turn: "served E w n w1 \<Longrightarrow> serve_turn E w1 = Some (Turn_continue, w2) \<Longrightarrow> served E w (Suc n) w2"

inductive_simps served_zero [simp]: "served E w 0 w'"
inductive_cases served_SucE: "served E w (Suc n) w'"

lemma serve_unfold_continue: "serve_turn E w = Some (Turn_continue, w') \<Longrightarrow> serve E w = serve E w'"
  by (subst serve.simps) simp

lemma serve_served: "served E w n w1 \<Longrightarrow> serve E w = serve E w1"
  by (induction rule: served.induct) (simp_all add: serve_unfold_continue)

lemma served_first:
  assumes "serve_turn E w = Some (Turn_continue, w1)" and "served E w1 n w2"
  shows "served E w (Suc n) w2"
  using assms(2)
proof (induction rule: served.induct)
  case start
  show ?case by (rule served.turn [OF served.start assms(1)])
next
  case (turn n w1' w2)
  then show ?case by (blast intro: served.turn)
qed

lemma serve_ends:
  assumes "serve E w = Some r"
  shows "fst r \<noteq> Turn_continue \<and> (\<exists>n w1. served E w n w1 \<and> serve_turn E w1 = Some r)"
proof (rule serve.raw_induct [OF _ assms, where P = "\<lambda>E w r. fst r \<noteq> Turn_continue
    \<and> (\<exists>n w1. served E w n w1 \<and> serve_turn E w1 = Some r)"])
  fix loop E w r
  assume hyp: "\<And>E w r. loop E w = Some r \<Longrightarrow> fst r \<noteq> Turn_continue
      \<and> (\<exists>n w1. served E w n w1 \<and> serve_turn E w1 = Some r)"
    and run: "Option.bind (serve_turn E w) (\<lambda>(end_of, w').
       if end_of = Turn_continue then loop E w' else Some (end_of, w')) = Some r"
  from run obtain e w' where turn: "serve_turn E w = Some (e, w')"
    and rest: "(if e = Turn_continue then loop E w' else Some (e, w')) = Some r"
    by (auto simp: bind_eq_Some_conv)
  show "fst r \<noteq> Turn_continue \<and> (\<exists>n w1. served E w n w1 \<and> serve_turn E w1 = Some r)"
  proof (cases "e = Turn_continue")
    case True
    with rest hyp [of E w' r] turn show ?thesis by (auto intro: served_first)
  next
    case False
    with rest turn show ?thesis by (auto intro: exI [of _ 0] served.start)
  qed
qed

lemma serve_iff:
  "serve E w = Some (e, w') \<longleftrightarrow> e \<noteq> Turn_continue \<and> (\<exists>n w1. served E w n w1 \<and> serve_turn E w1 = Some (e, w'))"
proof
  assume "serve E w = Some (e, w')"
  from serve_ends [OF this] show "e \<noteq> Turn_continue \<and> (\<exists>n w1. served E w n w1 \<and> serve_turn E w1 = Some (e, w'))" by simp
next
  assume "e \<noteq> Turn_continue \<and> (\<exists>n w1. served E w n w1 \<and> serve_turn E w1 = Some (e, w'))"
  then obtain n w1 where "e \<noteq> Turn_continue" "served E w n w1" "serve_turn E w1 = Some (e, w')" by blast
  then show "serve E w = Some (e, w')"
    by (simp add: serve_served [of E w n w1]) (subst serve.simps, simp)
qed

section \<open>Responders that do not throw\<close>

text \<open>The contract that keeps a turn from ending the process by an exception.\<close>

locale quiet_responder =
  fixes R :: "'w responder"
  assumes send_quiet: "responder_send R req response w = Some (s, w') \<Longrightarrow> s \<noteq> Submission_raised"
    and report_quiet: "responder_report R req error_type error_message w = Some (s, w') \<Longrightarrow> s \<noteq> Submission_raised"
begin

lemma environment_failure_ends:
  assumes "runtime_responder E = R" and "environment_failure E iv w = Some (t, w')"
  shows "t \<noteq> Turn_terminated"
proof -
  from assms obtain s w1 w2 where "responder_report R (request_id iv) ''RuntimeEnvironmentError''
      ''Failed to set invocation trace context'' w1 = Some (s, w2)"
    and t: "t = (case s of Submitted True \<Rightarrow> Turn_continue | Submitted False \<Rightarrow> Turn_exit | Submission_raised \<Rightarrow> Turn_terminated)"
    by (auto simp: environment_failure_def Let_def)
  from report_quiet [OF this(1)] t show ?thesis by (cases s) (auto split: bool.splits)
qed

lemma serve_turn_ends:
  assumes "runtime_responder E = R" and "serve_turn E w = Some (t, w')"
  shows "t \<noteq> Turn_terminated"
proof -
  have "log_execution E iv result w1 \<noteq> (Turn_terminated, w2)" for iv result w1 w2
    by (cases result) (simp_all add: log_execution_def)
  with assms show ?thesis
    by (auto simp: serve_turn_def dest: environment_failure_ends [OF assms(1)] split: option.splits prod.splits bool.splits)
qed

lemma serve_exits:
  assumes "runtime_responder E = R" and "serve E w = Some (e, w')"
  shows "e = Turn_exit"
  using serve_ends [OF assms(2)] serve_turn_ends [OF assms(1)] by (cases e) auto

end

interpretation client: quiet_responder "client_responder api authority" for api :: "('a, 'w) socket_api" and authority
  by unfold_locales (auto simp: client_responder_def)

text \<open>A loop whose responder is the client of the runtime only ever ends by returning 1.\<close>

lemma client_loop_exits: "serve (client_env api authority trace stderr handler) w = Some (e, w') \<Longrightarrow> e = Turn_exit"
  by (rule client.serve_exits [of "client_env api authority trace stderr handler"]) (simp_all add: client_env_def)

section \<open>What a turn does\<close>

text \<open>The environment with a log. The standard error stream is left out of it.\<close>

definition logged_env :: "'w runtime_env \<Rightarrow> ('w \<times> runtime_event list) runtime_env" where
  "logged_env E =
     \<lparr>poll_next = logged_call Ev_poll (poll_next E),
      runtime_responder = logged_responder (runtime_responder E),
      set_trace = (\<lambda>t (w, es). let (ok, w') = set_trace E t w in (ok, (w', es @ [Ev_trace t ok]))),
      write_stderr = (\<lambda>t (w, es). (write_stderr E t w, es)),
      run_handler = logged_handler (run_handler E)\<rparr>"

text \<open>The events of a turn and its end: a failed poll; an invocation whose trace id could not be set;
  or an invocation that was handled and answered.\<close>

inductive turn_block :: "runtime_event list \<Rightarrow> turn_end \<Rightarrow> bool" where
  no_invocation: "turn_block [Ev_poll None] Turn_exit"
| no_environment:
    "turn_block [Ev_poll (Some iv), Ev_trace (c_str (trace_id iv)) False,
        Ev_report (request_id iv) ''RuntimeEnvironmentError'' ''Failed to set invocation trace context'' s]
       (case s of Submitted True \<Rightarrow> Turn_continue | Submitted False \<Rightarrow> Turn_exit | Submission_raised \<Rightarrow> Turn_terminated)"
| answered:
    "turn_block [Ev_poll (Some iv), Ev_trace (c_str (trace_id iv)) True, Ev_handled iv e,
        submission_event (request_id iv) e s]
       (if s = Submitted True then Turn_continue else Turn_exit)"

lemma after_execution_end:
  "snd (after_execution (result_of e s)) = (if s = Submitted True then Turn_continue else Turn_exit)"
  by (cases e; cases "s = Submitted True") (simp_all add: result_of_other)

lemma log_runtime_failure_env:
  "log_runtime_failure (Some (write_stderr (logged_env E))) req c (w, es) = (log_runtime_failure (Some (write_stderr E)) req c w, es)"
  by (simp add: log_runtime_failure_def logged_env_def)

lemma logged_env_responder [simp]: "runtime_responder (logged_env E) = logged_responder (runtime_responder E)"
  by (simp add: logged_env_def)

lemma environment_failure_logged:
  assumes "environment_failure (logged_env E) iv (w, es) = Some (t, (w', es'))"
  shows "\<exists>s. es' = es @ [Ev_report (request_id iv) ''RuntimeEnvironmentError'' ''Failed to set invocation trace context'' s]
    \<and> t = (case s of Submitted True \<Rightarrow> Turn_continue | Submitted False \<Rightarrow> Turn_exit | Submission_raised \<Rightarrow> Turn_terminated)"
proof -
  let ?r = "responder_report (runtime_responder E) (request_id iv) ''RuntimeEnvironmentError''
      ''Failed to set invocation trace context'' (log_runtime_failure (Some (write_stderr E)) (request_id iv) ''runtime_environment_error'' w)"
  show ?thesis
  proof (cases ?r)
    case None
    with assms show ?thesis
      by (simp add: environment_failure_def log_runtime_failure_env logged_responder_def logged_call_def Let_def)
  next
    case (Some p)
    obtain s w1 where "p = (s, w1)" by (cases p)
    with Some assms show ?thesis
      by (intro exI [of _ s])
        (simp add: environment_failure_def log_runtime_failure_env logged_responder_def logged_call_def Let_def)
  qed
qed

lemma log_execution_logged:
  "log_execution (logged_env E) iv result (w, es) = (t, (w', es')) \<Longrightarrow> t = snd (after_execution result) \<and> es' = es"
  by (auto simp: log_execution_def log_runtime_failure_env split: prod.splits option.splits)

lemma turn_logged:
  assumes "serve_turn (logged_env E) (w, es) = Some (t, (w', es'))"
  shows "\<exists>b. es' = es @ b \<and> turn_block b t"
proof -
  let ?L = "logged_env E"
  from assms obtain got w1 where poll: "poll_next ?L (w, es) = Some (got, (w1, es @ [Ev_poll got]))"
    by (auto simp: serve_turn_def logged_env_def logged_call_Some split: option.splits)
  show ?thesis
  proof (cases got)
    case None
    with poll assms show ?thesis
      by (auto simp: serve_turn_def logged_env_def intro: turn_block.intros)
  next
    case (Some iv)
    let ?t = "c_str (trace_id iv)"
    obtain ok w2 where trace: "set_trace ?L ?t (w1, es @ [Ev_poll got]) = (ok, (w2, es @ [Ev_poll got, Ev_trace ?t ok]))"
      by (cases "set_trace E ?t w1") (auto simp: logged_env_def)
    show ?thesis
    proof (cases ok)
      case False
      with assms poll trace Some have
        "environment_failure ?L iv (w2, es @ [Ev_poll got, Ev_trace ?t False]) = Some (t, (w', es'))"
        by (simp add: serve_turn_def)
      from environment_failure_logged [OF this] Some show ?thesis by (auto intro: turn_block.intros)
    next
      case True
      with assms poll trace Some obtain result s where
        run: "execute_invocation (runtime_responder ?L) iv (Some (run_handler ?L)) (w2, es @ [Ev_poll got, Ev_trace ?t True]) = Some (result, s)"
        and out: "log_execution ?L iv result s = (t, (w', es'))"
        by (auto simp: serve_turn_def)
      obtain w3 es3 where s: "s = (w3, es3)" by (cases s)
      from run s have "execute_invocation (logged_responder (runtime_responder E)) iv (map_option logged_handler (Some (run_handler E)))
          (w2, es @ [Ev_poll got, Ev_trace ?t True]) = Some (result, (w3, es3))"
        by (simp add: logged_env_def)
      from execute_invocation_logged [OF this] obtain e sub where
        "es3 = es @ [Ev_poll got, Ev_trace ?t True, Ev_handled iv e, submission_event (request_id iv) e sub]"
        "result = result_of e sub"
        by (auto simp: call_handler_def logged_simps)
      moreover from this log_execution_logged [of E iv result w3 es3] out s
      have "t = (if sub = Submitted True then Turn_continue else Turn_exit)" "es' = es3"
        by (simp_all add: after_execution_end)
      ultimately show ?thesis
        using Some turn_block.answered [of iv e sub] by simp
    qed
  qed
qed

lemma served_logged:
  assumes "served (logged_env E) s n s'"
  shows "\<exists>bs. length bs = n \<and> snd s' = snd s @ concat bs \<and> list_all (\<lambda>b. turn_block b Turn_continue) bs"
  using assms
proof (induction rule: served.induct)
  case start
  show ?case by simp
next
  case (turn n s1 s2)
  then obtain bs where "length bs = n" "snd s1 = snd s @ concat bs" "list_all (\<lambda>b. turn_block b Turn_continue) bs" by blast
  moreover obtain b where "snd s2 = snd s1 @ b" "turn_block b Turn_continue"
    using turn.hyps(2) by (cases s1; cases s2) (auto dest: turn_logged)
  ultimately show ?case by (intro exI [of _ "bs @ [b]"]) simp
qed

text \<open>An answer that the runtime took.\<close>

fun taken :: "runtime_event \<Rightarrow> bool" where
  "taken (Ev_respond _ _ s) \<longleftrightarrow> s = Submitted True"
| "taken (Ev_report _ _ _ s) \<longleftrightarrow> s = Submitted True"
| "taken _ \<longleftrightarrow> False"

lemma taken_submission [simp]: "taken (submission_event req e s) \<longleftrightarrow> s = Submitted True"
  by (cases e) simp_all

lemma block_taken: "turn_block b t \<Longrightarrow> length (List.filter taken b) = (if t = Turn_continue then 1 else 0)"
  by (induction rule: turn_block.induct) (auto split: submission.splits bool.splits)

lemma blocks_taken:
  "list_all (\<lambda>b. turn_block b Turn_continue) bs \<Longrightarrow> length (List.filter taken (concat bs)) = length bs"
  by (induction bs) (auto simp: block_taken)

text \<open>What a log says of the invocations: those that were polled, whether their trace ids could be
  set, those that the handler was called with, and the request ids of the submissions, each in
  order.\<close>

fun polled_by :: "runtime_event \<Rightarrow> invocation list" where
  "polled_by (Ev_poll (Some iv)) = [iv]"
| "polled_by _ = []"

fun traced_by :: "runtime_event \<Rightarrow> bool list" where
  "traced_by (Ev_trace t ok) = [ok]"
| "traced_by _ = []"

fun handled_by :: "runtime_event \<Rightarrow> invocation list" where
  "handled_by (Ev_handled iv e) = [iv]"
| "handled_by _ = []"

fun submitted_by :: "runtime_event \<Rightarrow> string list" where
  "submitted_by (Ev_respond req r s) = [req]"
| "submitted_by (Ev_report req ty msg s) = [req]"
| "submitted_by _ = []"

lemma submission_event_by [simp]:
  "polled_by (submission_event req e s) = []" "traced_by (submission_event req e s) = []"
  "handled_by (submission_event req e s) = []" "submitted_by (submission_event req e s) = [req]"
  by (cases e; simp)+

text \<open>Each polled invocation has one submission, for its request id, and was handled when its trace id
  was set, else not.\<close>

definition each_answered_once :: "runtime_event list \<Rightarrow> bool" where
  "each_answered_once es \<longleftrightarrow>
     concat (map submitted_by es) = map request_id (concat (map polled_by es))
     \<and> length (concat (map traced_by es)) = length (concat (map polled_by es))
     \<and> concat (map handled_by es)
         = map fst (List.filter snd (zip (concat (map polled_by es)) (concat (map traced_by es))))"

lemma each_answered_once_Nil [simp]: "each_answered_once []"
  by (simp add: each_answered_once_def)

lemma each_answered_once_append:
  "each_answered_once es \<Longrightarrow> each_answered_once es' \<Longrightarrow> each_answered_once (es @ es')"
  by (simp add: each_answered_once_def)

lemma block_answered: "turn_block b t \<Longrightarrow> each_answered_once b"
  by (induction rule: turn_block.induct) (simp_all add: each_answered_once_def)

lemma blocks_answered: "list_all (\<lambda>b. turn_block b Turn_continue) bs \<Longrightarrow> each_answered_once (concat bs)"
  by (induction bs) (auto intro: each_answered_once_append block_answered)

text \<open>A turn after which a process ends: the poll gave nothing, or the last thing done was a
  submission that was not taken.\<close>

definition refused :: "runtime_event list \<Rightarrow> bool" where
  "refused es \<longleftrightarrow> es = [Ev_poll None] \<or> es \<noteq> [] \<and> submitted_by (last es) \<noteq> [] \<and> \<not> taken (last es)"

lemma block_refused: "turn_block b t \<Longrightarrow> t \<noteq> Turn_continue \<Longrightarrow> refused b"
  by (induction rule: turn_block.induct) (auto simp: refused_def split: submission.splits bool.splits if_splits)

text \<open>The log of a process that ends.\<close>

lemma serve_logged:
  assumes "serve (logged_env E) (w, []) = Some (e, (w', es))"
  shows "e \<noteq> Turn_continue \<and> (\<exists>turns last_turn. es = concat turns @ last_turn
    \<and> list_all (\<lambda>b. turn_block b Turn_continue) turns \<and> turn_block last_turn e)"
proof -
  from assms obtain n s1 where e: "e \<noteq> Turn_continue" and run: "served (logged_env E) (w, []) n s1"
    and last_turn: "serve_turn (logged_env E) s1 = Some (e, (w', es))"
    using serve_iff [of "logged_env E"] by metis
  obtain bs where "snd s1 = concat bs" "list_all (\<lambda>b. turn_block b Turn_continue) bs"
    using served_logged [OF run] by auto
  moreover obtain b where "es = snd s1 @ b" "turn_block b e"
    using last_turn by (cases s1) (auto dest: turn_logged)
  ultimately show ?thesis
    using e by (intro conjI exI [of _ bs] exI [of _ b]) simp_all
qed

text \<open>An environment whose calls return.\<close>

definition calls_return :: "'w runtime_env \<Rightarrow> bool" where
  "calls_return E \<longleftrightarrow> (\<forall>w. poll_next E w \<noteq> None) \<and> (\<forall>iv w. run_handler E iv w \<noteq> None)
     \<and> (\<forall>req r w. responder_send (runtime_responder E) req r w \<noteq> None)
     \<and> (\<forall>req ty msg w. responder_report (runtime_responder E) req ty msg w \<noteq> None)"

lemma serve_turn_returns: "calls_return E \<Longrightarrow> serve_turn E w \<noteq> None"
  by (auto simp: calls_return_def serve_turn_def environment_failure_def execute_invocation_def call_handler_def
      report_error_judged send_answer_judged judge_def Let_def simp del: not_None_eq
      split: option.splits prod.splits bool.splits handler_end.splits)

lemma calls_return_logged: "calls_return E \<Longrightarrow> calls_return (logged_env E)"
  by (simp add: calls_return_def logged_env_def logged_responder_def logged_handler_def logged_call_def del: not_None_eq)

lemma runs_on:
  assumes "calls_return E" and "serve E w = None"
  shows "\<exists>w'. served E w n w'"
proof (induction n)
  case 0
  show ?case by simp
next
  case (Suc n)
  then obtain w1 where w1: "served E w n w1" by blast
  obtain t w2 where turn: "serve_turn E w1 = Some (t, w2)" using serve_turn_returns [OF assms(1)] by fastforce
  with w1 assms(2) serve_iff [of E w t w2] have "t = Turn_continue" by auto
  with w1 turn show ?case by (blast intro: served.turn)
qed

section \<open>Properties\<close>



text \<open>C13. The handling of an invocation returns a response, whatever the event, the origin and the
  libraries answer, as long as each call into a library returns: the only loops that a library drives are
  those over the events of the JPEG XL decoder, and they end for every decoder that goes on through a body
  that it has been given whole and asks for an output buffer only while it has none. Setting a buffer may
  succeed any number of times.\<close>

theorem process_invocation_returns:
  assumes "decoder_progress (jxl_of (media_of S)) (webp_of (media_of S)) work lacks"
  shows "\<exists>response w'. process_invocation S clock stderr iv w = Some (response, w')"
proof -
  have "process_invocation S clock stderr iv w \<noteq> None"
    using handler_returns [OF assms] by (simp add: process_invocation_def split_def Let_def del: not_None_eq)
  then show ?thesis by auto
qed

definition film_invocation :: invocation where
  "film_invocation = sample_invocation\<lparr>invocation_deadline_ms := 2550\<rparr>"

lemma film_invocation_run:
  "process_invocation film_service (Pair 1500) (\<lambda>_. id) film_invocation w = Some (make_media_response Prefer_webp [2, 1, 70], (1, False))"
proof -
  have "deadline_remaining (Some \<lparr>deadline_ms = 2550, clock_now = Some (Pair 1500)\<rparr>) = (\<lambda>w :: nat \<times> bool. (50, w))"
    by (rule ext) (simp add: deadline_remaining_def remaining_origin_milliseconds_def
        response_submission_reserve_ms_def long_max_def min_def)
  then have "origin_timeout \<lparr>deadline_ms = invocation_deadline_ms film_invocation, clock_now = Some (Pair 1500)\<rparr> =
      \<lparr>remaining_milliseconds = Some (\<lambda>w :: nat \<times> bool. (50, w))\<rparr>"
    by (simp add: origin_timeout_def film_invocation_def)
  moreover obtain d where "handle_function_url_event film_service \<lparr>remaining_milliseconds = Some (\<lambda>w. (50, w))\<rparr>
      (event_bytes film_invocation) (Some empty_diagnostics) w = Some ((make_media_response Prefer_webp [2, 1, 70], d), (1, False))"
    using film_run by blast
  moreover have "steady_now film_service = Pair 0" by (simp add: film_service_def)
  ultimately show ?thesis
    by (simp add: process_invocation_def elapsed_microseconds_def log_invocation_def)
qed

theorem process_invocation_returns_witness:
  "process_invocation film_service (Pair 1500) (\<lambda>_. id) film_invocation (0, True) = Some (make_media_response Prefer_webp [2, 1, 70], (1, False))
    \<and> (\<exists>response w'. process_invocation film_service (Pair 1500) (\<lambda>_. id) film_invocation (0, True) = Some (response, w'))"
proof
  have "decoder_progress (jxl_of (media_of film_service)) (webp_of (media_of film_service)) fst (\<lambda>w. \<not> snd w)"
    using film_media_progress by (simp add: film_service_def)
  then show "\<exists>response w'. process_invocation film_service (Pair 1500) (\<lambda>_. id) film_invocation (0, True) = Some (response, w')"
    by (rule process_invocation_returns)
qed (rule film_invocation_run)

text \<open>C2. A process that ends has answered every invocation it polled, in order: every polled
  invocation has exactly one submission, under its own request id, and the handler was called once with each
  invocation whose trace id could be set and with no other; the others are reported as an error of the
  environment. What the process did is a sequence of complete turns, each with one poll and one submission,
  which the runtime took, followed by one last turn in which the poll gave nothing or the one submission was
  not taken.\<close>

theorem service_log:
  assumes "serve (logged_env E) (w, []) = Some (e, (w', es))"
  shows "e \<noteq> Turn_continue
    \<and> concat (map submitted_by es) = map request_id (concat (map polled_by es))
    \<and> length (concat (map traced_by es)) = length (concat (map polled_by es))
    \<and> concat (map handled_by es)
        = map fst (List.filter snd (zip (concat (map polled_by es)) (concat (map traced_by es))))
    \<and> (\<exists>turns last_turn. es = concat turns @ last_turn \<and> list_all (\<lambda>b. turn_block b Turn_continue) turns
         \<and> turn_block last_turn e \<and> refused last_turn \<and> length (List.filter taken es) = length turns)"
proof -
  from serve_logged [OF assms] obtain turns last_turn where e: "e \<noteq> Turn_continue" and es: "es = concat turns @ last_turn"
    and blocks: "list_all (\<lambda>b. turn_block b Turn_continue) turns" "turn_block last_turn e" by blast
  have "each_answered_once es"
    unfolding es by (intro each_answered_once_append blocks_answered block_answered [OF blocks(2)] blocks(1))
  moreover from blocks e es have "length (List.filter taken es) = length turns" by (simp add: blocks_taken block_taken)
  ultimately show ?thesis
    using e es blocks block_refused [OF blocks(2) e] unfolding each_answered_once_def by blast
qed

text \<open>An environment that polls as many invocations as its world says, for the witnesses.\<close>

definition sample_runtime :: "nat runtime_env" where
  "sample_runtime =
     \<lparr>poll_next = (\<lambda>k. Some (if k = 0 then None else Some sample_invocation, k - 1)),
      runtime_responder = \<lparr>responder_send = (\<lambda>_ _ k. Some (Submitted True, k)),
        responder_report = (\<lambda>_ _ _ k. Some (Submitted True, k))\<rparr>,
      set_trace = (\<lambda>_ k. (True, k)), write_stderr = (\<lambda>_. id),
      run_handler = (\<lambda>_ k. Some (Handler_response make_status_response, k))\<rparr>"

lemma sample_turn:
  "serve_turn (logged_env sample_runtime) (k, es) =
     Some (if k = 0 then (Turn_exit, (0, es @ [Ev_poll None]))
       else (Turn_continue, (k - 1, es @ [Ev_poll (Some sample_invocation), Ev_trace (c_str (trace_id sample_invocation)) True,
         Ev_handled sample_invocation (Handler_response make_status_response),
         Ev_respond (request_id sample_invocation) make_status_response (Submitted True)])))"
  by (simp add: serve_turn_def logged_env_def sample_runtime_def logged_call_def execute_invocation_def call_handler_def
      logged_handler_def send_answer_def logged_responder_def log_execution_def)

theorem service_log_witness:
  "\<exists>w' es. serve (logged_env sample_runtime) (1, []) = Some (Turn_exit, (w', es)) \<and> (\<exists>turns. length (List.filter taken es) = length turns
    \<and> list_all (\<lambda>b. turn_block b Turn_continue) turns \<and> turns \<noteq> [])"
proof -
  let ?es = "[Ev_poll (Some sample_invocation), Ev_trace (c_str (trace_id sample_invocation)) True,
         Ev_handled sample_invocation (Handler_response make_status_response),
         Ev_respond (request_id sample_invocation) make_status_response (Submitted True), Ev_poll None]"
  have run: "serve (logged_env sample_runtime) (1, []) = Some (Turn_exit, (0, ?es))"
    by (simp add: serve.simps [of _ "(Suc 0, [])"] serve.simps [of _ "(0, _)"] sample_turn)
  from service_log [OF run] obtain turns where "length (List.filter taken ?es) = length turns"
    "list_all (\<lambda>b. turn_block b Turn_continue) turns" by blast
  moreover from this have "turns \<noteq> []" by auto
  ultimately show ?thesis using run by blast
qed

text \<open>C3. The loop neither stalls nor stops without a cause: when every poll, handler and submission
  returns, then either the process ends after complete turns, all of them taken, and one last turn, in which
  the poll failed or the last thing done was a submission that the runtime did not take; or it goes on for
  ever and, for every number, has answered that many invocations after that many turns.\<close>

theorem service_progress:
  assumes "calls_return E"
  shows "(\<exists>e w' turns last_turn. serve (logged_env E) (w, []) = Some (e, (w', concat turns @ last_turn)) \<and> e \<noteq> Turn_continue
         \<and> list_all (\<lambda>b. turn_block b Turn_continue) turns \<and> turn_block last_turn e \<and> refused last_turn)
    \<or> (\<forall>n. \<exists>w' turns. served (logged_env E) (w, []) n (w', concat turns) \<and> length turns = n
         \<and> list_all (\<lambda>b. turn_block b Turn_continue) turns \<and> length (List.filter taken (concat turns)) = n)"
proof (cases "serve (logged_env E) (w, [])")
  case None
  have "\<exists>w' turns. served (logged_env E) (w, []) n (w', concat turns) \<and> length turns = n
      \<and> list_all (\<lambda>b. turn_block b Turn_continue) turns \<and> length (List.filter taken (concat turns)) = n" for n
  proof -
    obtain w' es where run: "served (logged_env E) (w, []) n (w', es)"
      using runs_on [OF calls_return_logged [OF assms] None] by fastforce
    obtain bs where "es = concat bs" "length bs = n" "list_all (\<lambda>b. turn_block b Turn_continue) bs"
      using served_logged [OF run] by auto
    with run show ?thesis by (intro exI [of _ w'] exI [of _ bs]) (simp add: blocks_taken)
  qed
  then show ?thesis by blast
next
  case (Some p)
  obtain e w' es where "p = (e, (w', es))" by (metis surj_pair)
  with Some have run: "serve (logged_env E) (w, []) = Some (e, (w', es))" by simp
  from serve_logged [OF this] run block_refused show ?thesis by blast
qed

theorem service_progress_witness:
  "serve (logged_env sample_runtime) (0, []) = Some (Turn_exit, (0, [Ev_poll None]))
    \<and> ((\<exists>e w' turns last_turn. serve (logged_env sample_runtime) (0, []) = Some (e, (w', concat turns @ last_turn)) \<and> refused last_turn)
       \<or> (\<exists>w' es. served (logged_env sample_runtime) (0, []) 7 (w', es)))"
proof
  show "serve (logged_env sample_runtime) (0, []) = Some (Turn_exit, (0, [Ev_poll None]))"
    by (simp add: serve.simps [of _ "(0, [])"] sample_turn)
  have "calls_return sample_runtime" by (simp add: calls_return_def sample_runtime_def)
  with service_progress [OF this, of 0] show "(\<exists>e w' turns last_turn. serve (logged_env sample_runtime) (0, []) = Some (e, (w', concat turns @ last_turn)) \<and> refused last_turn)
       \<or> (\<exists>w' es. served (logged_env sample_runtime) (0, []) 7 (w', es))" by blast
qed

end
