(* ===== verification/Vips_Runtime.thy ===== *)
theory Vips_Runtime
  imports Prelude
begin

text \<open>
  \<^verbatim>\<open>src/media/vips_runtime.cpp\<close>: the start of libvips, once in the life of the
  process. The static object is \<open>None\<close> before its construction and afterwards the result of its
  initialisation.
\<close>

datatype vips_limit = Limit_concurrency int | Limit_cache_memory int | Limit_cache_entries int | Limit_cache_files int

record 'w vips_start_api =
  vips_init :: "string \<Rightarrow> 'w \<Rightarrow> int \<times> 'w"
  vips_set_limit :: "vips_limit \<Rightarrow> 'w \<Rightarrow> 'w"
  vips_shutdown :: "'w \<Rightarrow> 'w"

definition vips_limits :: "vips_limit list" where
  "vips_limits = [Limit_concurrency 1, Limit_cache_memory (8 * 1024 * 1024), Limit_cache_entries 32, Limit_cache_files 32]"

text \<open>The constructor of \<^verbatim>\<open>VipsRuntime\<close>.\<close>

definition construct_vips_runtime :: "'w vips_start_api \<Rightarrow> 'w \<Rightarrow> bool \<times> 'w" where
  "construct_vips_runtime V w =
     (let (code, w1) = vips_init V ''mediaproxy-lambda'' w
      in if code \<noteq> 0 then (False, w1) else (True, fold (vips_set_limit V) vips_limits w1))"

definition initialize_vips :: "'w vips_start_api \<Rightarrow> bool option \<times> 'w \<Rightarrow> bool \<times> (bool option \<times> 'w)" where
  "initialize_vips V s =
     (case s of
        (Some initialized, w) \<Rightarrow> (initialized, s)
      | (None, w) \<Rightarrow>
          let (initialized, w') = construct_vips_runtime V w in (initialized, (Some initialized, w')))"

text \<open>The destructor of the static object, at the end of the process.\<close>

definition destroy_vips_runtime :: "'w vips_start_api \<Rightarrow> bool option \<Rightarrow> 'w \<Rightarrow> 'w" where
  "destroy_vips_runtime V runtime = (if runtime = Some True then vips_shutdown V else id)"

text \<open>Later calls repeat the first answer and do nothing.\<close>

lemma initialize_vips_again:
  "initialize_vips V s = (r, s') \<Longrightarrow> initialize_vips V s' = (r, s')"
  by (auto simp: initialize_vips_def split: prod.splits option.splits)

end
