(* ===== verification/System_Interfaces.thy ===== *)
theory System_Interfaces
  imports Origin_Download
begin

text \<open>
  Where the process meets its own image and its transfer library: the data that the linker embeds
  (\<^verbatim>\<open>src/http/ca_bundle.cpp\<close>, \<^verbatim>\<open>src/media/svg_font.cpp\<close>) and
  the transport of \<^verbatim>\<open>src/http/origin_download.cpp\<close>
  on libcurl itself. Memory is a function from 64-bit addresses; the two addresses are those of the symbols
  before and behind the data.
\<close>

section \<open>Embedded data\<close>

definition embedded_ca_bundle :: "(u64 \<Rightarrow> byte) \<Rightarrow> u64 \<Rightarrow> u64 \<Rightarrow> bytes" where
  "embedded_ca_bundle memory begin_address end_address =
     (if end_address < begin_address then []
      else
        let byte_count = end_address - begin_address
        in if - 1 < byte_count then []
           else map (\<lambda>i. memory (begin_address + of_nat i)) [0..<unat byte_count])"

definition embedded_svg_font :: "(u64 \<Rightarrow> byte) \<Rightarrow> u64 \<Rightarrow> u64 \<Rightarrow> bytes" where
  "embedded_svg_font memory begin_address end_address =
     (if end_address < begin_address then []
      else
        let byte_count = end_address - begin_address
        in if - 1 < byte_count then []
           else map (\<lambda>i. memory (begin_address + of_nat i)) [0..<unat byte_count])"

text \<open>Data that lies whole in the address space is read back whole, from its first byte to its
  last.\<close>

definition stored_at :: "(u64 \<Rightarrow> byte) \<Rightarrow> u64 \<Rightarrow> bytes \<Rightarrow> bool" where
  "stored_at memory p bs \<longleftrightarrow> unat p + length bs < 2 ^ 64 \<and> (\<forall>i < length bs. memory (p + of_nat i) = bs ! i)"

lemma embedded_read_back:
  assumes "stored_at memory p bs"
  shows "embedded_ca_bundle memory p (p + of_nat (length bs)) = bs"
    and "embedded_svg_font memory p (p + of_nat (length bs)) = bs"
proof -
  let ?q = "p + of_nat (length bs)"
  from assms have n: "unat p + length bs < 2 ^ 64" "length bs < 2 ^ 64" by (auto simp: stored_at_def)
  then have "unat ?q = unat p + length bs" by (simp add: unat_word_ariths unat_of_nat)
  then have "\<not> ?q < p" by (simp add: word_less_nat_alt)
  moreover have "unat (?q - p) = length bs" using n(2) by (simp add: unat_of_nat)
  moreover have "\<not> - 1 < ?q - p" by (simp add: word_not_simps)
  moreover have "map (\<lambda>i. memory (p + of_nat i)) [0..<length bs] = bs"
    using assms by (auto simp: stored_at_def intro: nth_equalityI)
  ultimately show "embedded_ca_bundle memory p ?q = bs" "embedded_svg_font memory p ?q = bs"
    by (simp_all add: embedded_ca_bundle_def embedded_svg_font_def Let_def)
qed

lemma embedded_empty:
  "embedded_ca_bundle memory p q = [] \<longleftrightarrow> q \<le> p" "embedded_svg_font memory p q = [] \<longleftrightarrow> q \<le> p"
  by (auto simp: embedded_ca_bundle_def embedded_svg_font_def Let_def word_not_simps unat_eq_0 not_less)

section \<open>The transport on the transfer library\<close>

record 'w curl_easy_api =
  curl_easy_init :: "'w \<Rightarrow> nat option \<times> 'w"
  curl_easy_cleanup :: "nat \<Rightarrow> 'w \<Rightarrow> 'w"
  curl_easy_perform :: "nat \<Rightarrow> curl_setting list \<Rightarrow> 'w \<Rightarrow> (transfer_event list \<times> int) \<times> 'w"
  curl_response_code :: "nat \<Rightarrow> 'w \<Rightarrow> (int \<times> int) \<times> 'w"

definition create_system_easy :: "'w curl_easy_api \<Rightarrow> 'w \<Rightarrow> nat option \<times> 'w" where
  "create_system_easy C = curl_easy_init C"

definition destroy_system_easy :: "'w curl_easy_api \<Rightarrow> nat \<Rightarrow> 'w \<Rightarrow> 'w" where
  "destroy_system_easy C = curl_easy_cleanup C"

definition perform_system_request ::
    "'w curl_easy_api \<Rightarrow> nat \<Rightarrow> curl_setting list \<Rightarrow> 'w \<Rightarrow> (transfer_event list \<times> int) \<times> 'w" where
  "perform_system_request C = curl_easy_perform C"

definition read_system_response_code :: "'w curl_easy_api \<Rightarrow> nat \<Rightarrow> 'w \<Rightarrow> (int \<times> int) \<times> 'w" where
  "read_system_response_code C = curl_response_code C"

definition system_origin_transport :: "'w curl_easy_api \<Rightarrow> 'w origin_transport_api" where
  "system_origin_transport C =
     \<lparr>easy_create = Some (create_system_easy C), easy_destroy = Some (destroy_system_easy C),
      easy_perform = Some (perform_system_request C), easy_response_code = Some (read_system_response_code C)\<rparr>"

lemma system_transport_valid: "valid_transport (system_origin_transport C)"
  by (simp add: valid_transport_def system_origin_transport_def)

end
