(* ===== verification/Startup.thy ===== *)
theory Startup
  imports Bootstrap Vips_Runtime System_Interfaces
begin

unbundle bit_operations_syntax

text \<open>
  \<^verbatim>\<open>main\<close> of \<^verbatim>\<open>src/bootstrap.cpp\<close>: the inputs of the
  process, the checks that the linked libraries are those it was built against, the start of libvips, and
  the loop. What a library answers about itself is a field of \<open>linked\<close>, what its header said is
  a field of \<open>built\<close>; calls that acquire or release something work on the world.
\<close>

section \<open>What the libraries say about themselves\<close>

record built =
  built_curl :: int
  built_png :: int
  built_jpeg :: string
  built_ffi :: string
  built_glib :: "int \<times> int \<times> int"
  built_heif :: int
  built_sharpyuv :: int
  built_zlib :: string
  built_nghttp2 :: int

record curl_version_data =
  version_num :: int
  curl_features :: u32
  ssl_version :: "string option"

datatype heif_coding = Coding_av1 | Coding_hevc

record linked =
  curl_version_info :: "curl_version_data option"
  png_access_version_number :: int
  jpeg_std_error_same :: bool
  nsgif_strerror_ok :: string
  cms_version :: int
  orientation_tag_name :: "string option"
  xml_expat_version :: "string option"
  ffi_prep_result :: int
  linked_glib :: "int \<times> int \<times> int"
  g_module_supported :: int
  aom_version :: int
  aom_encoder_interface :: bool
  aom_decoder_interface :: bool
  aom_encoder_config_result :: int
  heif_version :: int
  heif_decodes :: "heif_coding \<Rightarrow> bool"
  heif_encodes :: "heif_coding \<Rightarrow> bool"
  vips_operation_known :: "string \<Rightarrow> bool"
  pcre2_config_version :: "int \<times> string"
  webp_decoder_version :: int
  webp_encoder_version :: int
  webp_demux_version :: int
  webp_mux_version :: int
  sharpyuv_version :: int
  zlib_version :: "string option"
  nghttp2_version_num :: "int option"

text \<open>The bits of \<^verbatim>\<open>CURL_VERSION_SSL\<close>,
  \<^verbatim>\<open>CURL_VERSION_LIBZ\<close> and \<^verbatim>\<open>CURL_VERSION_HTTP2\<close>.\<close>

definition required_curl_features :: u32 where
  "required_curl_features = push_bit 2 1 OR push_bit 3 1 OR push_bit 16 1"

definition curl_linked_ok :: "built \<Rightarrow> linked \<Rightarrow> bool" where
  "curl_linked_ok B L =
     (case curl_version_info L of
        None \<Rightarrow> False
      | Some v \<Rightarrow> version_num v = built_curl B \<and> curl_features v AND required_curl_features = required_curl_features
          \<and> (case ssl_version v of None \<Rightarrow> False | Some ssl \<Rightarrow> starts_with ssl ''BoringSSL''))"

definition image_formats_ok :: "built \<Rightarrow> linked \<Rightarrow> bool" where
  "image_formats_ok B L \<longleftrightarrow> png_access_version_number L = built_png B
     \<and> jpeg_std_error_same L \<and> built_jpeg B = ''3.2.0''
     \<and> nsgif_strerror_ok L = ''Success''
     \<and> cms_version L = 2190
     \<and> orientation_tag_name L = Some ''Orientation''"

definition support_libraries_ok :: "built \<Rightarrow> linked \<Rightarrow> bool" where
  "support_libraries_ok B L \<longleftrightarrow> xml_expat_version L = Some ''expat_2.9.0''
     \<and> built_ffi B = ''3.8.0'' \<and> ffi_prep_result L = 0
     \<and> linked_glib L = built_glib B \<and> g_module_supported L = 0"

definition aom_linked_ok :: "linked \<Rightarrow> bool" where
  "aom_linked_ok L \<longleftrightarrow> aom_version L = (push_bit 16 3 OR push_bit 8 15 OR 2) \<and> aom_encoder_interface L
     \<and> aom_decoder_interface L \<and> aom_encoder_config_result L = 0"

definition vips_operations_ok :: "linked \<Rightarrow> bool" where
  "vips_operations_ok L \<longleftrightarrow> vips_operation_known L ''heifload'' \<and> vips_operation_known L ''heifsave''
     \<and> \<not> vips_operation_known L ''tiffload'' \<and> \<not> vips_operation_known L ''magickload''"

definition late_libraries_ok :: "built \<Rightarrow> linked \<Rightarrow> bool" where
  "late_libraries_ok B L \<longleftrightarrow>
     \<not> fst (pcre2_config_version L) < 0 \<and> starts_with (snd (pcre2_config_version L)) ''10.49 ''
     \<and> webp_decoder_version L = 0x010600 \<and> webp_encoder_version L = 0x010600 \<and> webp_demux_version L = 0x010600
     \<and> webp_mux_version L = 0x010600 \<and> sharpyuv_version L = built_sharpyuv B
     \<and> zlib_version L = Some (built_zlib B)
     \<and> nghttp2_version_num L = Some (built_nghttp2 B)"

section \<open>Calls\<close>

record ('c, 'g, 'w) start_api =
  getenv_runtime_api :: "'w \<Rightarrow> string option"
  process_clock :: "'w \<Rightarrow> int \<times> 'w"
  curl_global_init :: "'w \<Rightarrow> int \<times> 'w"
  curl_global_cleanup :: "'w \<Rightarrow> 'w"
  ssl_ctx_new :: "'w \<Rightarrow> 'c option \<times> 'w"
  ssl_ctx_free :: "'c \<Rightarrow> 'w \<Rightarrow> 'w"
  ssl_set_min_version :: "'c \<Rightarrow> int \<Rightarrow> 'w \<Rightarrow> int \<times> 'w"
  ssl_set_max_version :: "'c \<Rightarrow> int \<Rightarrow> 'w \<Rightarrow> int \<times> 'w"
  memory_stream_new :: "string \<Rightarrow> 'w \<Rightarrow> 'g option \<times> 'w"
  stream_read :: "'g \<Rightarrow> nat \<Rightarrow> 'w \<Rightarrow> (int \<times> string) \<times> 'w"
  object_unref :: "'g \<Rightarrow> 'w \<Rightarrow> 'w"
  heif_init :: "'w \<Rightarrow> int \<times> 'w"
  heif_deinit :: "'w \<Rightarrow> 'w"
  start_vips :: "'w vips_start_api"

text \<open>The inputs: the variable of the environment and the authority in it; then the conversion of a
  host name and the embedded bundle.\<close>

definition runtime_api_of :: "('c, 'g, 'w) start_api \<Rightarrow> 'w \<Rightarrow> string option" where
  "runtime_api_of A w =
     (case getenv_runtime_api A w of
        None \<Rightarrow> None
      | Some runtime_api \<Rightarrow> if parse_runtime_authority runtime_api = None then None else Some runtime_api)"

definition probe_hostname :: string where
  "probe_hostname = ''b'' @ [CHR 0xC3, CHR 0xBC] @ ''cher.example''"

definition start_inputs_ok :: "idna_api \<Rightarrow> bytes \<Rightarrow> int \<Rightarrow> 'c option \<Rightarrow> bool" where
  "start_inputs_ok idn bundle curl_code tls \<longleftrightarrow>
     normalize_hostname idn probe_hostname = Inr ''xn--bcher-kva.example'' \<and> bundle \<noteq> [] \<and> curl_code = 0 \<and> tls \<noteq> None"

text \<open>The probe of the input streams, with the stream that lives on until the process ends.\<close>

definition probe_stream :: "('c, 'g, 'w) start_api \<Rightarrow> 'w \<Rightarrow> (bool \<times> 'g option) \<times> 'w" where
  "probe_stream A w =
     (case memory_stream_new A ''gio'' w of
        (None, w1) \<Rightarrow> ((False, None), w1)
      | (Some g, w1) \<Rightarrow>
          let ((count, buffer), w2) = stream_read A g 3 w1
          in ((count = 3 \<and> buffer = ''gio'', Some g), w2))"

definition probe_heif :: "('c, 'g, 'w) start_api \<Rightarrow> built \<Rightarrow> linked \<Rightarrow> 'w \<Rightarrow> bool \<times> 'w" where
  "probe_heif A B L w =
     (if heif_version L \<noteq> built_heif B then (False, w)
      else
        let (code, w1) = heif_init A w
        in if code \<noteq> 0 \<or> \<not> heif_decodes L Coding_av1 \<or> \<not> heif_encodes L Coding_av1 \<or> heif_decodes L Coding_hevc
              \<or> heif_encodes L Coding_hevc
           then (False, w1) else (True, heif_deinit A w1))"

definition limit_tls :: "('c, 'g, 'w) start_api \<Rightarrow> 'c \<Rightarrow> 'w \<Rightarrow> bool \<times> 'w" where
  "limit_tls A c w =
     (let (least, w1) = ssl_set_min_version A c 0x0303 w
      in if least \<noteq> 1 then (False, w1)
         else let (greatest, w2) = ssl_set_max_version A c 0x0304 w1 in (greatest = 1, w2))"

text \<open>The checks in the order of the code, with what is to be released when the process ends: the
  stream and the static object of libvips.\<close>

definition check_libraries ::
    "('c, 'g, 'w) start_api \<Rightarrow> built \<Rightarrow> linked \<Rightarrow> 'c \<Rightarrow> 'w \<Rightarrow> (bool \<times> 'g option \<times> bool option) \<times> 'w" where
  "check_libraries A B L c w =
     (if \<not> (curl_linked_ok B L \<and> image_formats_ok B L \<and> support_libraries_ok B L) then ((False, None, None), w)
      else
        let ((read_back, stream), w1) = probe_stream A w
        in if \<not> read_back \<or> \<not> aom_linked_ok L then ((False, stream, None), w1)
           else case probe_heif A B L w1 of
             (False, w2) \<Rightarrow> ((False, stream, None), w2)
           | (True, w2) \<Rightarrow>
               (case initialize_vips (start_vips A) (None, w2) of
                  (False, (runtime, w3)) \<Rightarrow> ((False, stream, runtime), w3)
                | (True, (runtime, w3)) \<Rightarrow>
                    if \<not> vips_operations_ok L \<or> \<not> late_libraries_ok B L then ((False, stream, runtime), w3)
                    else let (limited, w4) = limit_tls A c w3 in ((limited, stream, runtime), w4)))"

text \<open>The destructors: those of \<^verbatim>\<open>main\<close>, in the reverse order of the
  constructors, and that of the static object.\<close>

definition release_start ::
    "('c, 'g, 'w) start_api \<Rightarrow> int \<Rightarrow> 'c option \<Rightarrow> 'g option \<times> bool option \<Rightarrow> 'w \<Rightarrow> 'w" where
  "release_start A curl_code tls held_objects w =
     (let (stream, runtime) = held_objects;
          w1 = (case stream of None \<Rightarrow> w | Some g \<Rightarrow> object_unref A g w);
          w2 = (case tls of None \<Rightarrow> w1 | Some c \<Rightarrow> ssl_ctx_free A c w1);
          w3 = (if curl_code = 0 then curl_global_cleanup A w2 else w2)
      in destroy_vips_runtime (start_vips A) runtime w3)"

definition cold_start_entry :: "u64 \<Rightarrow> string" where
  "cold_start_entry microseconds =
     ''{'' @ quoted ''category'' @ '':'' @ quoted ''cold_start'' @ '','' @ quoted ''durationMicros'' @ '':''
     @ nat_to_string (unat microseconds) @ ''}'' @ [LF]"

definition announce_cold_start :: "('c, 'g, 'w) start_api \<Rightarrow> (string \<Rightarrow> 'w \<Rightarrow> 'w) \<Rightarrow> int \<Rightarrow> 'w \<Rightarrow> 'w" where
  "announce_cold_start A stderr start w =
     (let (now, w1) = process_clock A w;
          microseconds = (if start \<le> now then (now - start) div 1000 else - ((start - now) div 1000))
      in stderr (cold_start_entry (of_int microseconds)) w1)"

text \<open>\<^verbatim>\<open>main\<close>. An exception that leaves the loop ends the process without its
  destructors.\<close>

definition bootstrap_main ::
    "('c, 'g, 'w) start_api \<Rightarrow> built \<Rightarrow> linked \<Rightarrow> idna_api \<Rightarrow> bytes \<Rightarrow> ('a, 'w) socket_api \<Rightarrow>
     (string \<Rightarrow> 'w \<Rightarrow> bool \<times> 'w) \<Rightarrow> (string \<Rightarrow> 'w \<Rightarrow> 'w) \<Rightarrow> 'w handler \<Rightarrow> 'w \<Rightarrow> (turn_end \<times> 'w) option" where
  "bootstrap_main A B L idn bundle api trace stderr handler w =
     (let (start, w1) = process_clock A w
      in case runtime_api_of A w1 of
           None \<Rightarrow> Some (Turn_exit, w1)
         | Some runtime_api \<Rightarrow>
             (let (curl_code, w2) = curl_global_init A w1;
                  (tls, w3) = ssl_ctx_new A w2
              in if \<not> start_inputs_ok idn bundle curl_code tls
                 then Some (Turn_exit, release_start A curl_code tls (None, None) w3)
                 else
                   let ((ready, acquired), w4) = check_libraries A B L (the tls) w3
                   in if \<not> ready then Some (Turn_exit, release_start A curl_code tls acquired w4)
                      else map_option
                        (\<lambda>(e, w5). (e, if e = Turn_terminated then w5 else release_start A curl_code tls acquired w5))
                        (serve (client_env api runtime_api trace stderr handler)
                           (announce_cold_start A stderr start w4))))"

section \<open>What the start ensures\<close>

text \<open>The checks are passed only by the libraries that the process was built against, with the media
  types it wants and without those it does not, and leave the stream and libvips to be released.\<close>

lemma check_libraries_ready:
  assumes "check_libraries A B L c w = ((True, stream, runtime), w')"
  shows "curl_linked_ok B L \<and> image_formats_ok B L \<and> support_libraries_ok B L \<and> aom_linked_ok L
    \<and> vips_operations_ok L \<and> late_libraries_ok B L \<and> stream \<noteq> None \<and> runtime = Some True
    \<and> (\<exists>w1 w2. limit_tls A c w1 = (True, w2))"
  using assms
  by (auto simp: check_libraries_def probe_stream_def initialize_vips_def split: if_splits prod.splits option.splits bool.splits)

text \<open>A process that ends has returned 1 and released what it acquired, in reverse order; it has
  polled only behind all checks, with an authority that the parser accepts.\<close>

lemma bootstrap_main_ends:
  assumes "bootstrap_main A B L idn bundle api trace stderr handler w = Some (e, w')"
  obtains "e = Turn_exit" "runtime_api_of A (snd (process_clock A w)) = None" "w' = snd (process_clock A w)"
  | a curl_code tls acquired w3 where "e = Turn_exit" "parse_runtime_authority a \<noteq> None"
      "w' = release_start A curl_code tls acquired w3"
      "\<not> start_inputs_ok idn bundle curl_code tls \<or> (\<exists>w2. check_libraries A B L (the tls) w2 = ((False, acquired), w3))"
  | a tls acquired w2 w3 w4 where "e = Turn_exit" "parse_runtime_authority a \<noteq> None"
      "start_inputs_ok idn bundle 0 (Some tls)" "check_libraries A B L tls w2 = ((True, acquired), w3)"
      "serve (client_env api a trace stderr handler)
         (announce_cold_start A stderr (fst (process_clock A w)) w3) = Some (Turn_exit, w4)"
      "w' = release_start A 0 (Some tls) acquired w4"
proof -
  obtain start w1 where clock: "process_clock A w = (start, w1)" by (metis surj_pair)
  show thesis
  proof (cases "runtime_api_of A w1")
    case None
    with assms clock have "e = Turn_exit" "w' = snd (process_clock A w)" by (simp_all add: bootstrap_main_def)
    with None clock show thesis by (intro that(1)) simp_all
  next
    case (Some a)
    then have a: "parse_runtime_authority a \<noteq> None" by (auto simp: runtime_api_of_def split: option.splits if_splits)
    obtain code w2 where curl: "curl_global_init A w1 = (code, w2)" by (metis surj_pair)
    obtain tls w3 where ssl: "ssl_ctx_new A w2 = (tls, w3)" by (metis surj_pair)
    obtain ready acquired w4 where checks: "check_libraries A B L (the tls) w3 = ((ready, acquired), w4)" by (metis surj_pair)
    show thesis
    proof (cases "start_inputs_ok idn bundle code tls \<and> ready")
      case False
      let ?ok = "start_inputs_ok idn bundle code tls"
      from False assms clock Some curl ssl checks have ends: "e = Turn_exit"
        "w' = release_start A code tls (if ?ok then acquired else (None, None)) (if ?ok then w4 else w3)"
        by (cases ?ok; simp add: bootstrap_main_def)+
      show thesis
        by (rule that(2) [OF ends(1) a ends(2)]) (use False checks in auto)
    next
      case True
      with assms clock Some curl ssl checks obtain w5 where
        run: "serve (client_env api a trace stderr handler) (announce_cold_start A stderr start w4) = Some (e, w5)"
        and w': "w' = (if e = Turn_terminated then w5 else release_start A code tls acquired w5)"
        by (auto simp: bootstrap_main_def)
      from client_loop_exits [OF run] have "e = Turn_exit" .
      moreover from True obtain c where "tls = Some c" "code = 0" by (auto simp: start_inputs_ok_def)
      ultimately show thesis
        using True run w' a checks clock by (intro that(3) [of a c w3 acquired w4 w5]) simp_all
    qed
  qed
qed

end
