(* ===== verification/Delivery.thy ===== *)
theory Delivery
  imports Bootstrap
begin

text \<open>
  What a turn of the service does on the wire: the loop of \<^verbatim>\<open>src/bootstrap.cpp\<close> over
  the client of \<^verbatim>\<open>src/runtime/client.cpp\<close>, down to the bytes of its connections.
\<close>

section \<open>One connection\<close>

text \<open>An exchange on a connection of its own, the bytes that it put there, and the world behind
  it.\<close>

definition on_connection ::
    "('a, 'k) socket_api \<Rightarrow> string \<Rightarrow> (int \<Rightarrow> 'k wire_state \<Rightarrow> ('r \<times> 'k wire_state) option) \<Rightarrow> 'k \<Rightarrow> 'r \<Rightarrow> bytes \<Rightarrow> 'k \<Rightarrow> bool" where
  "on_connection api authority exchange w r wire w' \<longleftrightarrow>
     (\<exists>fd k1 k2. connect_transport api authority w = (Some fd, k1) \<and> exchange fd (k1, []) = Some (r, (k2, wire))
        \<and> w' = snd (close_transport api fd k2))"

lemma with_transport_connection:
  assumes "with_transport api authority failed exchange w = Some (r, w')" and "r \<noteq> failed"
  shows "\<exists>wire. on_connection api authority exchange w r wire w'"
  using assms by (auto simp: with_transport_def on_connection_def split: prod.splits option.splits)

text \<open>A poll that yielded an invocation; a response and an error report that the runtime took.\<close>

definition polled :: "('a, 'k) socket_api \<Rightarrow> string \<Rightarrow> 'k \<Rightarrow> invocation \<Rightarrow> 'k \<Rightarrow> bool" where
  "polled api authority w iv w' \<longleftrightarrow>
     (\<exists>pieces fd s s'. on_connection api authority (\<lambda>fd. poll_next_on api fd authority) w (Some iv)
          (bytes_of_string (make_next_request_head authority)) w'
        \<and> reads api fd s pieces s' \<and> message (concat pieces) = Some iv)"

definition response_delivered :: "('a, 'k) socket_api \<Rightarrow> string \<Rightarrow> string \<Rightarrow> http_response \<Rightarrow> 'k \<Rightarrow> 'k \<Rightarrow> bool" where
  "response_delivered api authority req r w w' \<longleftrightarrow>
     (\<exists>chunks meta. on_connection api authority (\<lambda>fd. send_response_on api fd authority req r) w True
          (bytes_of_string (join_lines (streaming_lines authority req) @ header_delimiter) @ chunks) w'
        \<and> list_all plain_line (streaming_lines authority req)
        \<and> decode_chunks chunks = Some (bytes_of_string meta @ replicate 8 0 @ body r) \<and> NUL \<notin> set meta
        \<and> read_metadata meta = Some (unat (status r), map (\<lambda>h. (header_name h, header_value h)) (headers r)))"

definition report_delivered ::
    "('a, 'k) socket_api \<Rightarrow> string \<Rightarrow> string \<Rightarrow> string \<Rightarrow> string \<Rightarrow> 'k \<Rightarrow> 'k \<Rightarrow> bool" where
  "report_delivered api authority req error_type error_message w w' \<longleftrightarrow>
     (let content = error_body error_type error_message; head = error_lines authority req error_type (length content)
      in on_connection api authority (\<lambda>fd. send_invocation_error_on api fd authority req error_type error_message) w True
           (bytes_of_string (join_lines head @ header_delimiter @ content)) w'
         \<and> list_all plain_line head)"

lemma client_poll_polled:
  assumes "client_poll_next api authority w = Some (Some iv, w')"
  shows "polled api authority w iv w'"
proof -
  from with_transport_connection [OF assms [unfolded client_poll_next_def]] obtain fd k1 k2 wire
    where conn: "connect_transport api authority w = (Some fd, k1)" "w' = snd (close_transport api fd k2)"
      and run: "poll_next_on api fd authority (k1, []) = Some (Some iv, (k2, wire))"
    by (auto simp: on_connection_def)
  from poll_returns_message [OF run] obtain s1 pieces where "wire = bytes_of_string (make_next_request_head authority)"
    "reads api fd s1 pieces (k2, wire)" "message (concat pieces) = Some iv" by auto
  with conn run show ?thesis unfolding polled_def on_connection_def by blast
qed

lemma client_response_delivered:
  assumes "client_send_response api authority req r w = Some (True, w')"
  shows "response_delivered api authority req r w w'"
proof -
  from with_transport_connection [OF assms [unfolded client_send_response_def]] obtain fd k1 k2 wire
    where conn: "connect_transport api authority w = (Some fd, k1)" "w' = snd (close_transport api fd k2)"
      and run: "send_response_on api fd authority req r (k1, []) = Some (True, (k2, wire))"
    by (auto simp: on_connection_def)
  from response_exchange_delivers [OF run]
  have "wire = bytes_of_string (join_lines (streaming_lines authority req) @ header_delimiter) @ response_wire r"
    and "list_all plain_line (streaming_lines authority req)" by auto
  with conn run response_wire_reads [of r] show ?thesis
    unfolding response_delivered_def on_connection_def by blast
qed

lemma client_report_delivered:
  assumes "client_send_invocation_error api authority req error_type error_message w = Some (True, w')"
  shows "report_delivered api authority req error_type error_message w w'"
proof -
  from with_transport_connection [OF assms [unfolded client_send_invocation_error_def]] obtain fd k1 k2 wire
    where conn: "connect_transport api authority w = (Some fd, k1)" "w' = snd (close_transport api fd k2)"
      and run: "send_invocation_error_on api fd authority req error_type error_message (k1, []) = Some (True, (k2, wire))"
    by (auto simp: on_connection_def)
  from run have ok: "parse_runtime_authority authority \<noteq> None" "client_safe_request_id req" "safe_line error_type"
    by (auto simp: send_invocation_error_on_def succeed_def split: if_splits)
  let ?c = "error_body error_type error_message"
  have "wire = bytes_of_string (error_head authority req error_type (length ?c) @ ?c)"
    using delivers_error [OF ok, of api fd error_message] run unfolding socket.delivers_def by fastforce
  with error_lines_plain [OF ok] have "wire = bytes_of_string (join_lines (error_lines authority req error_type (length ?c)) @ header_delimiter @ ?c)"
    and "list_all plain_line (error_lines authority req error_type (length ?c))" by simp_all
  with conn run show ?thesis
    unfolding report_delivered_def on_connection_def Let_def by blast
qed

section \<open>One turn\<close>

text \<open>The two texts of the report for a handler that threw.\<close>

fun failure_texts :: "handler_end \<Rightarrow> string \<times> string" where
  "failure_texts Handler_bad_alloc = (''RuntimeOutOfMemory'', ''Invocation allocation failed before response'')"
| "failure_texts Handler_exception = (''UnhandledInvocationError'', ''Invocation failed before response'')"
| "failure_texts Handler_unknown = (''UnknownInvocationError'', ''Invocation failed before response'')"
| "failure_texts (Handler_response _) = ([], [])"

definition answer_delivered :: "('a, 'k) socket_api \<Rightarrow> string \<Rightarrow> string \<Rightarrow> handler_end \<Rightarrow> 'k \<Rightarrow> 'k \<Rightarrow> bool" where
  "answer_delivered api authority req e w w' =
     (case e of Handler_response r \<Rightarrow> response_delivered api authority req r w w'
      | _ \<Rightarrow> report_delivered api authority req (fst (failure_texts e)) (snd (failure_texts e)) w w')"

lemma judge_good:
  "judge good bad x = Some (good, w') \<Longrightarrow> good \<noteq> bad \<Longrightarrow> x = Some (Submitted True, w')"
  by (auto simp: judge_def split: if_splits)

lemma client_responder_simps:
  "responder_send (client_responder api a) req r w = Some (Submitted True, w') \<longleftrightarrow> client_send_response api a req r w = Some (True, w')"
  "responder_report (client_responder api a) req ty msg w = Some (Submitted True, w') \<longleftrightarrow>
     client_send_invocation_error api a req ty msg w = Some (True, w')"
  by (auto simp: client_responder_def)

lemma execution_delivers:
  assumes "execute_invocation (client_responder api a) iv (Some handler) w = Some (result, w')"
    and "snd (after_execution result) = Turn_continue"
  shows "\<exists>e w1. handler iv w = Some (e, w1) \<and> answer_delivered api a (request_id iv) e w1 w' \<and> result = result_of e (Submitted True)"
proof -
  from assms(1) obtain e w1 where run: "handler iv w = Some (e, w1)"
    by (auto simp: execute_invocation_def call_handler_def split: option.splits)
  have result: "result = result_of e (Submitted True)"
    using assms run
    by (cases e; cases result)
      (auto simp: execute_invocation_def call_handler_def report_error_judged send_answer_judged judge_def split: if_splits)
  have "answer_delivered api a (request_id iv) e w1 w'"
  proof (cases e)
    case (Handler_response r)
    with assms run have "judge Response_sent Response_failure (responder_send (client_responder api a) (request_id iv) r w1)
        = Some (Response_sent, w')"
      by (cases result) (auto simp: execute_invocation_def call_handler_def send_answer_judged judge_def split: if_splits)
    from judge_good [OF this] Handler_response show ?thesis
      by (simp add: answer_delivered_def client_responder_simps client_response_delivered)
  next
    case Handler_bad_alloc
    with assms run have "judge Out_of_memory_reported Error_submission_failure
        (responder_report (client_responder api a) (request_id iv) (fst (failure_texts e)) (snd (failure_texts e)) w1)
        = Some (Out_of_memory_reported, w')"
      by (cases result) (auto simp: execute_invocation_def call_handler_def report_error_judged judge_def split: if_splits)
    from judge_good [OF this] Handler_bad_alloc show ?thesis
      by (simp add: answer_delivered_def client_responder_simps client_report_delivered)
  next
    case Handler_exception
    with assms run have "judge Unhandled_error_reported Error_submission_failure
        (responder_report (client_responder api a) (request_id iv) (fst (failure_texts e)) (snd (failure_texts e)) w1)
        = Some (Unhandled_error_reported, w')"
      by (cases result) (auto simp: execute_invocation_def call_handler_def report_error_judged judge_def split: if_splits)
    from judge_good [OF this] Handler_exception show ?thesis
      by (simp add: answer_delivered_def client_responder_simps client_report_delivered)
  next
    case Handler_unknown
    with assms run have "judge Unknown_error_reported Error_submission_failure
        (responder_report (client_responder api a) (request_id iv) (fst (failure_texts e)) (snd (failure_texts e)) w1)
        = Some (Unknown_error_reported, w')"
      by (cases result) (auto simp: execute_invocation_def call_handler_def report_error_judged judge_def split: if_splits)
    from judge_good [OF this] Handler_unknown show ?thesis
      by (simp add: answer_delivered_def client_responder_simps client_report_delivered)
  qed
  with run result show ?thesis by blast
qed

text \<open>The category of the log entry behind the report of a handler that threw, and the world behind
  that entry.\<close>

fun failure_category :: "handler_end \<Rightarrow> string option" where
  "failure_category (Handler_response _) = None"
| "failure_category Handler_bad_alloc = Some ''runtime_out_of_memory''"
| "failure_category Handler_exception = Some ''unhandled_invocation_error''"
| "failure_category Handler_unknown = Some ''unknown_invocation_error''"

definition entered :: "(string \<Rightarrow> 'k \<Rightarrow> 'k) \<Rightarrow> string \<Rightarrow> string option \<Rightarrow> 'k \<Rightarrow> 'k" where
  "entered stderr req category w = (case category of None \<Rightarrow> w | Some c \<Rightarrow> stderr (runtime_failure_entry req c) w)"

lemma after_delivery: "after_execution (result_of e (Submitted True)) = (failure_category e, Turn_continue)"
  by (cases e) simp_all

lemma log_execution_entered:
  "log_execution E iv (result_of e (Submitted True)) w = (Turn_continue, entered (write_stderr E) (request_id iv) (failure_category e) w)"
  by (simp add: log_execution_def after_delivery entered_def log_runtime_failure_def split: option.split)

section \<open>Properties\<close>

text \<open>C5. Nothing is lost on the way: after a turn of the loop that goes on, the runtime has sent, on
  one connection, a message that holds an invocation, and the service has put the answer for its request id,
  and nothing else, on a second one: a request head of plain lines and chunks that decode to the metadata
  and the body of the very response that the handler gave for that invocation, or, when the handler threw or
  the trace id could not be set, the error report that belongs to it.\<close>

theorem turn_end_to_end:
  assumes "serve_turn (client_env api authority trace stderr handler) w = Some (Turn_continue, w')"
  shows "\<exists>iv w1 set w2. polled api authority w iv w1 \<and> trace (c_str (trace_id iv)) w1 = (set, w2)
    \<and> (if set
       then \<exists>e w3 w4. handler iv w2 = Some (e, w3) \<and> answer_delivered api authority (request_id iv) e w3 w4
              \<and> w' = entered stderr (request_id iv) (failure_category e) w4
       else report_delivered api authority (request_id iv) ''RuntimeEnvironmentError'' ''Failed to set invocation trace context''
              (entered stderr (request_id iv) (Some ''runtime_environment_error'') w2) w')"
proof -
  let ?E = "client_env api authority trace stderr handler"
  from assms obtain iv w1 where poll: "client_poll_next api authority w = Some (Some iv, w1)"
    by (auto simp: serve_turn_def client_env_def split: option.splits)
  obtain ok w2 where trace: "trace (c_str (trace_id iv)) w1 = (ok, w2)" by (metis surj_pair)
  have "if ok then \<exists>e w3 w4. handler iv w2 = Some (e, w3) \<and> answer_delivered api authority (request_id iv) e w3 w4
              \<and> w' = entered stderr (request_id iv) (failure_category e) w4
       else report_delivered api authority (request_id iv) ''RuntimeEnvironmentError'' ''Failed to set invocation trace context''
              (entered stderr (request_id iv) (Some ''runtime_environment_error'') w2) w'"
  proof (cases ok)
    case True
    with assms poll trace obtain result w4 where
      run: "execute_invocation (client_responder api authority) iv (Some handler) w2 = Some (result, w4)"
      and out: "log_execution ?E iv result w4 = (Turn_continue, w')"
      by (auto simp: serve_turn_def client_env_def)
    from out have "snd (after_execution result) = Turn_continue" by (auto simp: log_execution_def split: prod.splits)
    from execution_delivers [OF run this] obtain e w3 where e: "handler iv w2 = Some (e, w3)"
      "answer_delivered api authority (request_id iv) e w3 w4" "result = result_of e (Submitted True)" by blast
    with out have "w' = entered stderr (request_id iv) (failure_category e) w4"
      by (simp add: log_execution_entered client_env_def)
    with e True show ?thesis by auto
  next
    case False
    with assms poll trace have "environment_failure ?E iv w2 = Some (Turn_continue, w')"
      by (simp add: serve_turn_def client_env_def)
    then have "client_send_invocation_error api authority (request_id iv) ''RuntimeEnvironmentError''
        ''Failed to set invocation trace context'' (entered stderr (request_id iv) (Some ''runtime_environment_error'') w2) = Some (True, w')"
      by (auto simp: environment_failure_def client_env_def client_responder_def entered_def log_runtime_failure_def split: bool.splits)
    with False show ?thesis by (simp add: client_report_delivered)
  qed
  with client_poll_polled [OF poll] trace show ?thesis by blast
qed

lemma answered_turn:
  assumes "\<exists>iv w1 set w2. p iv w1 \<and> (True, w1) = (set, w2)
    \<and> (if set then \<exists>e w3 w4. Some (x, w2) = Some (e, w3) \<and> q iv e w3 w4 \<and> r iv e w4 else s iv w2)"
  shows "\<exists>iv w3 w4. q iv x w3 w4"
proof -
  from assms obtain iv w1 b w2 where "(True, w1) = (b, w2)"
    and "if b then \<exists>e w3 w4. Some (x, w2) = Some (e, w3) \<and> q iv e w3 w4 \<and> r iv e w4 else s iv w2"
    by (elim exE conjE) (rule that)
  then obtain w4 where "q iv x w2 w4" by auto
  then show ?thesis by (intro exI)
qed

theorem turn_end_to_end_witness:
  "\<exists>w' (iv :: invocation) w3 w4. serve_turn (client_env turn_socket ''127.0.0.1:9001'' (\<lambda>_ k. (True, k)) (\<lambda>_. id)
       (\<lambda>_ k. Some (Handler_response make_status_response, k))) 2 = Some (Turn_continue, w')
     \<and> response_delivered turn_socket ''127.0.0.1:9001'' (request_id iv) make_status_response w3 w4"
proof -
  let ?a = "''127.0.0.1:9001''" and ?h = "\<lambda>(_ :: invocation) (k :: nat). Some (Handler_response make_status_response, k)"
  let ?E = "client_env turn_socket ?a (\<lambda>_ k. (True, k)) (\<lambda>_. id) ?h"
  have calls: "send_call turn_socket = send_call sample_socket" "\<And>fd k. shutdown_call turn_socket fd k = (0, k)"
    by (simp_all add: turn_socket_def sample_socket_def)
  have head: "make_streaming_request_head ?a ''a1'' \<noteq> []"
    by (simp add: make_streaming_request_head_def safe_header_component_def contains_any_def CR_def LF_def HT_def BACKSLASH_def)
  obtain k1 where poll: "client_poll_next turn_socket ?a 2 = Some (Some sample_invocation, k1)"
    using answered_poll [OF calls(1) turn_socket_reads(2), of "(2, [])"]
    by (force simp: client_poll_next_def with_transport_def turn_socket_connects)
  obtain k2 wire where "send_response_on turn_socket 3 ?a ''a1'' make_status_response (k1, []) = Some (True, (k2, wire))"
    using answered_exchanges [OF calls answered_acks [OF turn_socket_reads(1)] head, of make_status_response]
    unfolding succeeds_def by fastforce
  then obtain k3 where sent: "client_send_response turn_socket ?a ''a1'' make_status_response k1 = Some (True, k3)"
    by (simp add: client_send_response_def with_transport_def turn_socket_connects)
  have turn: "serve_turn ?E 2 = Some (Turn_continue, k3)"
    using poll sent by (simp add: serve_turn_def client_env_def client_responder_def execute_invocation_def call_handler_def
        send_answer_def log_execution_def sample_invocation_def)
  from answered_turn [OF turn_end_to_end [OF turn]]
  obtain iv :: invocation and w3 w4 where "answer_delivered turn_socket ?a (request_id iv) (Handler_response make_status_response) w3 w4"
    by (elim exE) (rule that)
  then have "response_delivered turn_socket ?a (request_id iv) make_status_response w3 w4" by (simp add: answer_delivered_def)
  with turn show ?thesis by (intro exI conjI)
qed

end
