(* ===== verification/Lifetimes.thy ===== *)
theory Lifetimes
  imports Curl_Resolve_Pin Socket_Transport
begin

text \<open>
  The two classes that own a resource, \<^verbatim>\<open>CurlResolvePin\<close>
  (\<^verbatim>\<open>src/http/curl_resolve_pin.cpp\<close>) and \<^verbatim>\<open>SocketTransport\<close>
  (\<^verbatim>\<open>src/runtime/socket_transport.cpp\<close>): their moves, assignments and destruction,
  and that no sequence of these releases a resource twice or loses one.
\<close>

section \<open>The pin\<close>

text \<open>A pin with the list node it owns; the value model of \<^verbatim>\<open>Curl_Resolve_Pin\<close>
  leaves the node out.\<close>

record owned_pin =
  pin_value :: resolve_pin
  pin_node :: "nat option"

text \<open>A moved-from \<^verbatim>\<open>std::string\<close> is valid but unspecified:
  \<open>residue\<close> says what is left in it.\<close>

definition moved_from_pin :: "(string \<Rightarrow> string) \<Rightarrow> owned_pin \<Rightarrow> owned_pin" where
  "moved_from_pin residue other =
     \<lparr>pin_value = \<lparr>pin_error = Some Pin_empty_addresses,
        pin_canonical_url = residue (pin_canonical_url (pin_value other)),
        pin_hostname = residue (pin_hostname (pin_value other)), pin_port = 0,
        pin_entry = residue (pin_entry (pin_value other)), pin_list = None\<rparr>,
      pin_node = None\<rparr>"

text \<open>The new object and what is left of the other one.\<close>

definition pin_move_construct :: "(string \<Rightarrow> string) \<Rightarrow> owned_pin \<Rightarrow> owned_pin \<times> owned_pin" where
  "pin_move_construct residue other = (other, moved_from_pin residue other)"

text \<open>Both objects afterwards and the node that is freed; \<open>same\<close> says that they are one
  object.\<close>

definition pin_move_assign ::
    "(string \<Rightarrow> string) \<Rightarrow> bool \<Rightarrow> owned_pin \<Rightarrow> owned_pin \<Rightarrow> (owned_pin \<times> owned_pin) \<times> nat option" where
  "pin_move_assign residue same target other =
     (if same then ((target, other), None)
      else ((other, moved_from_pin residue other), pin_node target))"

definition pin_destroy :: "owned_pin \<Rightarrow> nat option" where
  "pin_destroy pin = pin_node pin"

section \<open>The socket transport\<close>

text \<open>The object is its descriptor; a negative one stands for none.\<close>

definition socket_held :: "int \<Rightarrow> int option" where
  "socket_held fd = (if 0 \<le> fd then Some fd else None)"

definition socket_move_construct :: "int \<Rightarrow> int \<times> int" where
  "socket_move_construct other = (other, -1)"

definition socket_move_assign :: "bool \<Rightarrow> int \<Rightarrow> int \<Rightarrow> (int \<times> int) \<times> int option" where
  "socket_move_assign same target other =
     (if same then ((target, other), None) else ((other, -1), socket_held target))"

definition socket_destroy :: "int \<Rightarrow> int option" where
  "socket_destroy fd = socket_held fd"

text \<open>What is released is what \<^verbatim>\<open>close\<close> hands to the system.\<close>

lemma socket_destroy_close:
  "close_transport api fd k = (case socket_destroy fd of None \<Rightarrow> (fd, k) | Some d \<Rightarrow> (-1, close_call api d k))"
  by (simp add: close_transport_def socket_destroy_def socket_held_def)

section \<open>Sequences of lifetimes\<close>

record ('v, 'h) owner_api =
  held :: "'v \<Rightarrow> 'h option"
  move_construct :: "'v \<Rightarrow> 'v \<times> 'v"
  move_assign :: "bool \<Rightarrow> 'v \<Rightarrow> 'v \<Rightarrow> ('v \<times> 'v) \<times> 'h option"
  destroy :: "'v \<Rightarrow> 'h option"

definition pin_owner :: "(string \<Rightarrow> string) \<Rightarrow> (owned_pin, nat) owner_api" where
  "pin_owner residue = \<lparr>held = pin_node, move_construct = pin_move_construct residue,
     move_assign = pin_move_assign residue, destroy = pin_destroy\<rparr>"

definition socket_owner :: "(int, int) owner_api" where
  "socket_owner = \<lparr>held = socket_held, move_construct = socket_move_construct,
     move_assign = socket_move_assign, destroy = socket_destroy\<rparr>"

text \<open>The objects of the program by name, the resources that are acquired and not released, and whether a
  resource was ever released that was not.\<close>

record ('v, 'h) lifetimes =
  objects :: "nat \<rightharpoonup> 'v"
  live :: "'h set"
  double_release :: bool

definition no_lifetimes :: "('v, 'h) lifetimes" where
  "no_lifetimes = \<lparr>objects = Map.empty, live = {}, double_release = False\<rparr>"

datatype 'v lifetime_event = Created nat 'v | Move_created nat nat | Move_assigned nat nat | Destroyed nat

definition release :: "'h option \<Rightarrow> ('v, 'h) lifetimes \<Rightarrow> ('v, 'h) lifetimes" where
  "release r st =
     (case r of None \<Rightarrow> st
      | Some h \<Rightarrow> if h \<in> live st then st\<lparr>live := live st - {h}\<rparr> else st\<lparr>double_release := True\<rparr>)"

text \<open>An event: \<open>None\<close> when it cannot happen, because a name is in use or is not, or
  because the system would have to give out a resource that it has given out already.\<close>

fun lifetime_step :: "('v, 'h) owner_api \<Rightarrow> 'v lifetime_event \<Rightarrow> ('v, 'h) lifetimes \<Rightarrow> ('v, 'h) lifetimes option" where
  "lifetime_step A (Created x v) st =
     (if x \<in> dom (objects st) \<or> (\<exists>h\<in>live st. held A v = Some h) then None
      else Some (st\<lparr>objects := (objects st)(x \<mapsto> v), live := live st \<union> set_option (held A v)\<rparr>))"
| "lifetime_step A (Move_created x y) st =
     (case (objects st x, objects st y) of
        (None, Some other) \<Rightarrow>
          (case move_construct A other of
             (made, left) \<Rightarrow> Some (st\<lparr>objects := (objects st)(x \<mapsto> made, y \<mapsto> left)\<rparr>))
      | _ \<Rightarrow> None)"
| "lifetime_step A (Move_assigned x y) st =
     (case (objects st x, objects st y) of
        (Some target, Some other) \<Rightarrow>
          (case move_assign A (x = y) target other of
             ((target', other'), r) \<Rightarrow>
               Some ((release r st)\<lparr>objects := (objects st)(y \<mapsto> other', x \<mapsto> target')\<rparr>))
      | _ \<Rightarrow> None)"
| "lifetime_step A (Destroyed x) st =
     (case objects st x of
        None \<Rightarrow> None
      | Some v \<Rightarrow> Some ((release (destroy A v) st)\<lparr>objects := (objects st)(x := None)\<rparr>))"

fun lifetime_run ::
    "('v, 'h) owner_api \<Rightarrow> 'v lifetime_event list \<Rightarrow> ('v, 'h) lifetimes \<Rightarrow> ('v, 'h) lifetimes option" where
  "lifetime_run A [] st = Some st"
| "lifetime_run A (e # es) st = Option.bind (lifetime_step A e st) (lifetime_run A es)"

text \<open>Every resource that is not released has exactly one owner, and none was released twice.\<close>

definition owns :: "('v, 'h) owner_api \<Rightarrow> ('v, 'h) lifetimes \<Rightarrow> nat \<rightharpoonup> 'h" where
  "owns A st x = Option.bind (objects st x) (held A)"

definition owned_once :: "('v, 'h) owner_api \<Rightarrow> ('v, 'h) lifetimes \<Rightarrow> bool" where
  "owned_once A st \<longleftrightarrow> \<not> double_release st \<and> live st = ran (owns A st) \<and> inj_on (owns A st) (dom (owns A st))"

lemma owned_onceI:
  assumes "\<not> double_release st" and "owns A st = m" and "live st = ran m" and "inj_on m (dom m)"
  shows "owned_once A st"
  using assms by (simp add: owned_once_def)

text \<open>Maps without a value at two places: adding, dropping and handing on a value.\<close>

lemma injective_add:
  assumes "inj_on m (dom m)" and "m x = None" and "r \<notin> Some ` ran m"
  shows "inj_on (m(x := r)) (dom (m(x := r)))" and "ran (m(x := r)) = ran m \<union> set_option r"
proof -
  have "m y \<noteq> r" if "m y \<noteq> None" for y using assms(3) that by (auto simp: ran_def image_iff)
  with assms(1) show "inj_on (m(x := r)) (dom (m(x := r)))" by (force simp: inj_on_def dom_def)
  show "ran (m(x := r)) = ran m \<union> set_option r"
    using assms(2) by (cases r) (simp_all add: fun_upd_idem)
qed

lemma injective_drop:
  assumes "inj_on m (dom m)"
  shows "inj_on (m(x := None)) (dom (m(x := None)))" and "ran (m(x := None)) = ran m - set_option (m x)"
  using assms by (auto simp: inj_on_def dom_def ran_def split: if_splits)

lemma injective_hand_on:
  assumes "inj_on m (dom m)" and "m x = None" and "x \<noteq> y"
  shows "inj_on (m(x := m y, y := None)) (dom (m(x := m y, y := None)))" and "ran (m(x := m y, y := None)) = ran m"
proof -
  have swap: "m(x := m y, y := None) = (m(y := None))(x := m y)" using assms(3) by auto
  have "m y \<notin> Some ` ran (m(y := None))"
    using injective_drop(2) [OF assms(1), of y] by (auto simp: image_iff)
  note add = injective_add [of "m(y := None)" x "m y", OF injective_drop(1) [OF assms(1)] _ this]
  have "ran m - set_option (m y) \<union> set_option (m y) = ran m" by (auto simp: ran_def)
  with add assms injective_drop(2) [OF assms(1), of y]
  show "inj_on (m(x := m y, y := None)) (dom (m(x := m y, y := None)))" "ran (m(x := m y, y := None)) = ran m"
    unfolding swap by (simp_all del: fun_upd_apply add: fun_upd_other)
qed

lemma release_owned:
  "set_option r \<subseteq> live st \<Longrightarrow> live (release r st) = live st - set_option r"
  "set_option r \<subseteq> live st \<Longrightarrow> double_release (release r st) = double_release st"
  "objects (release r st) = objects st"
  by (cases r; auto simp: release_def)+

lemma owned_in_live: "owned_once A st \<Longrightarrow> set_option (owns A st x) \<subseteq> live st"
  by (auto simp: owned_once_def ran_def)

lemma all_gone: "owned_once A st \<Longrightarrow> objects st = Map.empty \<Longrightarrow> live st = {}"
proof -
  assume "owned_once A st" "objects st = Map.empty"
  moreover from this(2) have "owns A st = Map.empty" by (intro ext) (simp add: owns_def)
  ultimately show ?thesis by (simp add: owned_once_def)
qed

locale unique_owner =
  fixes A :: "('v, 'h) owner_api"
  assumes construct_moves: "move_construct A v = (made, left) \<Longrightarrow> held A made = held A v \<and> held A left = None"
    and assign_moves: "move_assign A False target other = ((target', other'), r)
      \<Longrightarrow> held A target' = held A other \<and> held A other' = None \<and> r = held A target"
    and assign_self: "move_assign A True v v = ((target', other'), r)
      \<Longrightarrow> held A target' = held A v \<and> r = None"
    and destroy_releases: "destroy A v = held A v"
begin

lemma step_owned_once:
  assumes "owned_once A st" and "lifetime_step A e st = Some st'"
  shows "owned_once A st'"
proof -
  let ?m = "owns A st"
  have inv: "\<not> double_release st" "live st = ran ?m" "inj_on ?m (dom ?m)" using assms(1) by (simp_all add: owned_once_def)
  show ?thesis
  proof (cases e)
    case (Created x v)
    with assms(2) have x: "objects st x = None" and fresh: "held A v \<notin> Some ` live st"
      and st': "st' = st\<lparr>objects := (objects st)(x \<mapsto> v), live := live st \<union> set_option (held A v)\<rparr>"
      by (auto split: if_splits)
    have owned: "owns A st' = ?m(x := held A v)" by (rule ext) (simp add: st' owns_def)
    have "?m x = None" by (simp add: owns_def x)
    then show ?thesis
      using inv fresh injective_add [OF inv(3), of x "held A v"]
      by (intro owned_onceI [OF _ owned]) (simp_all only:, simp_all add: st')
  next
    case (Move_created x y)
    with assms(2) obtain other made left where x: "objects st x = None" and y: "objects st y = Some other"
      and made: "move_construct A other = (made, left)" and st': "st' = st\<lparr>objects := (objects st)(x \<mapsto> made, y \<mapsto> left)\<rparr>"
      by (auto split: option.splits prod.splits)
    then have neq: "x \<noteq> y" by auto
    have owned: "owns A st' = ?m(x := ?m y, y := None)"
      by (rule ext) (use construct_moves [OF made] x y neq in \<open>simp add: st' owns_def\<close>)
    have "?m x = None" by (simp add: owns_def x)
    note hand = injective_hand_on [OF inv(3) this neq]
    show ?thesis
      by (rule owned_onceI [OF _ owned _ hand(1)]) (use inv hand(2) in \<open>simp_all only:, simp_all add: st'\<close>)
  next
    case (Move_assigned x y)
    with assms(2) obtain target other target' other' r where x: "objects st x = Some target" and y: "objects st y = Some other"
      and moved: "move_assign A (x = y) target other = ((target', other'), r)"
      and st': "st' = (release r st)\<lparr>objects := (objects st)(y \<mapsto> other', x \<mapsto> target')\<rparr>"
      by (auto split: option.splits prod.splits)
    show ?thesis
    proof (cases "x = y")
      case True
      with moved x y have "held A target' = held A target" "r = None" using assign_self by fastforce+
      with True x y have "owns A st' = ?m" by (intro ext) (simp add: st' owns_def)
      with inv \<open>r = None\<close> show ?thesis by (intro owned_onceI) (simp_all add: st' release_def)
    next
      case False
      with moved have r: "held A target' = held A other" "held A other' = None" "r = held A target"
        using assign_moves by fastforce+
      then have mx: "r = ?m x" by (simp add: owns_def x)
      have owned: "owns A st' = (?m(x := None))(x := (?m(x := None)) y, y := None)"
        by (rule ext) (use r x y False in \<open>simp add: st' owns_def\<close>)
      note drop = injective_drop [OF inv(3), of x]
      note hand = injective_hand_on [OF drop(1) fun_upd_same False]
      have "set_option r \<subseteq> live st" using owned_in_live [OF assms(1)] mx by simp
      with release_owned [of r st] have "live st' = ran ?m - set_option (?m x)" "\<not> double_release st'"
        using inv mx by (simp_all add: st')
      then show ?thesis
        by (intro owned_onceI [OF _ owned _ hand(1)]) (simp_all only: hand(2) drop(2) not_False_eq_True)
    qed
  next
    case (Destroyed x)
    with assms(2) obtain v where x: "objects st x = Some v"
      and st': "st' = (release (held A v) st)\<lparr>objects := (objects st)(x := None)\<rparr>"
      by (auto simp: destroy_releases split: option.splits)
    have mx: "?m x = held A v" by (simp add: owns_def x)
    have owned: "owns A st' = ?m(x := None)" by (rule ext) (simp add: st' owns_def)
    note drop = injective_drop [OF inv(3), of x]
    have "set_option (held A v) \<subseteq> live st" using owned_in_live [OF assms(1)] mx by metis
    with release_owned [of "held A v" st] have "live st' = ran ?m - set_option (?m x)" "\<not> double_release st'"
      using inv mx by (simp_all add: st')
    then show ?thesis
      by (intro owned_onceI [OF _ owned _ drop(1)]) (simp_all only: drop(2) not_False_eq_True)
  qed
qed

lemma run_owned_once: "lifetime_run A es st = Some st' \<Longrightarrow> owned_once A st \<Longrightarrow> owned_once A st'"
  by (induction es arbitrary: st) (auto simp: bind_eq_Some_conv intro: step_owned_once)

lemma run_from_start: "lifetime_run A es no_lifetimes = Some st \<Longrightarrow> owned_once A st"
  by (erule run_owned_once) (rule owned_onceI [where m = Map.empty], auto simp: no_lifetimes_def owns_def)

end

interpretation pins: unique_owner "pin_owner residue" for residue
  by unfold_locales
    (auto simp: pin_owner_def pin_move_construct_def pin_move_assign_def moved_from_pin_def pin_destroy_def)

interpretation sockets: unique_owner socket_owner
  by unfold_locales
    (auto simp: socket_owner_def socket_move_construct_def socket_move_assign_def socket_destroy_def socket_held_def)

text \<open>A pin that was moved from is not ready and matches no origin; the new one is the old one.\<close>

lemma moved_pin:
  assumes "pin_move_construct residue other = (made, left)"
  shows "made = other \<and> \<not> pin_ok (pin_value left) \<and> \<not> pin_matches (pin_value left) origin"
  using assms by (auto simp: pin_move_construct_def moved_from_pin_def pin_ok_def pin_matches_def)

section \<open>Properties\<close>

text \<open>C10. Whatever sequence of constructions, moves, assignments (to oneself too) and destructions
  pins and sockets go through, in whatever order, no list node is freed twice and no descriptor closed
  twice, every one that is not yet released belongs to exactly one object, and when the last object is gone
  none is left over.\<close>

theorem resources_released_once:
  assumes "lifetime_run (pin_owner residue) es no_lifetimes = Some st"
    and "lifetime_run socket_owner fs no_lifetimes = Some st'"
  shows "owned_once (pin_owner residue) st \<and> owned_once socket_owner st'
    \<and> (objects st = Map.empty \<longrightarrow> live st = {}) \<and> (objects st' = Map.empty \<longrightarrow> live st' = {})"
proof -
  have "owned_once (pin_owner residue) st" "owned_once socket_owner st'"
    using pins.run_from_start [OF assms(1)] sockets.run_from_start [OF assms(2)] by blast+
  then show ?thesis using all_gone [of "pin_owner residue" st] all_gone [of socket_owner st'] by simp
qed

theorem resources_released_once_witness:
  "\<exists>st. lifetime_run socket_owner [Created 0 5, Move_created 1 0, Created 2 7, Move_assigned 2 1, Move_assigned 2 2,
      Destroyed 0, Destroyed 1, Destroyed 2] no_lifetimes = Some st \<and> owned_once socket_owner st \<and> live st = {}"
proof -
  let ?es = "[Created 0 5, Move_created 1 0, Created 2 7, Move_assigned 2 1, Move_assigned 2 2, Destroyed 0, Destroyed 1, Destroyed 2]"
  have run: "lifetime_run socket_owner ?es no_lifetimes = Some no_lifetimes"
    by (simp add: no_lifetimes_def socket_owner_def socket_move_construct_def socket_move_assign_def socket_destroy_def
        socket_held_def release_def fun_upd_idem_iff)
  have "lifetime_run (pin_owner id) [] no_lifetimes = Some no_lifetimes" by simp
  from resources_released_once [OF this run] have "owned_once socket_owner (no_lifetimes :: (int, int) lifetimes)" by blast
  with run show ?thesis by (intro exI [of _ no_lifetimes]) (simp add: no_lifetimes_def)
qed

end
