(* ===== verification/Download_Deadline.thy ===== *)
theory Download_Deadline
  imports Download_Protocol Deadline
begin

text \<open>
  Downloads under the deadline of an invocation: invariants of the world that every interface keeps, and the
  time that each transfer is given.
\<close>

section \<open>Invariants of the world\<close>

text \<open>The contract of interfaces that keep an invariant of the world.\<close>

locale world_invariant =
  fixes A :: "('u, 'w) origin_apis" and I :: "'w \<Rightarrow> bool"
  assumes remaining_keeps: "remaining_milliseconds (timeout_api A) = Some clock \<Longrightarrow> I w \<Longrightarrow> I (snd (clock w))"
    and lookup_keeps: "lookup (resolver_of A) = Some look \<Longrightarrow> I w \<Longrightarrow> I (snd (look host service w))"
    and create_keeps: "easy_create (transport_api A) = Some create \<Longrightarrow> I w \<Longrightarrow> I (snd (create w))"
    and destroy_keeps: "easy_destroy (transport_api A) = Some destroy \<Longrightarrow> I w \<Longrightarrow> I (destroy h w)"
    and perform_keeps: "easy_perform (transport_api A) = Some run \<Longrightarrow> I w \<Longrightarrow> I (snd (run h ss w))"
    and code_keeps: "easy_response_code (transport_api A) = Some ask \<Longrightarrow> I w \<Longrightarrow> I (snd (ask h w))"
begin

lemma resolve_keeps:
  assumes "I w"
  shows "I (snd (resolve_by A u w))"
proof -
  have "I (snd (look host service w))" if "lookup (resolver_of A) = Some look" for look host service
    using lookup_keeps [OF that assms] .
  then show ?thesis
    using assms by (simp add: resolve_origin_addresses_def split_def Let_def split: option.split sum.split)
qed

lemma valid_keeps:
  assumes "valid_transport (transport_api A)" and "I w"
  shows "I (snd (the (easy_create (transport_api A)) w))" "I (the (easy_destroy (transport_api A)) h w)"
    "I (snd (the (easy_perform (transport_api A)) h ss w))" "I (snd (the (easy_response_code (transport_api A)) h w))"
  using assms create_keeps destroy_keeps perform_keeps code_keeps by (auto simp: valid_transport_def)

lemma clock_keeps:
  assumes "valid_timeout (timeout_api A)" and "I w"
  shows "I (snd (the (remaining_milliseconds (timeout_api A)) w))"
  using assms remaining_keeps by (auto simp: valid_timeout_def)

lemma transfer_keeps:
  assumes "valid_transport (transport_api A)" and "I w"
  shows "I (snd (transfer_on_handle A u pin t h r w))"
  using assms(2) valid_keeps [OF assms(1)]
  by (simp add: transfer_on_handle_def split_def Let_def)

lemma request_keeps:
  assumes "valid_transport (transport_api A)" and "valid_timeout (timeout_api A)" and "I w"
  shows "I (snd (request_with_addresses A u as r w))"
  using assms(3) valid_keeps [OF assms(1)] clock_keeps [OF assms(2)] transfer_keeps [OF assms(1)]
  by (simp add: request_with_addresses_def split_def Let_def split: option.split)

lemma hop_keeps:
  assumes "I w"
  shows "I (snd (perform_origin_request A u w))"
  using assms resolve_keeps clock_keeps request_keeps
  by (simp add: perform_origin_request_def split_def Let_def split: sum.split)

lemma loop_keeps: "B = A \<Longrightarrow> I w \<Longrightarrow> I (snd (download_loop B tracker w))"
proof (induction B tracker w rule: download_loop.induct)
  case (1 B tracker w)
  obtain hop w' where run: "perform_origin_request B (current tracker) w = (hop, w')" by fastforce
  with hop_keeps [of w "current tracker"] 1 have "I w'" by simp
  with 1 run show ?case
    by (subst download_loop.simps) (auto split: sum.split)
qed

lemma download_keeps: "I w \<Longrightarrow> I (snd (download_origin A u w))"
  by (simp add: download_origin_def loop_keeps split: option.split)

end

section \<open>Readings of the clock\<close>

text \<open>Every reading in the log of a download is one that its clock gave in some world.\<close>

fun reading_of :: "('w \<Rightarrow> int \<times> 'w) option \<Rightarrow> api_event \<Rightarrow> bool" where
  "reading_of clock (Ev_remaining ms) \<longleftrightarrow> (\<exists>f w. clock = Some f \<and> ms = fst (f w))"
| "reading_of clock e \<longleftrightarrow> True"

interpretation readings: world_invariant "logged A"
    "\<lambda>s. list_all (reading_of (remaining_milliseconds (timeout_api A))) (snd s)"
  for A :: "('u, 'w) origin_apis"
  by unfold_locales
    (auto simp: logged_timeout_def logged_resolver_def logged_transport_def split_def)

lemma logged_reading:
  assumes "Ev_remaining ms \<in> set (snd (snd (download_origin (logged A) u (w, []))))"
  shows "\<exists>f w0. remaining_milliseconds (timeout_api A) = Some f \<and> ms = fst (f w0)"
proof -
  have "list_all (reading_of (remaining_milliseconds (timeout_api A))) (snd (snd (download_origin (logged A) u (w, []))))"
    by (rule readings.download_keeps) simp
  with assms show ?thesis by (auto simp: list_all_iff)
qed

text \<open>A transfer follows directly on the reading that limits it.\<close>

lemma next_opened: "hop_next env ca ph e = Some (Opened h t) \<Longrightarrow> ph = Timed t \<and> e = Ev_create (Some h)"
  by (erule hop_next.elims) (auto split: if_splits)

lemma next_timed: "hop_next env ca ph e = Some (Timed t) \<Longrightarrow> e = Ev_remaining t"
  by (erule hop_next.elims) (auto split: if_splits)

lemma next_perform:
  "hop_next env ca ph (Ev_perform h ss) = Some ph' \<Longrightarrow> \<exists>t. ph = Opened h t \<and> request_safe env ca t ss"
  by (cases ph) (auto split: if_splits)

lemma run_timed: "hop_run env ca Idle es = Some (Timed t) \<Longrightarrow> \<exists>fs. es = fs @ [Ev_remaining t]"
  by (cases es rule: rev_cases) (auto simp: hop_run_append split: option.splits dest: next_timed)

lemma run_opened: "hop_run env ca Idle es = Some (Opened h t) \<Longrightarrow> \<exists>fs. es = fs @ [Ev_remaining t, Ev_create (Some h)]"
  by (cases es rule: rev_cases) (auto simp: hop_run_append split: option.splits dest!: next_opened run_timed)

lemma accepted_timed:
  assumes "accepted_log env ca es" and "Ev_perform h ss \<in> set es"
  shows "\<exists>fs gs t. es = fs @ [Ev_remaining t, Ev_create (Some h), Ev_perform h ss] @ gs \<and> request_safe env ca t ss"
proof -
  from assms(2) obtain xs gs where es: "es = xs @ Ev_perform h ss # gs" by (meson split_list)
  with assms(1) obtain ph ph' where ph: "hop_run env ca Idle xs = Some ph" "hop_next env ca ph (Ev_perform h ss) = Some ph'"
    by (auto simp: accepted_log_def hop_run_append split: option.splits)
  from next_perform [OF ph(2)] obtain t where t: "ph = Opened h t" "request_safe env ca t ss" by blast
  with ph(1) run_opened obtain fs where "xs = fs @ [Ev_remaining t, Ev_create (Some h)]" by blast
  with es t(2) show ?thesis by auto
qed

section \<open>Properties\<close>

text \<open>C6. No transfer outlives its invocation: directly before it is opened, the clock is read, and
  both its connection and the whole of it are limited to the positive time that is then left until the
  deadline of the invocation less one second, clipped to the largest
  \<^verbatim>\<open>long\<close>.\<close>

theorem transfers_within_deadline:
  assumes "clock_now d = Some clock"
    and "Ev_perform h ss \<in> set (snd (snd (download_origin (logged (A\<lparr>timeout_api := origin_timeout d\<rparr>)) u (w, []))))"
  shows "\<exists>w0 fs gs t. t = min (uint (deadline_ms d) - uint (fst (clock w0)) - 1000) (2 ^ 63 - 1) \<and> 0 < t
    \<and> Set_connecttimeout_ms t \<in> set ss \<and> Set_timeout_ms t \<in> set ss
    \<and> snd (snd (download_origin (logged (A\<lparr>timeout_api := origin_timeout d\<rparr>)) u (w, [])))
        = fs @ [Ev_remaining t, Ev_create (Some h), Ev_perform h ss] @ gs"
proof -
  let ?A = "A\<lparr>timeout_api := origin_timeout d\<rparr>"
  define es where "es = snd (snd (download_origin (logged ?A) u (w, [])))"
  have "accepted_log (url_policy_env ?A) (ca_bundle ?A) es"
    using download_logged [of ?A u w "[]"] by (auto simp: loop_log_def es_def)
  from accepted_timed [OF this assms(2) [folded es_def]] obtain fs gs t where
    split: "es = fs @ [Ev_remaining t, Ev_create (Some h), Ev_perform h ss] @ gs"
    and safe: "request_safe (url_policy_env ?A) (ca_bundle ?A) t ss" by blast
  from safe have t: "0 < t" "Set_connecttimeout_ms t \<in> set ss" "Set_timeout_ms t \<in> set ss"
    by (auto simp: request_safe_def origin_settings_def)
  have "Ev_remaining t \<in> set es" by (simp add: split)
  from logged_reading [OF this [unfolded es_def]] obtain w0 where "t = fst (remaining_origin_milliseconds d w0)"
    by (auto simp: origin_timeout_def deadline_remaining_def)
  with t(1) remaining_origin_milliseconds_exact [OF assms(1), of w0]
  have "t = min (uint (deadline_ms d) - uint (fst (clock w0)) - 1000) (2 ^ 63 - 1)" by auto
  with t split show ?thesis unfolding es_def [symmetric] by blast
qed

definition sample_deadline :: "unit invocation_deadline" where
  "sample_deadline = \<lparr>deadline_ms = 2550, clock_now = Some (Pair 1500)\<rparr>"

theorem transfers_within_deadline_witness:
  "\<exists>t ss. Set_timeout_ms t \<in> set ss \<and> t = min (2550 - 1500 - 1000) (2 ^ 63 - 1) \<and> length ss = 20"
proof -
  let ?o = "sample_origin ''a.example'' ''/x''" and ?A = "sample_apis [1, 2] :: (string, unit) origin_apis"
  have "deadline_remaining (Some sample_deadline) = (\<lambda>w. (50, w))"
    by (rule ext) (simp add: sample_deadline_def deadline_remaining_def remaining_origin_milliseconds_def
        response_submission_reserve_ms_def long_max_def min_def)
  then have same: "?A\<lparr>timeout_api := origin_timeout sample_deadline\<rparr> = ?A"
    by (simp add: origin_timeout_def sample_apis_def)
  obtain es where es: "snd (snd (download_origin (logged ?A) ?o ((), []))) = es"
    and "loop_log ?A 0 es (fst (download_origin ?A ?o ()))"
    using download_logged [of ?A ?o "()" "[]"] by auto
  with sample_download [of "[1, 2]" "()"] have log: "0 < performs es" "accepted_log (url_policy_env ?A) (ca_bundle ?A) es"
    by (simp_all add: loop_log_def Let_def)
  then obtain h ss where run: "Ev_perform h ss \<in> set es" using performs_pos by blast
  from accepted_timed [OF log(2) run] have "length ss = 20" by (auto simp: request_safe_def origin_settings_def)
  moreover have clock: "clock_now sample_deadline = Some (Pair 1500)" by (simp add: sample_deadline_def)
  ultimately show ?thesis
    using transfers_within_deadline [OF clock, of h ss ?A ?o "()", unfolded same es, OF run]
    by (auto simp: sample_deadline_def)
qed

end
