(* ===== verification/Animation_Timeline.thy ===== *)
theory Animation_Timeline
  imports Animated_Conversion
begin

text \<open>
  What the animated conversions promise of the timeline: the durations in milliseconds, and the order
  of the calls on the encoder, read from a log that the wrapped libraries keep.
\<close>

section \<open>Durations\<close>

lemma unat_ucast_64 [simp]: "unat (ucast (x :: u32) :: u64) = unat x"
  using unsigned_less [of x, where ?'a = nat] by (simp add: unsigned_ucast_eq take_bit_nat_eq_self)

lemma u32_le: "unat (x :: u32) \<le> 4294967295"
  using unsigned_less [of x, where ?'a = nat] by simp

lemma unat_max: "unat (max x y :: u64) = max (unat x) (unat y)"
  by (simp add: max_def word_le_nat_alt)

text \<open>The guarded computation in whole seconds and the rest is the formula on unbounded numbers.\<close>

lemma split_seconds:
  fixes s t :: nat
  assumes "0 < t"
  shows "s div t * 1000 + s mod t * 1000 div t = s * 1000 div t"
proof -
  have "s * 1000 = s div t * 1000 * t + s mod t * 1000"
    using div_mult_mod_eq [of s t] by (metis add_mult_distrib mult.commute mult.left_commute)
  then have "s * 1000 div t = (s div t * 1000 * t + s mod t * 1000) div t" by simp
  with assms show ?thesis by simp
qed

text \<open>C16. A frame of an animated JPEG XL lasts for its ticks at the rate of the header, in whole
  milliseconds and at least one: the split of the computation into seconds and a rest computes exactly
  the number of milliseconds of the unbounded formula, nothing wraps around, and the only durations
  refused are those of 2147484 seconds or more.\<close>

theorem jxl_duration_exact:
  assumes "ticks_per_second \<noteq> 0"
  shows "map_option unat (jxl_duration_ms duration tick_denominator ticks_per_second) =
    (let ticks = unat duration * unat tick_denominator
     in if 2147484 \<le> ticks div unat ticks_per_second then None
        else Some (max 1 (ticks * 1000 div unat ticks_per_second)))"
proof -
  let ?t = "unat ticks_per_second" and ?s = "unat duration * unat tick_denominator"
  let ?T = "ucast ticks_per_second :: u64" and ?S = "ucast duration * ucast tick_denominator :: u64"
  have t: "0 < ?t" "?t \<le> 4294967295" using assms u32_le by (simp_all add: unat_gt_0)
  have "?s \<le> 4294967295 * 4294967295" by (intro mult_le_mono u32_le)
  then have S: "unat ?S = ?s" by (simp add: unat_word_ariths take_bit_nat_eq_self)
  then have q: "unat (?S div ?T) = ?s div ?t" and r: "unat (?S mod ?T) = ?s mod ?t"
    by (simp_all add: unat_div unat_mod)
  define Q where "Q = ?S div ?T"
  define R where "R = ?S mod ?T"
  note q = q [folded Q_def] and r = r [folded R_def]
  have guard: "2147483647 div 1000 < Q \<longleftrightarrow> 2147484 \<le> ?s div ?t"
    by (auto simp: word_less_nat_alt q)
  have ms: "unat (Q * 1000 + R * 1000 div ?T) = ?s * 1000 div ?t" if "\<not> 2147484 \<le> ?s div ?t"
  proof -
    have "?s mod ?t < ?t" using t(1) by simp
    then have m: "?s mod ?t * 1000 < 4294967296000" using t(2) by linarith
    then have "unat (R * 1000) = ?s mod ?t * 1000"
      by (simp add: unat_word_ariths r take_bit_nat_eq_self)
    then have d: "unat (R * 1000 div ?T) = ?s mod ?t * 1000 div ?t" by (simp add: unat_div)
    have "?s mod ?t * 1000 div ?t \<le> ?s mod ?t * 1000" by (rule div_le_dividend)
    then have d_le: "?s mod ?t * 1000 div ?t < 4294967296000" using m by linarith
    have q_le: "?s div ?t * 1000 < 2147484000" using that by linarith
    then have "unat (Q * 1000) = ?s div ?t * 1000"
      by (simp add: unat_word_ariths q take_bit_nat_eq_self)
    then have "unat (Q * 1000 + R * 1000 div ?T) = ?s div ?t * 1000 + ?s mod ?t * 1000 div ?t"
      using d d_le q_le by (simp add: unat_plus_if' no_olen_add_nat)
    with split_seconds [OF t(1)] show ?thesis by simp
  qed
  show ?thesis
    unfolding jxl_duration_ms_def Let_def Q_def [symmetric] R_def [symmetric] guard
    using ms by (simp add: unat_max)
qed

theorem jxl_duration_exact_witness:
  "map_option unat (jxl_duration_ms 3 1001 30000) = Some 100"
  using jxl_duration_exact [of 30000 3 1001] by simp

lemma avif_duration_exact:
  assumes "timescale \<noteq> 0"
  shows "uint (avif_duration_ms duration timescale) = int (max 1 (unat duration * 1000 div unat timescale))"
proof -
  have "unat duration * 1000 < 2 ^ 64" using u32_le [of duration] by simp
  then have "unat (avif_duration_ms duration timescale) = max 1 (unat duration * 1000 div unat timescale)"
    by (simp add: avif_duration_ms_def unat_max unat_div unat_word_ariths take_bit_nat_eq_self)
  then show ?thesis by (metis uint_nat)
qed

section \<open>Logging libraries\<close>

text \<open>What is logged: the body given to libheif, the frames and alpha frames that its tracks deliver
  and the ends of the tracks, and the calls on the encoder of libwebp, with the pixels of the pictures and
  the assembled animation.\<close>

datatype 't picture_event =
    Ev_read bytes | Ev_frame 't rgba_image | Ev_frames_end 't | Ev_alpha 't alpha_image | Ev_alpha_end 't
  | Ev_open int int | Ev_import int int bytes int | Ev_rescale int int | Ev_add int webp_config | Ev_end int
  | Ev_assembled "bytes option"

type_synonym ('t, 'w) recording = "'w \<times> 't picture_event list"

definition quiet :: "('w \<Rightarrow> 'a \<times> 'w) \<Rightarrow> ('t, 'w) recording \<Rightarrow> 'a \<times> ('t, 'w) recording" where
  "quiet f = (\<lambda>(w, es). case f w of (r, w') \<Rightarrow> (r, (w', es)))"

definition noted :: "('a \<Rightarrow> 't picture_event list) \<Rightarrow> ('w \<Rightarrow> 'a \<times> 'w) \<Rightarrow> ('t, 'w) recording \<Rightarrow> 'a \<times> ('t, 'w) recording" where
  "noted e f = (\<lambda>(w, es). case f w of (r, w') \<Rightarrow> (r, (w', es @ e r)))"

definition silent :: "('w \<Rightarrow> 'w) \<Rightarrow> ('t, 'w) recording \<Rightarrow> ('t, 'w) recording" where
  "silent f = (\<lambda>(w, es). (f w, es))"

definition recorded_webp :: "'w webp_api \<Rightarrow> ('t, 'w) recording webp_api" where
  "recorded_webp webp =
     \<lparr>options_init = quiet (options_init webp),
      encoder_new = (\<lambda>width height. noted (\<lambda>_. [Ev_open width height]) (encoder_new webp width height)),
      encoder_delete = silent (encoder_delete webp), config_init = quiet (config_init webp),
      validate_config = (\<lambda>config. quiet (validate_config webp config)), picture_init = quiet (picture_init webp),
      picture_free = silent (picture_free webp),
      picture_import = (\<lambda>width height pixels stride.
        noted (\<lambda>_. [Ev_import width height pixels stride]) (picture_import webp width height pixels stride)),
      picture_rescale = (\<lambda>width height. noted (\<lambda>_. [Ev_rescale width height]) (picture_rescale webp width height)),
      encoder_add = (\<lambda>timestamp config. noted (\<lambda>_. [Ev_add timestamp config]) (encoder_add webp timestamp config)),
      encoder_end = (\<lambda>timestamp. noted (\<lambda>_. [Ev_end timestamp]) (encoder_end webp timestamp)),
      encoder_assemble = noted (\<lambda>r. [Ev_assembled r]) (encoder_assemble webp),
      mux_profile = (\<lambda>encoded icc. quiet (mux_profile webp encoded icc))\<rparr>"

fun frame_answer :: "'t \<Rightarrow> rgba_image decoded \<Rightarrow> 't picture_event list" where
  "frame_answer t (Heif_image (Some im)) = [Ev_frame t im]"
| "frame_answer t Heif_end_of_sequence = [Ev_frames_end t]"
| "frame_answer t _ = []"

fun alpha_answer :: "'t \<Rightarrow> alpha_image decoded \<Rightarrow> 't picture_event list" where
  "alpha_answer t (Heif_image (Some a)) = [Ev_alpha t a]"
| "alpha_answer t Heif_end_of_sequence = [Ev_alpha_end t]"
| "alpha_answer t _ = []"

definition recorded_heif :: "('t, 'w) heif_api \<Rightarrow> ('t, ('t, 'w) recording) heif_api" where
  "recorded_heif heif =
     \<lparr>heif_context_alloc = quiet (heif_context_alloc heif),
      heif_context_read = (\<lambda>content. noted (\<lambda>_. [Ev_read content]) (heif_context_read heif content)),
      heif_has_sequence = heif_has_sequence heif \<circ> fst, heif_get_track = (\<lambda>i. quiet (heif_get_track heif i)),
      heif_is_image_sequence = (\<lambda>t. heif_is_image_sequence heif t \<circ> fst),
      heif_has_alpha_channel = (\<lambda>t. heif_has_alpha_channel heif t \<circ> fst),
      heif_referring_tracks = (\<lambda>t n. heif_referring_tracks heif t n \<circ> fst),
      heif_timescale = (\<lambda>t. heif_timescale heif t \<circ> fst), heif_resolution = (\<lambda>t. heif_resolution heif t \<circ> fst),
      heif_options_alloc = quiet (heif_options_alloc heif),
      heif_next_rgba = (\<lambda>t. noted (frame_answer t) (heif_next_rgba heif t)),
      heif_next_alpha = (\<lambda>t. noted (alpha_answer t) (heif_next_alpha heif t))\<rparr>"

text \<open>Only the error queue of libvips is used on this path.\<close>

definition recorded_vips :: "('i, 'w) vips_api \<Rightarrow> ('i, ('t, 'w) recording) vips_api" where
  "recorded_vips vips =
     \<lparr>vips_initialize = quiet (vips_initialize vips), vips_load_pages = (\<lambda>c. quiet (vips_load_pages vips c)),
      vips_load = (\<lambda>c. quiet (vips_load vips c)), vips_from_memory = (\<lambda>c x y. quiet (vips_from_memory vips c x y)),
      vips_set_icc = (\<lambda>i c. silent (vips_set_icc vips i c)), vips_width = (\<lambda>i. vips_width vips i \<circ> fst),
      vips_height = (\<lambda>i. vips_height vips i \<circ> fst), vips_has = (\<lambda>i n. vips_has vips i n \<circ> fst),
      vips_get_int = (\<lambda>i n. quiet (vips_get_int vips i n)), vips_crop = (\<lambda>i x y. quiet (vips_crop vips i x y)),
      vips_resize = (\<lambda>i s. quiet (vips_resize vips i s)), vips_thumbnail = (\<lambda>i x y. quiet (vips_thumbnail vips i x y)),
      vips_webpsave = (\<lambda>i q. quiet (vips_webpsave vips i q)), vips_heifsave = (\<lambda>i q. quiet (vips_heifsave vips i q)),
      vips_error_clear = silent (vips_error_clear vips), vips_cache_drop_all = silent (vips_cache_drop_all vips)\<rparr>"

lemma recording_simps [simp]:
  "quiet f w = (r, w') \<Longrightarrow> snd w' = snd w"
  "noted e f w = (r, w') \<Longrightarrow> snd w' = snd w @ e r"
  "snd (silent g w) = snd w"
  by (auto simp: quiet_def noted_def silent_def split: prod.splits)

lemma recorded_webp_simps [simp]:
  "options_init (recorded_webp webp) w = (r, w') \<Longrightarrow> snd w' = snd w"
  "encoder_new (recorded_webp webp) x y w = (r, w') \<Longrightarrow> snd w' = snd w @ [Ev_open x y]"
  "snd (encoder_delete (recorded_webp webp) w) = snd w"
  "config_init (recorded_webp webp) w = (r, w') \<Longrightarrow> snd w' = snd w"
  "validate_config (recorded_webp webp) config w = (r, w') \<Longrightarrow> snd w' = snd w"
  "picture_init (recorded_webp webp) w = (r, w') \<Longrightarrow> snd w' = snd w"
  "snd (picture_free (recorded_webp webp) w) = snd w"
  "picture_import (recorded_webp webp) x y pixels stride w = (r, w') \<Longrightarrow> snd w' = snd w @ [Ev_import x y pixels stride]"
  "picture_rescale (recorded_webp webp) x y w = (r, w') \<Longrightarrow> snd w' = snd w @ [Ev_rescale x y]"
  "encoder_add (recorded_webp webp) t config w = (r, w') \<Longrightarrow> snd w' = snd w @ [Ev_add t config]"
  "encoder_end (recorded_webp webp) t w = (r, w') \<Longrightarrow> snd w' = snd w @ [Ev_end t]"
  "encoder_assemble (recorded_webp webp) w = (out, w') \<Longrightarrow> snd w' = snd w @ [Ev_assembled out]"
  by (simp_all add: recorded_webp_def)

lemma recorded_heif_simps [simp]:
  "heif_options_alloc (recorded_heif heif) w = (b, w') \<Longrightarrow> snd w' = snd w"
  "heif_next_alpha (recorded_heif heif) t w = (alpha, w') \<Longrightarrow> snd w' = snd w @ alpha_answer t alpha"
  "heif_next_rgba (recorded_heif heif) t w = (frame, w') \<Longrightarrow> snd w' = snd w @ frame_answer t frame"
  by (simp_all add: recorded_heif_def)

section \<open>The timeline of an AVIF sequence\<close>

text \<open>A frame of the animation: the image that the track delivered, that of the alpha track if there
  is one, and their merge.\<close>

record avif_frame =
  fr_image :: rgba_image
  fr_alpha :: "alpha_image option"
  fr_merged :: rgba_image

definition frame_accepted :: "'t option \<Rightarrow> u16 \<Rightarrow> u16 \<Rightarrow> avif_frame \<Rightarrow> bool" where
  "frame_accepted alpha width height f \<longleftrightarrow>
     im_width (fr_image f) = uint width \<and> im_height (fr_image f) = uint height \<and> im_plane (fr_merged f) \<noteq> None
     \<and> (case alpha of
          None \<Rightarrow> fr_alpha f = None \<and> fr_merged f = fr_image f
        | Some _ \<Rightarrow> \<exists>a. fr_alpha f = Some a \<and> al_monochrome a \<and> al_duration a = im_duration (fr_image f)
            \<and> al_width a = im_width (fr_image f) \<and> al_height a = im_height (fr_image f)
            \<and> alpha_merged a (fr_image f) (fr_merged f))"

definition frame_ms :: "u32 \<Rightarrow> u32 \<Rightarrow> int" where
  "frame_ms timescale duration = int (max 1 (unat duration * 1000 div unat timescale))"

definition total_ms :: "u32 \<Rightarrow> avif_frame list \<Rightarrow> int" where
  "total_ms timescale frames = sum_list (map (\<lambda>f. frame_ms timescale (im_duration (fr_image f))) frames)"

definition picture_events ::
    "webp_config \<Rightarrow> int \<Rightarrow> int \<Rightarrow> bytes \<Rightarrow> int \<Rightarrow> (int \<times> int) option \<Rightarrow> int \<Rightarrow> 't picture_event list" where
  "picture_events config width height pixels stride target timestamp =
     Ev_import width height pixels stride
       # (case target of None \<Rightarrow> [] | Some (tw, th) \<Rightarrow> [Ev_rescale tw th]) @ [Ev_add timestamp config]"

definition alpha_events :: "'t option \<Rightarrow> alpha_image option \<Rightarrow> 't picture_event list" where
  "alpha_events alpha a = (case (alpha, a) of (Some t, Some al) \<Rightarrow> [Ev_alpha t al] | _ \<Rightarrow> [])"

definition frame_events ::
    "webp_config \<Rightarrow> 't \<Rightarrow> 't option \<Rightarrow> int \<Rightarrow> int \<Rightarrow> (int \<times> int) option \<Rightarrow> int \<Rightarrow> avif_frame \<Rightarrow> 't picture_event list" where
  "frame_events config track alpha width height target t f =
     Ev_frame track (fr_image f) # alpha_events alpha (fr_alpha f)
       @ picture_events config width height (the (im_plane (fr_merged f))) (int (im_stride (fr_merged f))) target t"

fun animation_log ::
    "webp_config \<Rightarrow> 't \<Rightarrow> 't option \<Rightarrow> int \<Rightarrow> int \<Rightarrow> (int \<times> int) option \<Rightarrow> u32 \<Rightarrow> int \<Rightarrow> avif_frame list \<Rightarrow> 't picture_event list" where
  "animation_log config track alpha width height target timescale t [] = []"
| "animation_log config track alpha width height target timescale t (f # fs) =
     frame_events config track alpha width height target t f
       @ animation_log config track alpha width height target timescale (t + frame_ms timescale (im_duration (fr_image f))) fs"

definition ends_of :: "'t option \<Rightarrow> 't picture_event list" where
  "ends_of alpha = (case alpha of None \<Rightarrow> [] | Some t \<Rightarrow> [Ev_alpha_end t])"

lemma total_ms_simps [simp]:
  "total_ms timescale [] = 0"
  "total_ms timescale (f # fs) = frame_ms timescale (im_duration (fr_image f)) + total_ms timescale fs"
  by (simp_all add: total_ms_def)

lemma add_picture_recorded:
  assumes "add_picture (recorded_webp webp) config p w = (True, w')"
  shows "snd w' = snd w @ picture_events config (pic_width p) (pic_height p) (pic_pixels p) (pic_stride p) (pic_target p) (pic_timestamp p)"
  using assms
  by (auto simp: add_picture_def picture_events_def dest!: recorded_webp_simps(6,8-10)
      split: prod.splits bool.splits option.splits)

lemma apply_alpha_recorded:
  assumes "apply_avif_alpha_frame (recorded_heif heif) alpha im w = (Some merged, w')"
  shows "\<exists>a. snd w' = snd w @ alpha_events alpha a \<and> im_duration merged = im_duration im
    \<and> (case alpha of
          None \<Rightarrow> a = None \<and> merged = im
        | Some _ \<Rightarrow> \<exists>al. a = Some al \<and> al_monochrome al \<and> al_duration al = im_duration im
            \<and> al_width al = im_width im \<and> al_height al = im_height im \<and> alpha_merged al im merged)"
proof (cases alpha)
  case None
  with assms show ?thesis by (auto simp: apply_avif_alpha_frame_def alpha_events_def)
next
  case (Some t)
  with assms obtain a where "heif_next_alpha (recorded_heif heif) t w = (Heif_image (Some a), w')" "al_monochrome a"
    "al_duration a = im_duration im" "al_width a = im_width im" "al_height a = im_height im"
    "merge_planes a im = Some merged" "1 \<le> al_depth a" "al_depth a \<le> 16"
    by (auto simp: apply_avif_alpha_frame_def split: option.splits prod.splits decoded.splits if_splits)
  moreover from merge_planes_merged [OF this(6-8)] have "alpha_merged a im merged" .
  ultimately show ?thesis using Some by (intro exI [of _ "Some a"]) (auto simp: alpha_events_def alpha_merged_def)
qed

lemma check_frame_recorded:
  assumes "check_avif_frame (recorded_heif heif) alpha width height n im w = (Inr (merged, pixels), w')"
  shows "\<exists>a. snd w' = snd w @ alpha_events alpha a \<and> im_duration merged = im_duration im \<and> im_plane merged = Some pixels
    \<and> frame_accepted alpha width height \<lparr>fr_image = im, fr_alpha = a, fr_merged = merged\<rparr>"
    and "n \<le> maximum_animation_frames" and "n \<le> maximum_animation_decoded_pixels div (unat width * unat height)"
proof -
  from assms have size: "im_width im = uint width" "im_height im = uint height" "im_plane merged = Some pixels"
    and run: "apply_avif_alpha_frame (recorded_heif heif) alpha im w = (Some merged, w')"
    by (auto simp: check_avif_frame_def Let_def split: if_splits prod.splits option.splits)
  from apply_alpha_recorded [OF run] obtain a where a: "snd w' = snd w @ alpha_events alpha a" "im_duration merged = im_duration im"
    and accepted: "case alpha of
          None \<Rightarrow> a = None \<and> merged = im
        | Some _ \<Rightarrow> \<exists>al. a = Some al \<and> al_monochrome al \<and> al_duration al = im_duration im
            \<and> al_width al = im_width im \<and> al_height al = im_height im \<and> alpha_merged al im merged"
    by (elim exE conjE) (rule that)
  from size accepted have "frame_accepted alpha width height \<lparr>fr_image = im, fr_alpha = a, fr_merged = merged\<rparr>"
    by (cases alpha) (simp_all add: frame_accepted_def)
  with a size(3) show "\<exists>a. snd w' = snd w @ alpha_events alpha a \<and> im_duration merged = im_duration im
      \<and> im_plane merged = Some pixels \<and> frame_accepted alpha width height \<lparr>fr_image = im, fr_alpha = a, fr_merged = merged\<rparr>"
    by (intro exI [of _ a] conjI)
qed (use assms in \<open>auto simp: check_avif_frame_def Let_def split: if_splits\<close>)

declare avif_frame_loop.simps [simp del]

lemma loop_recorded:
  fixes heif :: "('t, 'w) heif_api" and webp :: "'w webp_api"
  assumes "avif_frame_loop (recorded_heif heif) (recorded_webp webp) config track alpha width height timescale target n t w
      = (Inr (n', t'), w')" and "timescale \<noteq> 0"
  shows "\<exists>fs. snd w' = snd w @ animation_log config track alpha (uint width) (uint height) target timescale t fs @ [Ev_frames_end track]
    \<and> list_all (frame_accepted alpha width height) fs \<and> n' = n + length fs \<and> t' = t + total_ms timescale fs
    \<and> (fs = [] \<or> t' \<le> int_max \<and> n' \<le> maximum_animation_frames
         \<and> n' \<le> maximum_animation_decoded_pixels div (unat width * unat height))"
  using assms
proof (induction "recorded_heif heif" "recorded_webp webp :: ('t, 'w) recording webp_api" config track alpha width height timescale target n t w
    rule: avif_frame_loop.induct)
  case (1 config track alpha width height timescale target n t w)
  note step = avif_frame_loop.simps [of "recorded_heif heif" "recorded_webp webp" config track alpha width height timescale target n t w]
  obtain r w1 where rgba: "heif_next_rgba (recorded_heif heif) track w = (r, w1)" by (metis surj_pair)
  show ?case
  proof (cases "r = Heif_end_of_sequence")
    case True
    with rgba 1(2) step show ?thesis by (intro exI [of _ "[]"]) simp
  next
    case False
    with rgba 1(2) step obtain im merged pixels w2 w3 where r: "r = Heif_image (Some im)"
      and check: "check_avif_frame (recorded_heif heif) alpha width height (Suc n) im w1 = (Inr (merged, pixels), w2)"
      and add: "add_picture (recorded_webp webp) config (avif_picture width height target merged pixels t) w2 = (True, w3)"
      and time: "\<not> int_max - t < uint (avif_duration_ms (im_duration merged) timescale)"
      and loop: "avif_frame_loop (recorded_heif heif) (recorded_webp webp) config track alpha width height timescale target (Suc n)
        (t + uint (avif_duration_ms (im_duration merged) timescale)) w3 = (Inr (n', t'), w')"
      by (auto simp: Let_def split: decoded.splits option.splits prod.splits sum.splits bool.splits if_splits)
    from check_frame_recorded(1) [OF check] obtain a where a: "snd w2 = snd w1 @ alpha_events alpha a" "im_duration merged = im_duration im"
      "im_plane merged = Some pixels" "frame_accepted alpha width height \<lparr>fr_image = im, fr_alpha = a, fr_merged = merged\<rparr>" by blast
    let ?f = "\<lparr>fr_image = im, fr_alpha = a, fr_merged = merged\<rparr>"
    have ms: "uint (avif_duration_ms (im_duration merged) timescale) = frame_ms timescale (im_duration im)"
      using avif_duration_exact [OF 1(3)] a(2) by (simp add: frame_ms_def)
    from 1(1) [OF rgba [unfolded r, symmetric] refl refl check [symmetric] refl refl add [symmetric] refl refl time loop 1(3)]
    obtain fs where fs: "snd w' = snd w3 @ animation_log config track alpha (uint width) (uint height) target timescale
        (t + frame_ms timescale (im_duration im)) fs @ [Ev_frames_end track]"
      "list_all (frame_accepted alpha width height) fs"
      "n' = Suc n + length fs" "t' = t + frame_ms timescale (im_duration im) + total_ms timescale fs"
      "fs = [] \<or> t' \<le> int_max \<and> n' \<le> maximum_animation_frames
         \<and> n' \<le> maximum_animation_decoded_pixels div (unat width * unat height)"
      by (auto simp: ms)
    have "snd w3 = snd w @ frame_events config track alpha (uint width) (uint height) target t ?f"
      using rgba r a(1,3) add_picture_recorded [OF add] by (simp add: avif_picture_def frame_events_def)
    moreover have "t' \<le> int_max \<and> n' \<le> maximum_animation_frames
         \<and> n' \<le> maximum_animation_decoded_pixels div (unat width * unat height)"
      using fs check_frame_recorded(2,3) [OF check] time ms by auto
    ultimately show ?thesis using fs a(4) by (intro exI [of _ "?f # fs"]) simp
  qed
qed

lemma find_alpha_recorded:
  "find_avif_alpha_track (recorded_heif heif) track (w, es) =
     (case find_avif_alpha_track heif track w of (r, w') \<Rightarrow> (r, (w', es)))"
  by (auto simp: find_avif_alpha_track_def recorded_heif_def quiet_def Let_def split: prod.splits option.splits)

lemma open_avif_recorded:
  assumes "open_avif_sequence (recorded_heif heif) content (w, es) = (Some (track, alpha), s)"
  shows "\<exists>w1. s = (w1, es @ [Ev_read content]) \<and> open_avif_sequence heif content w = (Some (track, alpha), w1)"
proof -
  have calls: "heif_context_alloc (recorded_heif heif) (v, l) = (case heif_context_alloc heif v of (r, v') \<Rightarrow> (r, (v', l)))"
    "heif_context_read (recorded_heif heif) content (v, l) = (case heif_context_read heif content v of (r, v') \<Rightarrow> (r, (v', l @ [Ev_read content])))"
    "heif_get_track (recorded_heif heif) i (v, l) = (case heif_get_track heif i v of (r, v') \<Rightarrow> (r, (v', l)))"
    "heif_has_sequence (recorded_heif heif) (v, l) = heif_has_sequence heif v"
    "heif_is_image_sequence (recorded_heif heif) t (v, l) = heif_is_image_sequence heif t v" for v l i t
    by (simp_all add: recorded_heif_def quiet_def noted_def)
  from assms show ?thesis
    by (auto simp: open_avif_sequence_def calls find_alpha_recorded split: if_splits prod.splits option.splits bool.splits)
qed

lemma config_recorded:
  "initialize_apng_webp_config (recorded_webp webp) quality w = (Some config, w') \<Longrightarrow>
   snd w' = snd w \<and> config = lossy_config quality"
  by (auto simp: initialize_apng_webp_config_def dest!: recorded_webp_simps(4,5) split: prod.splits bool.splits if_splits)

lemma open_encoder_recorded:
  "open_encoder (recorded_webp webp) target w = (True, w') \<Longrightarrow>
   snd w' = snd w @ [Ev_open (sint (dim_width target)) (sint (dim_height target))]"
  by (auto simp: open_encoder_def dest!: recorded_webp_simps(1,2) split: prod.splits bool.splits)

lemma finish_avif_recorded:
  assumes "finish_avif (recorded_heif heif) (recorded_webp webp) alpha n t w = (Inr encoded, w')"
  shows "snd w' = snd w @ ends_of alpha @ [Ev_end t, Ev_assembled (Some encoded)] \<and> 0 < n \<and> encoded \<noteq> []"
proof -
  define p where "p = (case alpha of None \<Rightarrow> (True, w)
      | Some track \<Rightarrow> (case heif_next_alpha (recorded_heif heif) track w of
            (Heif_end_of_sequence, w') \<Rightarrow> (True, w') | (_, w') \<Rightarrow> (False, w')))"
  obtain ended w1 where "p = (ended, w1)" by (cases p)
  then have alpha: "(case alpha of None \<Rightarrow> (True, w)
      | Some track \<Rightarrow> (case heif_next_alpha (recorded_heif heif) track w of
            (Heif_end_of_sequence, w') \<Rightarrow> (True, w') | (_, w') \<Rightarrow> (False, w'))) = (ended, w1)"
    by (simp add: p_def)
  then have "ended \<Longrightarrow> snd w1 = snd w @ ends_of alpha"
    by (auto simp: ends_of_def split: option.splits prod.splits decoded.splits dest!: recorded_heif_simps(2))
  with assms alpha show ?thesis
    by (auto simp: finish_avif_def assemble_animation_def dest!: recorded_webp_simps(11,12)
        split: if_splits prod.splits bool.splits option.splits)
qed

lemma encode_avif_recorded:
  assumes "encode_avif (recorded_heif heif) (recorded_webp webp) quality track alpha width height timescale target w
      = (Inr encoded, w')" and "timescale \<noteq> 0"
  shows "\<exists>fs. snd w' = snd w @ animation_log (lossy_config quality) track alpha (uint width) (uint height) target timescale 0 fs
        @ Ev_frames_end track # ends_of alpha @ [Ev_end (total_ms timescale fs), Ev_assembled (Some encoded)]
    \<and> list_all (frame_accepted alpha width height) fs \<and> 0 < length fs \<and> length fs \<le> maximum_animation_frames
    \<and> length fs \<le> maximum_animation_decoded_pixels div (unat width * unat height)
    \<and> total_ms timescale fs \<le> int_max \<and> encoded \<noteq> []"
proof -
  from assms(1) obtain config w1 w2 n t w3 where config: "initialize_apng_webp_config (recorded_webp webp) quality w = (Some config, w1)"
    and opts: "heif_options_alloc (recorded_heif heif) w1 = (True, w2)"
    and loop: "avif_frame_loop (recorded_heif heif) (recorded_webp webp) config track alpha width height timescale target 0 0 w2
      = (Inr (n, t), w3)"
    and fin: "finish_avif (recorded_heif heif) (recorded_webp webp) alpha n t w3 = (Inr encoded, w')"
    by (auto simp: encode_avif_def split: prod.splits option.splits bool.splits sum.splits)
  from loop_recorded [OF loop assms(2)] obtain fs
    where fs: "snd w3 = snd w2 @ animation_log config track alpha (uint width) (uint height) target timescale 0 fs @ [Ev_frames_end track]"
      "list_all (frame_accepted alpha width height) fs" "n = length fs" "t = total_ms timescale fs"
      "fs = [] \<or> t \<le> int_max \<and> n \<le> maximum_animation_frames
         \<and> n \<le> maximum_animation_decoded_pixels div (unat width * unat height)" by auto
  from finish_avif_recorded [OF fin] config_recorded [OF config] recorded_heif_simps(1) [OF opts] fs
  show ?thesis by (intro exI [of _ fs]) auto
qed

text \<open>C15. A successful conversion of an AVIF sequence has given the body to libheif and opened one
  encoder of the target size, and has then, frame by frame as the track of that sequence delivered them,
  imported the pixels of that frame as a picture of the size of the track, merged with the frame of the
  alpha track when there is one, rescaled it once if the limits ask for it and added it at the sum of the
  durations before it, each duration the ticks of the frame in milliseconds at the timescale of the track
  and at least one; after the last frame of both tracks it has ended the animation at the total duration,
  and the result is the animation that the encoder assembled. There are between 1 and 1024 frames with at
  most 128 million pixels in all, and the total fits a signed 32-bit number.\<close>

theorem avif_conversion_timeline:
  assumes "convert_animated_avif (recorded_vips vips) (recorded_heif heif) (recorded_webp webp) content limits quality (w, [])
    = (Inr encoded, (w', events))"
  shows "\<exists>track alpha w1 width height dimensions frames.
    open_avif_sequence heif content w = (Some (track, alpha), w1) \<and> heif_resolution heif track w1 = Some (width, height)
    \<and> validate_dimensions (uint width) (uint height) 1 False = Some dimensions \<and> heif_timescale heif track w1 \<noteq> 0
    \<and> events = Ev_read content
        # Ev_open (sint (dim_width (picture_dimensions dimensions limits))) (sint (dim_height (picture_dimensions dimensions limits)))
        # animation_log (lossy_config quality) track alpha (uint width) (uint height) (picture_target dimensions limits)
            (heif_timescale heif track w1) 0 frames
        @ Ev_frames_end track # ends_of alpha
        @ [Ev_end (total_ms (heif_timescale heif track w1) frames), Ev_assembled (Some encoded)]
    \<and> list_all (frame_accepted alpha width height) frames
    \<and> 0 < length frames \<and> length frames \<le> 1024 \<and> length frames \<le> 128000000 div (unat width * unat height)
    \<and> total_ms (heif_timescale heif track w1) frames \<le> int_max \<and> encoded \<noteq> []"
proof -
  let ?H = "recorded_heif heif" and ?W = "recorded_webp webp" and ?V = "recorded_vips vips"
  from assms obtain track alpha s1 width height dimensions w2 w3
    where opened: "open_avif_sequence ?H content (w, []) = (Some (track, alpha), s1)"
      and res: "heif_resolution ?H track s1 = Some (width, height)"
      and dims: "validate_dimensions (uint width) (uint height) 1 False = Some dimensions"
      and scale: "heif_timescale ?H track s1 \<noteq> 0"
      and enc: "open_encoder ?W (picture_dimensions dimensions limits) s1 = (True, w2)"
      and run: "encode_avif ?H ?W quality track alpha width height (heif_timescale ?H track s1) (picture_target dimensions limits) w2
        = (Inr encoded, w3)"
      and end_world: "(w', events) = encoder_delete ?W w3"
    by (auto simp: convert_animated_avif_def animated_fail_def Let_def
        split: if_splits prod.splits option.splits bool.splits sum.splits)
  from open_avif_recorded [OF opened] obtain w1 where s1: "s1 = (w1, [Ev_read content])"
    and track: "open_avif_sequence heif content w = (Some (track, alpha), w1)" by auto
  then have same: "heif_timescale ?H track s1 = heif_timescale heif track w1" "heif_resolution ?H track s1 = heif_resolution heif track w1"
    by (simp_all add: recorded_heif_def)
  from end_world have "events = snd w3" by (metis recorded_webp_simps(3) snd_conv)
  moreover from encode_avif_recorded [OF run scale] open_encoder_recorded [OF enc] s1 same obtain fs where
    "snd w3 = Ev_read content
        # Ev_open (sint (dim_width (picture_dimensions dimensions limits))) (sint (dim_height (picture_dimensions dimensions limits)))
        # animation_log (lossy_config quality) track alpha (uint width) (uint height) (picture_target dimensions limits)
            (heif_timescale heif track w1) 0 fs
        @ Ev_frames_end track # ends_of alpha
        @ [Ev_end (total_ms (heif_timescale heif track w1) fs), Ev_assembled (Some encoded)]"
    "list_all (frame_accepted alpha width height) fs" "0 < length fs" "length fs \<le> 1024"
    "length fs \<le> 128000000 div (unat width * unat height)" "total_ms (heif_timescale heif track w1) fs \<le> int_max" "encoded \<noteq> []"
    by (auto simp: maximum_animation_frames_def maximum_animation_decoded_pixels_def)
  ultimately show ?thesis
    using track res dims scale same
    by (intro exI [of _ track] exI [of _ alpha] exI [of _ w1] exI [of _ width] exI [of _ height] exI [of _ dimensions] exI [of _ fs] conjI) simp_all
qed

text \<open>A sequence of two frames of two pixels, of 40 and 3 ticks.\<close>

definition clip_frame :: "u32 \<Rightarrow> rgba_image" where
  "clip_frame duration = \<lparr>im_width = 2, im_height = 1, im_duration = duration,
     im_plane = Some [1, 2, 3, 4, 5, 6, 7, 8], im_stride = 8\<rparr>"

definition clip_heif :: "(nat, nat) heif_api" where
  "clip_heif = \<lparr>heif_context_alloc = Pair True, heif_context_read = (\<lambda>_. Pair True), heif_has_sequence = (\<lambda>_. True),
     heif_get_track = (\<lambda>_. Pair (Some 0)), heif_is_image_sequence = (\<lambda>_ _. True), heif_has_alpha_channel = (\<lambda>_ _. True),
     heif_referring_tracks = (\<lambda>_ _ _. []), heif_timescale = (\<lambda>_ _. 1000), heif_resolution = (\<lambda>_ _. Some (2, 1)),
     heif_options_alloc = Pair True,
     heif_next_rgba = (\<lambda>_ n. (if n = 0 then Heif_image (Some (clip_frame 40))
        else if n = 1 then Heif_image (Some (clip_frame 3)) else Heif_end_of_sequence, Suc n)),
     heif_next_alpha = (\<lambda>_. Pair Heif_end_of_sequence)\<rparr>"

lemmas clip_defs = recorded_heif_def clip_heif_def recorded_webp_def sample_webp_def quiet_def noted_def silent_def

definition clip_events :: "u32 \<Rightarrow> int \<Rightarrow> webp_config \<Rightarrow> nat picture_event list" where
  "clip_events d t config =
     [Ev_frame 0 (clip_frame d), Ev_import 2 1 [1, 2, 3, 4, 5, 6, 7, 8] 8, Ev_add t config]"

lemma clip_turn:
  assumes "n < 2"
  shows "avif_frame_loop (recorded_heif clip_heif) (recorded_webp sample_webp) config 0 None 2 1 1000 None n t (n, es) =
    (let d = if n = 0 then 40 else 3
     in if int_max - t < d then (Inl Animated_dimensions, (Suc n, es @ clip_events (of_int d) t config))
        else avif_frame_loop (recorded_heif clip_heif) (recorded_webp sample_webp) config 0 None 2 1 1000 None (Suc n) (t + d)
               (Suc n, es @ clip_events (of_int d) t config))"
proof -
  have "uint (avif_duration_ms 40 1000) = 40" "uint (avif_duration_ms 3 1000) = 3"
    by (simp_all add: avif_duration_ms_def)
  moreover have "n = 0 \<or> n = 1" using assms by auto
  ultimately show ?thesis
    by (subst avif_frame_loop.simps)
      (auto simp: clip_defs clip_events_def check_avif_frame_def maximum_animation_frames_def maximum_animation_decoded_pixels_def
        apply_avif_alpha_frame_def clip_frame_def add_picture_def avif_picture_def size_max_def int_max_def Let_def)
qed

lemma clip_loop:
  "avif_frame_loop (recorded_heif clip_heif) (recorded_webp sample_webp) config 0 None 2 1 1000 None 0 0 (0, es) =
    (Inr (2, 43), (3, es @ clip_events 40 0 config @ clip_events 3 40 config @ [Ev_frames_end 0]))"
proof -
  have "avif_frame_loop (recorded_heif clip_heif) (recorded_webp sample_webp) config 0 None 2 1 1000 None 2 t (2, es) =
      (Inr (2, t), (3, es @ [Ev_frames_end 0]))" for t es
    by (subst avif_frame_loop.simps) (simp add: clip_defs)
  then show ?thesis using clip_turn [of 0] clip_turn [of 1] by (simp add: int_max_def numeral_2_eq_2)
qed

lemma clip_conversion:
  "convert_animated_avif (recorded_vips sample_vips) (recorded_heif clip_heif) (recorded_webp sample_webp) [1]
     \<lparr>dim_width = 100, dim_height = 100\<rparr> Quality_standard (0, []) =
   (Inr [82], (3, [Ev_read [1], Ev_open 2 1] @ clip_events 40 0 (lossy_config Quality_standard)
      @ clip_events 3 40 (lossy_config Quality_standard) @ [Ev_frames_end 0, Ev_end 43, Ev_assembled (Some [82])]))"
proof -
  let ?H = "recorded_heif clip_heif" and ?W = "recorded_webp sample_webp :: (nat, nat) recording webp_api"
  have opened: "open_avif_sequence ?H [1] (0, []) = (Some (0, None), (0, [Ev_read [1]]))"
    by (simp add: open_avif_sequence_def find_avif_alpha_track_def clip_defs)
  have "heif_options_alloc ?H w = (True, w)" "initialize_apng_webp_config ?W quality w = (Some (lossy_config quality), w)" for quality w
    by (cases w; simp add: clip_defs initialize_apng_webp_config_def)+
  moreover have "finish_avif ?H ?W None 2 43 (3, es) = (Inr [82], (3, es @ [Ev_end 43, Ev_assembled (Some [82])]))" for es
    by (simp add: finish_avif_def assemble_animation_def clip_defs)
  ultimately have "encode_avif ?H ?W Quality_standard 0 None 2 1 1000 None (0, es) =
      (Inr [82], (3, es @ clip_events 40 0 (lossy_config Quality_standard)
      @ clip_events 3 40 (lossy_config Quality_standard) @ [Ev_frames_end 0, Ev_end 43, Ev_assembled (Some [82])]))" for es
    by (simp add: encode_avif_def clip_loop)
  moreover have "heif_resolution ?H 0 (0, es) = Some (2, 1)" "heif_timescale ?H 0 (0, es) = 1000"
    "encoder_delete ?W w = w" for w es
    by (cases w; simp add: clip_defs)+
  ultimately show ?thesis
    by (simp add: convert_animated_avif_def opened validate_dimensions_def maximum_media_width_def maximum_media_height_def
        picture_dimensions_def picture_target_def animated_resize_target_def signed_dimensions_def open_encoder_def
        int_max_def clip_defs(3-7))
qed

theorem avif_conversion_timeline_witness:
  "\<exists>w1 frames. open_avif_sequence clip_heif [1] 0 = (Some (0, None), w1) \<and> 0 < length frames \<and> length frames \<le> 1024
    \<and> total_ms (heif_timescale clip_heif 0 w1) frames = 43"
proof -
  have opened: "open_avif_sequence clip_heif [1] 0 = (Some (0, None), 0)"
    by (simp add: open_avif_sequence_def find_avif_alpha_track_def clip_heif_def)
  let ?e = "lossy_config Quality_standard"
  let ?events = "[Ev_read [1], Ev_open 2 1] @ clip_events 40 0 ?e @ clip_events 3 40 ?e
      @ [Ev_frames_end 0, Ev_end 43, Ev_assembled (Some [82])]"
  from avif_conversion_timeline [OF clip_conversion] obtain track alpha w1 pre frames where
    track: "open_avif_sequence clip_heif [1] 0 = (Some (track, alpha), w1)"
    and log: "?events = pre @ [Ev_end (total_ms (heif_timescale clip_heif track w1) frames), Ev_assembled (Some [82])]"
    and frames: "0 < length frames" "length frames \<le> 1024"
    by (elim exE conjE) (rule that, assumption, simp only: append_Cons [symmetric] append_assoc [symmetric], assumption+)
  from log have "Ev_end 43 = Ev_end (total_ms (heif_timescale clip_heif track w1) frames)"
    using arg_cong [OF log, of "\<lambda>es. last (butlast es)"] by (simp add: butlast_append)
  with track opened frames show ?thesis by auto
qed

end
