(* ===== verification/Spec2Isabelle.thy ===== *)
theory Spec2Isabelle
  imports Startup Delivery Lifetimes Download_Deadline Animation_Timeline
begin

text \<open>
  A verification development of \<^verbatim>\<open>media-proxy-lambda\<close>, a media proxy that runs as a custom runtime of AWS
  Lambda: an invocation carries the URL of an image, the proxy fetches it from a public https origin,
  converts it to WebP or AVIF within the sizes of a few presets and streams the result back.

  \<^bold>\<open>The program and its theories.\<close> Paths are those under \<^verbatim>\<open>src/src\<close>; the headers of \<^verbatim>\<open>src/include/mediaproxy\<close>
  go with them. Every definition keeps the name of its function where the logic allows it, and the helpers
  named after a part of a function model that part.

  \<^item> \<open>Prelude\<close>: bytes, texts, searches and decimal numerals as \<^verbatim>\<open>std::string_view\<close> and \<^verbatim>\<open>std::from_chars\<close> have
    them, and the named collections \<open>policy_simps\<close> and \<open>result_splits\<close>.
  \<^item> The event: \<open>Percent_Decode\<close>, \<open>Query\<close> (\<^verbatim>\<open>http/query.cpp\<close>), \<open>Event\<close> (\<^verbatim>\<open>http/event.cpp\<close>), \<open>Response\<close>
    (\<^verbatim>\<open>http/response.cpp\<close>) and \<open>Request_Plan\<close> (\<^verbatim>\<open>http/request_plan.cpp\<close>): from the payload of an invocation to
    an immediate response or a media request.
  \<^item> The policies: \<open>Address_Policy\<close>, \<open>Dns_Policy\<close>, \<open>Idna\<close>, \<open>Url_Policy\<close> and \<open>Redirect_Policy\<close>
    (\<^verbatim>\<open>http/address_policy.cpp\<close>, \<^verbatim>\<open>dns_policy.cpp\<close>, \<^verbatim>\<open>idna.cpp\<close>, \<^verbatim>\<open>url_policy.cpp\<close>, \<^verbatim>\<open>redirect_policy.cpp\<close>): which
    origins may be asked at all. The tracker of redirects is a record with its array of visited URLs.
  \<^item> The download: \<open>Dns_Resolver\<close>, \<open>Curl_Resolve_Pin\<close>, \<open>Origin_Response\<close>, \<open>Origin_Curl\<close> and \<open>Origin_Download\<close>
    (the files of the same names in \<^verbatim>\<open>http\<close>): one hop resolves, pins, configures a handle and performs a
    transfer into an accumulator; the loop follows redirects. \<open>Download_Protocol\<close> wraps the interfaces so that
    every call leaves an event and states what a download does as an automaton over these events;
    \<open>Download_Deadline\<close> adds the clock of the invocation. \<open>System_Interfaces\<close> has the transport on libcurl and the
    data that the linker embeds (\<^verbatim>\<open>ca_bundle.cpp\<close>, \<^verbatim>\<open>media/svg_font.cpp\<close>).
  \<^item> The media path: \<open>Mime\<close>, \<open>Classification\<close>, \<open>Binary64\<close> and \<open>Resize\<close> (\<^verbatim>\<open>media/mime.cpp\<close>,
    \<^verbatim>\<open>classification.cpp\<close>, \<^verbatim>\<open>resize.cpp\<close>) decide what is converted and to which size. \<open>Apng\<close>, \<open>Apng_Decoder\<close>,
    \<open>Apng_Compositor\<close>, \<open>Apng_Conversion\<close> with \<open>Webp_Encoder\<close> are the path of animated PNG; \<open>Avif_Alpha\<close>,
    \<open>Media_Apis\<close>, \<open>Static_Conversion\<close>, \<open>Animated_Conversion\<close> and \<open>Animation_Timeline\<close> those of all other images;
    \<open>Conversion\<close> (\<^verbatim>\<open>media/conversion.cpp\<close>) chooses among them.
  \<^item> The service: \<open>Handler\<close> (\<^verbatim>\<open>handler.cpp\<close>) takes one event to its response, \<open>Deadline\<close>
    (\<^verbatim>\<open>runtime/deadline.cpp\<close>) limits its download, and \<open>Logging\<close> (\<^verbatim>\<open>logging.cpp\<close>) writes one entry about it.
  \<^item> The runtime: \<open>Streaming\<close>, \<open>Socket_Transport\<close>, \<open>Next_Response\<close> and \<open>Runtime_Client\<close> (\<^verbatim>\<open>runtime/streaming.cpp\<close>,
    \<^verbatim>\<open>socket_transport.cpp\<close>, \<^verbatim>\<open>next_response.cpp\<close>, \<^verbatim>\<open>client.cpp\<close>) are the exchanges with the runtime endpoint;
    \<open>Invocation\<close> (\<^verbatim>\<open>runtime/invocation.cpp\<close>) handles one invocation and submits one answer; \<open>Bootstrap\<close> has the loop
    of \<^verbatim>\<open>bootstrap.cpp\<close> and \<open>Startup\<close> its start, with \<open>Vips_Runtime\<close> (\<^verbatim>\<open>media/vips_runtime.cpp\<close>). \<open>Delivery\<close> puts
    them together, down to the bytes of the connections of one turn.
  \<^item> \<open>Lifetimes\<close>: the moves, assignments and destructors of the two classes that own a resource, the pin of
    \<^verbatim>\<open>http/curl_resolve_pin.cpp\<close> and the transport of \<^verbatim>\<open>runtime/socket_transport.cpp\<close>.

  \<^bold>\<open>State, effects and errors.\<close> Structures are records, enumerations and variants datatypes or sums, fixed-width
  integers words of their width; \<^verbatim>\<open>std::size_t\<close> counts of things in memory are natural numbers. An \<open>error + 'a\<close>
  or an option carries every early return. Libraries and system calls are fields of records over a world
  \<open>'w\<close>: each call takes the world and yields its answer and the next one, so that the order of calls is the
  order of the worlds. Null pointers and null function pointers are \<open>None\<close>. A loop that a library or the
  kernel drives, and that may therefore go on for ever, is a \<open>partial_function (option)\<close> whose \<open>None\<close> means
  that it does not return; no fuel is used anywhere. The other loops are recursive functions with a
  measure: the redirects left, the bytes left of a body or a header, the chunks left of a PNG.

  \<^bold>\<open>Interfaces.\<close> The contracts between components are locales, interpreted on the model's own definitions:
  \<open>address_policy\<close> and \<open>url_policy\<close> (what acceptance promises), \<open>origin_resolver\<close> (a resolver over both),
  \<open>byte_sink\<close> (what a write that succeeds or fails has delivered, which gives the streamed response on any
  sink and, through \<open>socket\<close>, on the socket), \<open>quiet_responder\<close> (a submission that never throws, which the
  client of the runtime satisfies), \<open>world_invariant\<close> (interfaces of a download that keep a property of the world)
  and \<open>unique_owner\<close> (moves that hand a resource on, which pins and sockets satisfy).

  \<^bold>\<open>What the theorems show.\<close>
  \<^item> The service: a response that may be cached comes from an accepted URL, a finished download and a
    conversion of exactly the downloaded body; outcome, response, recorded errors and log entry agree, and
    there is one entry, written last; the loop makes exactly one submission for every polled invocation, in
    order, calls the handler once with each whose trace id could be set and reports the others, ends only
    after a failed poll or submission, and otherwise answers any number of invocations; and each log entry
    is one line of JSON that reads back as its members.
  \<^item> The handling of an invocation returns. The one hypothesis, \<open>decoder_progress\<close> in \<open>Conversion\<close>, is what
    \<^verbatim>\<open>jxl/decode.h\<close> documents of a decoder that has its whole input: it goes on through the input until it
    reports the end or an error, and asks for an output buffer only while it has none. A buffer can be set
    any number of times; the measure of the loops is twice the work left, plus one while the buffer is lacking.
  \<^item> The origin side: every request that a download performs goes to an accepted URL, pinned to public
    addresses, with certificate checks on and redirects of the library off; every download follows the hop
    protocol with at most eleven requests and closes every handle; no transfer is given more than the time
    left until the deadline of its invocation, less a second; the address policy is the CIDR
    specification, host names are DNS names, redirects are bounded and loop free, and an accumulated body
    is the prefix of what was delivered.
  \<^item> The runtime side: an invocation is parsed back from any fragmentation of its encoding, the incremental
    parser implements a reading of the whole message, what is written for a response decodes to the response,
    and a turn of the loop takes one message from the runtime and puts the answer to it, and nothing else, on
    a second connection. No sequence of moves releases a socket or a pin twice, or loses one.
  \<^item> The media side: the signature table decides the media type, and media type and request decide the
    converter of the body, the encoder and the format of the answer; an animated PNG, with or without its
    default image as a frame, is cut into one PNG per frame, decoded and composed by the rules of the format,
    pixel by pixel, and fed to the encoder in order; an AVIF animation is a log of the frames that the track
    of the body delivered, each followed by the import of its merged pixels and its time; the durations of
    JPEG XL frames are exact; sizes stay within their limits and the integer arithmetic of blending, alpha
    and time is exact.

  \<^bold>\<open>Bounds.\<close> The limits are those of the source: 10 MiB of body, 8 MiB of event, 64 KiB of response head, ten
  redirects, 64 addresses, 7680 by 4320 pixels, 1024 frames and 128 million pixels of an animation. The
  statements about words say where no operation can wrap around.

  \<^bold>\<open>Not modelled.\<close> The resvg shim is Rust glue around a library. What a library answers about itself, and what its
  header said, are the two records of \<open>Startup\<close>, because the constants belong to the libraries. Allocation failures
  are modelled where the code handles them itself (the accumulator, the resolve pin, the handler's
  exceptions as \<open>handler_end\<close>) and nowhere else. The reference counts of libvips, libheif and libcurl objects,
  which the code leaves to the deleters of its smart pointers, are not observable in a model of values; the resources
  that are modelled with their release are the transfer handles of a download, pins, sockets, and what
  \<^verbatim>\<open>main\<close> holds until the process ends.
\<close>

end
